(* ===== verification/TunPrelude.thy ===== *)
theory TunPrelude
  imports Main "HOL-Library.Word" "HOL-Library.Signed_Division"
begin

text \<open>
  What every component of the development shares: the widths of the program's integers, a
  flat byte memory with block reads and writes, the facts about 32-bit sequence numbers
  that the buffer arithmetic of the sessions needs, and the generic
  argument that a run of steps keeps an invariant.
\<close>

named_theorems ext_laws \<open>documented behaviour of code outside the repository, as rewrite rules\<close>

type_synonym byte = "8 word"
type_synonym u8 = "8 word"
type_synonym u16 = "16 word"
type_synonym u32 = "32 word"

text \<open>
  A heap block is a function from offsets to bytes; its capacity is kept beside it. A fresh
  \<open>new char[n]\<close> has unspecified contents, so nothing is said of a block that was not written.
\<close>

type_synonym mem = "nat \<Rightarrow> byte"

definition mem_read :: "mem \<Rightarrow> nat \<Rightarrow> nat \<Rightarrow> byte list" where
  "mem_read m i n = map m [i..<i + n]"

definition mem_write :: "mem \<Rightarrow> nat \<Rightarrow> byte list \<Rightarrow> mem" where
  "mem_write m i bs = (\<lambda>j. if i \<le> j \<and> j < i + length bs then bs ! (j - i) else m j)"

lemma length_mem_read [simp]: "length (mem_read m i n) = n"
  by (simp add: mem_read_def)

lemma mem_read_0 [simp]: "mem_read m i 0 = []"
  by (simp add: mem_read_def)

lemma nth_mem_read [simp]: "k < n \<Longrightarrow> mem_read m i n ! k = m (i + k)"
  by (simp add: mem_read_def)

lemma mem_read_append: "mem_read m i (a + b) = mem_read m i a @ mem_read m (i + a) b"
  by (rule nth_equalityI) (auto simp: nth_append)

lemma mem_read_cong: "(\<And>k. k < n \<Longrightarrow> m (i + k) = m' (j + k)) \<Longrightarrow> mem_read m i n = mem_read m' j n"
  by (rule nth_equalityI) auto

lemma take_mem_read: "a \<le> n \<Longrightarrow> take a (mem_read m i n) = mem_read m i a"
  by (rule nth_equalityI) auto

lemma drop_mem_read: "drop a (mem_read m i n) = mem_read m (i + a) (n - a)"
  by (rule nth_equalityI) (auto simp: add.assoc)

lemma mem_read_write_same [simp]: "mem_read (mem_write m i bs) i (length bs) = bs"
  by (rule nth_equalityI) (auto simp: mem_write_def)

lemma mem_read_write_below: "j + n \<le> i \<Longrightarrow> mem_read (mem_write m i bs) j n = mem_read m j n"
  by (rule mem_read_cong) (auto simp: mem_write_def)

lemma mem_read_write_end:
  "mem_read (mem_write m (i + a) bs) i (a + length bs) = mem_read m i a @ bs"
  by (simp add: mem_read_append mem_read_write_below)

lemma mem_write_Nil [simp]: "mem_write m i [] = m"
  by (rule ext) (auto simp: mem_write_def)

section \<open>Sequence numbers\<close>

text \<open>
  The code subtracts 32-bit sequence numbers (which wraps) to get a length, but adds them to a
  pointer one after the other (which does not wrap on a 64-bit machine): \<open>ptr_off a b\<close>
  is the offset of the expression \<open>buf + a - b\<close>.
\<close>

definition ptr_off :: "u32 \<Rightarrow> u32 \<Rightarrow> int" where
  "ptr_off a b = uint a - uint b"

lemma ptr_off_le: "b \<le> a \<Longrightarrow> ptr_off a b = int (unat a - unat b)"
  by (simp add: ptr_off_def word_le_nat_alt of_nat_diff)

lemma ptr_off_nat: "b \<le> a \<Longrightarrow> nat (ptr_off a b) = unat a - unat b"
  by (simp add: ptr_off_le)

lemma ptr_off_bound:
  "b \<le> a \<Longrightarrow> unat a - unat b + n \<le> k \<Longrightarrow> 0 \<le> ptr_off a b \<and> ptr_off a b + int n \<le> int k"
  by (simp only: ptr_off_le) linarith

lemma ptr_off_neg: "a < b \<Longrightarrow> ptr_off a b < 0"
  by (simp add: ptr_off_def word_less_def)

lemma unat_diff_le: "(b::u32) \<le> a \<Longrightarrow> unat (a - b) = unat a - unat b"
  by (rule unat_sub)

lemma unat_diff_gt:
  assumes "(a::u32) < b"
  shows "unat (a - b) = 2 ^ 32 - (unat b - unat a)"
  using assms unsigned_less [of b] by (simp add: unat_sub_if' word_le_nat_alt word_less_nat_alt)

lemma unat_add_small: "unat (a::u32) + n < 2 ^ 32 \<Longrightarrow> unat (a + word_of_nat n) = unat a + n"
  by (simp add: unat_word_ariths unat_of_nat)

lemma unat_add_small': "unat (a::u32) + unat b < 2 ^ 32 \<Longrightarrow> unat (a + b) = unat a + unat b"
  by (simp add: unat_word_ariths)

lemma unat_ucast_u16 [simp]: "unat (ucast (x::u16) :: u32) = unat x"
  by (simp add: unsigned_ucast_eq take_bit_nat_eq_self order_less_trans [OF unsigned_less])

lemma u32_less: "unat (x::u32) < 4294967296"
  using unsigned_less [of x] by simp

lemma u16_less: "unat (x::u16) < 65536"
  using unsigned_less [of x] by simp

lemma sint_small:
  assumes "unat (d::u32) < 2 ^ 31"
  shows "sint d = uint d"
proof -
  have "int (unat d) < int (2 ^ 31)" using assms by (simp only: of_nat_less_iff)
  then have "uint d < 2 ^ 31" by simp
  moreover have "- (2 ^ 31) \<le> uint d" using order.trans [of "- (2 ^ 31)" 0 "uint d"] by simp
  ultimately show ?thesis by (simp add: sint_uint signed_take_bit_int_eq_self_iff)
qed

lemma sint_negative:
  assumes "sint (d::u32) < 0"
  shows "2 ^ 31 \<le> unat d"
proof (rule ccontr)
  assume "\<not> 2 ^ 31 \<le> unat d"
  then have "sint d = uint d" by (intro sint_small) simp
  then show False using assms by simp
qed

section \<open>Runs of steps\<close>

text \<open>
  A component is a step function on a state, driven by events. An invariant
  that every allowed step keeps is kept by every run of allowed events. The locale is
  interpreted on the step functions of the components.
\<close>

primrec run_steps :: "('s \<Rightarrow> 'e \<Rightarrow> 's) \<Rightarrow> 's \<Rightarrow> 'e list \<Rightarrow> 's" where
  "run_steps f s [] = s"
| "run_steps f s (e # es) = run_steps f (f s e) es"

primrec run_ok :: "('s \<Rightarrow> 'e \<Rightarrow> 's) \<Rightarrow> ('s \<Rightarrow> 'e \<Rightarrow> bool) \<Rightarrow> 's \<Rightarrow> 'e list \<Rightarrow> bool" where
  "run_ok f ok s [] = True"
| "run_ok f ok s (e # es) = (ok s e \<and> run_ok f ok (f s e) es)"

lemma run_steps_append: "run_steps f s (es @ es') = run_steps f (run_steps f s es) es'"
  by (induction es arbitrary: s) auto

locale step_invariant =
  fixes stepf :: "'s \<Rightarrow> 'e \<Rightarrow> 's"
    and okf :: "'s \<Rightarrow> 'e \<Rightarrow> bool"
    and invf :: "'s \<Rightarrow> bool"
  assumes step_keeps: "invf s \<Longrightarrow> okf s e \<Longrightarrow> invf (stepf s e)"
begin

lemma run_keeps: "invf s \<Longrightarrow> run_ok stepf okf s es \<Longrightarrow> invf (run_steps stepf s es)"
  by (induction es arbitrary: s) (auto intro: step_keeps)

lemma prefix_keeps:
  assumes "invf s" and "run_ok stepf okf s (es @ es')"
  shows "invf (run_steps stepf s es)"
proof -
  have "run_ok stepf okf s es" using assms(2)
    by (induction es arbitrary: s) auto
  with assms(1) show ?thesis by (rule run_keeps)
qed

end

end
