(* ===== verification/NetWorld.thy ===== *)
theory NetWorld
  imports TunPrelude
begin

text \<open>
  The world the sessions act on. Sockets, the tunnel, the clock and the C library's generator
  are outside the repository; what a call of them answers is an arbitrary function of the log of
  everything that happened before it, so a theorem about every such function is a theorem about every
  behaviour of the outside. What the code does to the outside is an event of the log,
  oldest first. The descriptor sets that the sessions share with the select
  loops are part of the world, and so is the one function-local static variable
  of the session code, which all sessions share.
\<close>

type_synonym fd = int
type_synonym addr = "u32 \<times> u16"

datatype 'p event =
    EvWritePacket 'p
  | EvConnect fd addr
  | EvSend fd "byte list" int
  | EvReceive fd nat
  | EvShutdownWrite fd
  | EvClose fd
  | EvNow
  | EvRand
  | EvCallback
  | EvFault

record 'p world =
  log :: "'p event list"
  receiveSet :: "fd set"
  sendSet :: "fd set"
  errorSet :: "fd set"
  maxFd :: fd
  lastAcknowledgmentSent :: int

text \<open>
  \<open>EvFault\<close> marks a step whose C++ behaviour is undefined: a pointer outside
  its block. The safety theorems say when it does not occur.
\<close>

definition emit :: "'p event \<Rightarrow> 'p world \<Rightarrow> 'p world" where
  "emit e w = w\<lparr>log := log w @ [e]\<rparr>"

definition writePacket :: "'p \<Rightarrow> 'p world \<Rightarrow> 'p world" where
  "writePacket p w = emit (EvWritePacket p) w"

definition check_bounds :: "bool \<Rightarrow> 'p world \<Rightarrow> 'p world" where
  "check_bounds b w = (if b then w else emit EvFault w)"

definition fault_free :: "'p world \<Rightarrow> bool" where
  "fault_free w = (EvFault \<notin> set (log w))"

text \<open>The packets written to the tunnel, and the bytes a socket has accepted, in order.\<close>

fun written :: "'p event list \<Rightarrow> 'p list" where
  "written [] = []"
| "written (EvWritePacket p # es) = p # written es"
| "written (_ # es) = written es"

fun accepted :: "fd \<Rightarrow> 'p event list \<Rightarrow> byte list" where
  "accepted f [] = []"
| "accepted f (EvSend g bs n # es) =
     (if f = g \<and> 0 \<le> n then take (nat n) bs @ accepted f es else accepted f es)"
| "accepted f (_ # es) = accepted f es"

lemma written_append [simp]: "written (es @ es') = written es @ written es'"
  by (induction es rule: written.induct) auto

lemma accepted_append [simp]: "accepted f (es @ es') = accepted f es @ accepted f es'"
  by (induction f es rule: accepted.induct) auto

lemma log_emit [simp]: "log (emit e w) = log w @ [e]"
  by (simp add: emit_def)

lemma log_writePacket [simp]: "log (writePacket p w) = log w @ [EvWritePacket p]"
  by (simp add: writePacket_def)

lemma check_bounds_True [simp]: "check_bounds True w = w"
  by (simp add: check_bounds_def)

lemma written_check_bounds [simp]: "written (log (check_bounds b w)) = written (log w)"
  by (simp add: check_bounds_def)

lemma accepted_check_bounds [simp]: "accepted f (log (check_bounds b w)) = accepted f (log w)"
  by (simp add: check_bounds_def)

lemma emit_sets [simp]:
  "receiveSet (emit e w) = receiveSet w" "sendSet (emit e w) = sendSet w"
  "errorSet (emit e w) = errorSet w" "maxFd (emit e w) = maxFd w"
  "lastAcknowledgmentSent (emit e w) = lastAcknowledgmentSent w"
  by (simp_all add: emit_def)

lemma writePacket_sets [simp]:
  "receiveSet (writePacket p w) = receiveSet w" "sendSet (writePacket p w) = sendSet w"
  "errorSet (writePacket p w) = errorSet w" "maxFd (writePacket p w) = maxFd w"
  "lastAcknowledgmentSent (writePacket p w) = lastAcknowledgmentSent w"
  by (simp_all add: writePacket_def)

lemma check_bounds_sets [simp]:
  "receiveSet (check_bounds b w) = receiveSet w" "sendSet (check_bounds b w) = sendSet w"
  "errorSet (check_bounds b w) = errorSet w" "maxFd (check_bounds b w) = maxFd w"
  "lastAcknowledgmentSent (check_bounds b w) = lastAcknowledgmentSent w"
  by (simp_all add: check_bounds_def)

lemma fault_free_emit [simp]: "fault_free (emit e w) \<longleftrightarrow> fault_free w \<and> e \<noteq> EvFault"
  by (auto simp: fault_free_def)

lemma fault_free_writePacket [simp]: "fault_free (writePacket p w) \<longleftrightarrow> fault_free w"
  by (simp add: writePacket_def)

lemma fault_free_check [simp]: "fault_free (check_bounds b w) \<longleftrightarrow> fault_free w \<and> b"
  by (simp add: check_bounds_def)

lemma fault_free_sets [simp]:
  "fault_free (w\<lparr>receiveSet := a\<rparr>) = fault_free w" "fault_free (w\<lparr>sendSet := a\<rparr>) = fault_free w"
  "fault_free (w\<lparr>errorSet := a\<rparr>) = fault_free w" "fault_free (w\<lparr>maxFd := b\<rparr>) = fault_free w"
  "fault_free (w\<lparr>lastAcknowledgmentSent := t\<rparr>) = fault_free w"
  by (simp_all add: fault_free_def)

definition empty_world :: "'p world" where
  "empty_world = \<lparr>log = [], receiveSet = {}, sendSet = {}, errorSet = {}, maxFd = 0,
     lastAcknowledgmentSent = 0\<rparr>"

end
