(* ===== verification/TcpPacket.thy ===== *)
theory TcpPacket
  imports NetWorld
begin

text \<open>
  The packet classes come from a submodule that is not part of the repository, so they
  are a parameter: a record of the methods the sessions call, over an unknown type of
  packets. \<open>header_laws\<close> states what the sessions rely on: setters set what their name says and
  leave the other fields alone. It is a hypothesis of the theorems that read a written
  packet. The last section gives one packet type that satisfies it, for the witnesses.
\<close>

record 'p packet_ops =
  isSyn :: "'p \<Rightarrow> bool"
  isAck :: "'p \<Rightarrow> bool"
  isFin :: "'p \<Rightarrow> bool"
  isReset :: "'p \<Rightarrow> bool"
  getSequenceNumber :: "'p \<Rightarrow> u32"
  getAcknowledgmentNumber :: "'p \<Rightarrow> u32"
  getSegmentLength :: "'p \<Rightarrow> u32"
  getWindowSize :: "'p \<Rightarrow> u16"
  getWindowShift :: "'p \<Rightarrow> u8"
  getSource :: "'p \<Rightarrow> addr"
  getDestination :: "'p \<Rightarrow> addr"
  payload :: "'p \<Rightarrow> byte list"
  payloadCapacity :: "'p \<Rightarrow> nat"
  swapEnds :: "'p \<Rightarrow> 'p"
  makeResetSeq :: "u32 \<Rightarrow> 'p \<Rightarrow> 'p"
  makeResetAck :: "u32 \<Rightarrow> 'p \<Rightarrow> 'p"
  makeSyn :: "u32 \<Rightarrow> u32 \<Rightarrow> 'p \<Rightarrow> 'p"
  makeNormal :: "u32 \<Rightarrow> u32 \<Rightarrow> 'p \<Rightarrow> 'p"
  setFinFlag :: "bool \<Rightarrow> 'p \<Rightarrow> 'p"
  setWindowSize :: "u16 \<Rightarrow> 'p \<Rightarrow> 'p"

definition header_laws :: "('p, 'x) packet_ops_scheme \<Rightarrow> bool" where
  "header_laws P \<longleftrightarrow>
    (\<forall>p. isSyn P (swapEnds P p) = isSyn P p \<and> isAck P (swapEnds P p) = isAck P p \<and>
         isReset P (swapEnds P p) = isReset P p \<and> isFin P (swapEnds P p) = isFin P p \<and>
         getSequenceNumber P (swapEnds P p) = getSequenceNumber P p \<and>
         getAcknowledgmentNumber P (swapEnds P p) = getAcknowledgmentNumber P p \<and>
         getSegmentLength P (swapEnds P p) = getSegmentLength P p \<and>
         payload P (swapEnds P p) = payload P p \<and>
         payloadCapacity P (swapEnds P p) = payloadCapacity P p \<and>
         getSource P (swapEnds P p) = getDestination P p \<and>
         getDestination P (swapEnds P p) = getSource P p) \<and>
    (\<forall>n p. isReset P (makeResetSeq P n p) \<and> \<not> isSyn P (makeResetSeq P n p) \<and>
         getSequenceNumber P (makeResetSeq P n p) = n \<and>
         getSource P (makeResetSeq P n p) = getSource P p \<and>
         getDestination P (makeResetSeq P n p) = getDestination P p) \<and>
    (\<forall>n p. isReset P (makeResetAck P n p) \<and> \<not> isSyn P (makeResetAck P n p) \<and>
         getAcknowledgmentNumber P (makeResetAck P n p) = n \<and>
         getSource P (makeResetAck P n p) = getSource P p \<and>
         getDestination P (makeResetAck P n p) = getDestination P p) \<and>
    (\<forall>m n p. isSyn P (makeSyn P m n p) \<and> isAck P (makeSyn P m n p) \<and>
         \<not> isReset P (makeSyn P m n p) \<and>
         getSequenceNumber P (makeSyn P m n p) = m \<and>
         getAcknowledgmentNumber P (makeSyn P m n p) = n \<and>
         getSource P (makeSyn P m n p) = getSource P p \<and>
         getDestination P (makeSyn P m n p) = getDestination P p) \<and>
    (\<forall>m n p. \<not> isSyn P (makeNormal P m n p) \<and> isAck P (makeNormal P m n p) \<and>
         \<not> isReset P (makeNormal P m n p) \<and> \<not> isFin P (makeNormal P m n p) \<and>
         getSequenceNumber P (makeNormal P m n p) = m \<and>
         getAcknowledgmentNumber P (makeNormal P m n p) = n \<and>
         payload P (makeNormal P m n p) = payload P p \<and>
         payloadCapacity P (makeNormal P m n p) = payloadCapacity P p \<and>
         getSource P (makeNormal P m n p) = getSource P p \<and>
         getDestination P (makeNormal P m n p) = getDestination P p) \<and>
    (\<forall>b p. isFin P (setFinFlag P b p) = b \<and> isSyn P (setFinFlag P b p) = isSyn P p \<and>
         isAck P (setFinFlag P b p) = isAck P p \<and> isReset P (setFinFlag P b p) = isReset P p \<and>
         getSequenceNumber P (setFinFlag P b p) = getSequenceNumber P p \<and>
         getAcknowledgmentNumber P (setFinFlag P b p) = getAcknowledgmentNumber P p \<and>
         getWindowSize P (setFinFlag P b p) = getWindowSize P p \<and>
         payload P (setFinFlag P b p) = payload P p \<and>
         payloadCapacity P (setFinFlag P b p) = payloadCapacity P p \<and>
         getSource P (setFinFlag P b p) = getSource P p \<and>
         getDestination P (setFinFlag P b p) = getDestination P p) \<and>
    (\<forall>n p. getWindowSize P (setWindowSize P n p) = n \<and>
         isFin P (setWindowSize P n p) = isFin P p \<and> isSyn P (setWindowSize P n p) = isSyn P p \<and>
         isAck P (setWindowSize P n p) = isAck P p \<and>
         isReset P (setWindowSize P n p) = isReset P p \<and>
         getSequenceNumber P (setWindowSize P n p) = getSequenceNumber P p \<and>
         getAcknowledgmentNumber P (setWindowSize P n p) = getAcknowledgmentNumber P p \<and>
         payload P (setWindowSize P n p) = payload P p \<and>
         payloadCapacity P (setWindowSize P n p) = payloadCapacity P p \<and>
         getSource P (setWindowSize P n p) = getSource P p \<and>
         getDestination P (setWindowSize P n p) = getDestination P p)"

lemma swapEnds_laws [ext_laws]:
  "header_laws P \<Longrightarrow> isSyn P (swapEnds P p) = isSyn P p"
  "header_laws P \<Longrightarrow> isAck P (swapEnds P p) = isAck P p"
  "header_laws P \<Longrightarrow> isReset P (swapEnds P p) = isReset P p"
  "header_laws P \<Longrightarrow> isFin P (swapEnds P p) = isFin P p"
  "header_laws P \<Longrightarrow> getSequenceNumber P (swapEnds P p) = getSequenceNumber P p"
  "header_laws P \<Longrightarrow> getAcknowledgmentNumber P (swapEnds P p) = getAcknowledgmentNumber P p"
  "header_laws P \<Longrightarrow> getSegmentLength P (swapEnds P p) = getSegmentLength P p"
  "header_laws P \<Longrightarrow> payload P (swapEnds P p) = payload P p"
  "header_laws P \<Longrightarrow> payloadCapacity P (swapEnds P p) = payloadCapacity P p"
  "header_laws P \<Longrightarrow> getSource P (swapEnds P p) = getDestination P p"
  "header_laws P \<Longrightarrow> getDestination P (swapEnds P p) = getSource P p"
  by (simp_all add: header_laws_def)

lemma makeReset_laws [ext_laws]:
  "header_laws P \<Longrightarrow> isReset P (makeResetSeq P n p)"
  "header_laws P \<Longrightarrow> isSyn P (makeResetSeq P n p) = False"
  "header_laws P \<Longrightarrow> getSequenceNumber P (makeResetSeq P n p) = n"
  "header_laws P \<Longrightarrow> getSource P (makeResetSeq P n p) = getSource P p"
  "header_laws P \<Longrightarrow> getDestination P (makeResetSeq P n p) = getDestination P p"
  "header_laws P \<Longrightarrow> isReset P (makeResetAck P n p)"
  "header_laws P \<Longrightarrow> isSyn P (makeResetAck P n p) = False"
  "header_laws P \<Longrightarrow> getAcknowledgmentNumber P (makeResetAck P n p) = n"
  "header_laws P \<Longrightarrow> getSource P (makeResetAck P n p) = getSource P p"
  "header_laws P \<Longrightarrow> getDestination P (makeResetAck P n p) = getDestination P p"
  by (simp_all add: header_laws_def)

lemma makeSyn_laws [ext_laws]:
  "header_laws P \<Longrightarrow> isSyn P (makeSyn P m n p)"
  "header_laws P \<Longrightarrow> isAck P (makeSyn P m n p)"
  "header_laws P \<Longrightarrow> isReset P (makeSyn P m n p) = False"
  "header_laws P \<Longrightarrow> getSequenceNumber P (makeSyn P m n p) = m"
  "header_laws P \<Longrightarrow> getAcknowledgmentNumber P (makeSyn P m n p) = n"
  "header_laws P \<Longrightarrow> getSource P (makeSyn P m n p) = getSource P p"
  "header_laws P \<Longrightarrow> getDestination P (makeSyn P m n p) = getDestination P p"
  by (simp_all add: header_laws_def)

lemma makeNormal_laws [ext_laws]:
  "header_laws P \<Longrightarrow> isSyn P (makeNormal P m n p) = False"
  "header_laws P \<Longrightarrow> isAck P (makeNormal P m n p)"
  "header_laws P \<Longrightarrow> isReset P (makeNormal P m n p) = False"
  "header_laws P \<Longrightarrow> isFin P (makeNormal P m n p) = False"
  "header_laws P \<Longrightarrow> getSequenceNumber P (makeNormal P m n p) = m"
  "header_laws P \<Longrightarrow> getAcknowledgmentNumber P (makeNormal P m n p) = n"
  "header_laws P \<Longrightarrow> payload P (makeNormal P m n p) = payload P p"
  "header_laws P \<Longrightarrow> payloadCapacity P (makeNormal P m n p) = payloadCapacity P p"
  "header_laws P \<Longrightarrow> getSource P (makeNormal P m n p) = getSource P p"
  "header_laws P \<Longrightarrow> getDestination P (makeNormal P m n p) = getDestination P p"
  by (simp_all add: header_laws_def)

lemma setFinFlag_laws [ext_laws]:
  "header_laws P \<Longrightarrow> isFin P (setFinFlag P b p) = b"
  "header_laws P \<Longrightarrow> isSyn P (setFinFlag P b p) = isSyn P p"
  "header_laws P \<Longrightarrow> isAck P (setFinFlag P b p) = isAck P p"
  "header_laws P \<Longrightarrow> isReset P (setFinFlag P b p) = isReset P p"
  "header_laws P \<Longrightarrow> getSequenceNumber P (setFinFlag P b p) = getSequenceNumber P p"
  "header_laws P \<Longrightarrow> getAcknowledgmentNumber P (setFinFlag P b p) = getAcknowledgmentNumber P p"
  "header_laws P \<Longrightarrow> getWindowSize P (setFinFlag P b p) = getWindowSize P p"
  "header_laws P \<Longrightarrow> payload P (setFinFlag P b p) = payload P p"
  "header_laws P \<Longrightarrow> payloadCapacity P (setFinFlag P b p) = payloadCapacity P p"
  "header_laws P \<Longrightarrow> getSource P (setFinFlag P b p) = getSource P p"
  "header_laws P \<Longrightarrow> getDestination P (setFinFlag P b p) = getDestination P p"
  by (simp_all add: header_laws_def)

lemma setWindowSize_laws [ext_laws]:
  "header_laws P \<Longrightarrow> getWindowSize P (setWindowSize P k p) = k"
  "header_laws P \<Longrightarrow> isFin P (setWindowSize P k p) = isFin P p"
  "header_laws P \<Longrightarrow> isSyn P (setWindowSize P k p) = isSyn P p"
  "header_laws P \<Longrightarrow> isAck P (setWindowSize P k p) = isAck P p"
  "header_laws P \<Longrightarrow> isReset P (setWindowSize P k p) = isReset P p"
  "header_laws P \<Longrightarrow> getSequenceNumber P (setWindowSize P k p) = getSequenceNumber P p"
  "header_laws P \<Longrightarrow> getAcknowledgmentNumber P (setWindowSize P k p) = getAcknowledgmentNumber P p"
  "header_laws P \<Longrightarrow> payload P (setWindowSize P k p) = payload P p"
  "header_laws P \<Longrightarrow> payloadCapacity P (setWindowSize P k p) = payloadCapacity P p"
  "header_laws P \<Longrightarrow> getSource P (setWindowSize P k p) = getSource P p"
  "header_laws P \<Longrightarrow> getDestination P (setWindowSize P k p) = getDestination P p"
  by (simp_all add: header_laws_def)

section \<open>A packet type for the witnesses\<close>

record demo_packet =
  dp_syn :: bool
  dp_ack :: bool
  dp_fin :: bool
  dp_rst :: bool
  dp_seq :: u32
  dp_ackno :: u32
  dp_win :: u16
  dp_src :: addr
  dp_dst :: addr
  dp_data :: "byte list"

definition demo_segment_length :: "demo_packet \<Rightarrow> u32" where
  "demo_segment_length p =
     word_of_nat (length (dp_data p)) + (if dp_syn p then 1 else 0) + (if dp_fin p then 1 else 0)"

definition demo_ops :: "'x \<Rightarrow> (demo_packet, 'x) packet_ops_scheme" where
  "demo_ops x = \<lparr>isSyn = dp_syn, isAck = dp_ack, isFin = dp_fin, isReset = dp_rst,
     getSequenceNumber = dp_seq, getAcknowledgmentNumber = dp_ackno,
     getSegmentLength = demo_segment_length, getWindowSize = dp_win, getWindowShift = (\<lambda>_. 0),
     getSource = dp_src, getDestination = dp_dst,
     payload = (\<lambda>p. take 65535 (dp_data p)), payloadCapacity = (\<lambda>_. 65535),
     swapEnds = (\<lambda>p. p\<lparr>dp_src := dp_dst p, dp_dst := dp_src p\<rparr>),
     makeResetSeq = (\<lambda>n p. p\<lparr>dp_syn := False, dp_ack := False, dp_fin := False, dp_rst := True,
        dp_seq := n, dp_data := []\<rparr>),
     makeResetAck = (\<lambda>n p. p\<lparr>dp_syn := False, dp_ack := True, dp_fin := False, dp_rst := True,
        dp_seq := 0, dp_ackno := n, dp_data := []\<rparr>),
     makeSyn = (\<lambda>m n p. p\<lparr>dp_syn := True, dp_ack := True, dp_fin := False, dp_rst := False,
        dp_seq := m, dp_ackno := n\<rparr>),
     makeNormal = (\<lambda>m n p. p\<lparr>dp_syn := False, dp_ack := True, dp_fin := False, dp_rst := False,
        dp_seq := m, dp_ackno := n\<rparr>),
     setFinFlag = (\<lambda>b p. p\<lparr>dp_fin := b\<rparr>),
     setWindowSize = (\<lambda>n p. p\<lparr>dp_win := n\<rparr>), \<dots> = x\<rparr>"

lemma demo_header_laws: "header_laws (demo_ops x)"
  by (simp add: header_laws_def demo_ops_def demo_segment_length_def)

definition demo_packet :: demo_packet where
  "demo_packet = \<lparr>dp_syn = False, dp_ack = False, dp_fin = False, dp_rst = False, dp_seq = 0,
     dp_ackno = 0, dp_win = 0, dp_src = (1, 1), dp_dst = (2, 2), dp_data = []\<rparr>"

lemma demo_ops_simps [simp]:
  "isSyn (demo_ops x) = dp_syn" "isAck (demo_ops x) = dp_ack" "isFin (demo_ops x) = dp_fin"
  "isReset (demo_ops x) = dp_rst" "getSequenceNumber (demo_ops x) = dp_seq"
  "getAcknowledgmentNumber (demo_ops x) = dp_ackno"
  "getSegmentLength (demo_ops x) = demo_segment_length"
  "getWindowSize (demo_ops x) = dp_win" "getWindowShift (demo_ops x) = (\<lambda>_. 0)"
  "getSource (demo_ops x) = dp_src" "getDestination (demo_ops x) = dp_dst"
  "payload (demo_ops x) = (\<lambda>p. take 65535 (dp_data p))" "payloadCapacity (demo_ops x) = (\<lambda>_. 65535)"
  by (simp_all add: demo_ops_def)

lemma demo_ops_makers [simp]:
  "swapEnds (demo_ops x) p = p\<lparr>dp_src := dp_dst p, dp_dst := dp_src p\<rparr>"
  "makeResetSeq (demo_ops x) n p = p\<lparr>dp_syn := False, dp_ack := False, dp_fin := False,
     dp_rst := True, dp_seq := n, dp_data := []\<rparr>"
  "makeResetAck (demo_ops x) n p = p\<lparr>dp_syn := False, dp_ack := True, dp_fin := False,
     dp_rst := True, dp_seq := 0, dp_ackno := n, dp_data := []\<rparr>"
  "makeSyn (demo_ops x) m n p = p\<lparr>dp_syn := True, dp_ack := True, dp_fin := False,
     dp_rst := False, dp_seq := m, dp_ackno := n\<rparr>"
  "makeNormal (demo_ops x) m n p = p\<lparr>dp_syn := False, dp_ack := True, dp_fin := False,
     dp_rst := False, dp_seq := m, dp_ackno := n\<rparr>"
  "setFinFlag (demo_ops x) b p = p\<lparr>dp_fin := b\<rparr>"
  "setWindowSize (demo_ops x) k p = p\<lparr>dp_win := k\<rparr>"
  by (simp_all add: demo_ops_def)

lemma demo_packet_simps [simp]:
  "dp_syn demo_packet = False" "dp_ack demo_packet = False" "dp_fin demo_packet = False"
  "dp_rst demo_packet = False" "dp_seq demo_packet = 0" "dp_ackno demo_packet = 0"
  "dp_win demo_packet = 0" "dp_src demo_packet = (1, 1)" "dp_dst demo_packet = (2, 2)"
  "dp_data demo_packet = []"
  by (simp_all add: demo_packet_def)

end
