(* ===== verification/SessionV1.thy ===== *)
theory SessionV1
  imports TcpPacket
begin

unbundle bit_operations_syntax

text \<open>
  The session of \<open>src/session/TCPSession.h\<close> and \<open>src/session/TCPSession.cpp\<close>: one TCP connection of a
  client behind the tunnel, relayed to an ordinary socket. The record has the fields of the
  class. Each member function is one definition that takes the session, the caller's
  packet object (which the code reuses for what it sends) and the world, and returns the
  three. Calls of the socket, the clock and \<open>rand\<close> are answered by the parameter \<open>net1\<close>.
\<close>

datatype states1 = CLOSED | SYN_SENT | SYN_RECEIVED | SYN_ACK_SENT | ESTABLISHED | TIME_WAIT

text \<open>The enumerators in the order C++ gives them.\<close>

primrec state_index1 :: "states1 \<Rightarrow> nat" where
  "state_index1 CLOSED = 0"
| "state_index1 SYN_SENT = 1"
| "state_index1 SYN_RECEIVED = 2"
| "state_index1 SYN_ACK_SENT = 3"
| "state_index1 ESTABLISHED = 4"
| "state_index1 TIME_WAIT = 5"

lemma state_index1_inj: "state_index1 a = state_index1 b \<Longrightarrow> a = b"
  by (cases a; cases b) simp_all

instantiation states1 :: linorder
begin

definition less_eq_states1 :: "states1 \<Rightarrow> states1 \<Rightarrow> bool" where
  "less_eq_states1 a b = (state_index1 a \<le> state_index1 b)"

definition less_states1 :: "states1 \<Rightarrow> states1 \<Rightarrow> bool" where
  "less_states1 a b = (state_index1 a < state_index1 b)"

instance
  by standard (auto simp: less_eq_states1_def less_states1_def intro: state_index1_inj)

end

section \<open>Interfaces outside the repository\<close>

record 'p packet_ops1 = "'p packet_ops" +
  isPush :: "'p \<Rightarrow> bool"
  getMSS :: "'p \<Rightarrow> u16"
  getDataLength :: "'p \<Rightarrow> u32"
  copyDataTo :: "u32 \<Rightarrow> 'p \<Rightarrow> byte list"
  isFrom :: "addr \<Rightarrow> 'p \<Rightarrow> bool"
  setEnds :: "addr \<Rightarrow> addr \<Rightarrow> 'p \<Rightarrow> 'p"
  clearData :: "'p \<Rightarrow> 'p"
  appendData :: "byte list \<Rightarrow> 'p \<Rightarrow> 'p"

text \<open>
  \<open>sock_connect\<close>: the descriptor of the new socket, the result of \<open>tryConnect\<close>, and whether the
  error it left says "in progress" or "already connected". \<open>shift_elements\<close> is \<open>shiftElements(buf + i, n, d)\<close>.
  \<open>fresh_mem\<close> is the contents of a new allocation.
\<close>

record 'p net1 =
  sock_connect :: "'p event list \<Rightarrow> addr \<Rightarrow> fd \<times> int \<times> bool \<times> bool"
  sock_send :: "'p event list \<Rightarrow> fd \<Rightarrow> byte list \<Rightarrow> int"
  sock_receive :: "'p event list \<Rightarrow> fd \<Rightarrow> nat \<Rightarrow> int \<times> byte list"
  would_block :: "'p event list \<Rightarrow> bool"
  clock_now :: "'p event list \<Rightarrow> int"
  c_rand :: "'p event list \<Rightarrow> int"
  fresh_mem :: "'p event list \<Rightarrow> mem"
  shift_elements :: "mem \<Rightarrow> nat \<Rightarrow> nat \<Rightarrow> int \<Rightarrow> mem"

section \<open>State\<close>

definition RECEIVE_BUFFER_SIZE :: u32 where "RECEIVE_BUFFER_SIZE = 16 * 1024"
definition SEND_WINDOW_SCALE :: u32 where "SEND_WINDOW_SCALE = 2"
definition ACKNOWLEDGE_DELAY :: int where "ACKNOWLEDGE_DELAY = 250"
definition SEND_MAX_RETRIES :: u32 where "SEND_MAX_RETRIES = 3"
definition MAX_RTT :: int where "MAX_RTT = 5000000000"

record session1 =
  state :: states1
  clientReadFinished :: bool
  serverReadFinished :: bool
  mSock :: fd
  source :: addr
  destination :: addr
  mss :: u16
  sendBuffer :: "mem option"
  sendLength :: u32
  sendWindow :: u32
  windowShift :: u8
  sendSequence :: u32
  sendUnacknowledged :: u32
  sendNext :: u32
  sendNewDataSequence :: u32
  retryCount :: u32
  rtt :: int
  lastSendTime :: int
  lastTimeAcknowledgmentAccepted :: int
  lastAcknowledgedSequence :: u32
  receiveBuffer :: mem
  receiveSequence :: u32
  receiveUser :: u32
  receiveNext :: u32
  receivePushSequence :: u32

definition new_session1 :: session1 where
  "new_session1 = \<lparr>state = CLOSED, clientReadFinished = False, serverReadFinished = False,
     mSock = - 1, source = (0, 0), destination = (0, 0), mss = 0, sendBuffer = None,
     sendLength = 0, sendWindow = 0, windowShift = 0, sendSequence = 0, sendUnacknowledged = 0,
     sendNext = 0, sendNewDataSequence = 0, retryCount = 0, rtt = 0, lastSendTime = 0,
     lastTimeAcknowledgmentAccepted = 0, lastAcknowledgedSequence = 0,
     receiveBuffer = (\<lambda>_. 0), receiveSequence = 0, receiveUser = 0, receiveNext = 0,
     receivePushSequence = 0\<rparr>"

type_synonym 'p conf1 = "session1 \<times> 'p \<times> 'p world"

section \<open>Accessors and buffers\<close>

definition getReceiveAvailable :: "session1 \<Rightarrow> u32" where
  "getReceiveAvailable s = RECEIVE_BUFFER_SIZE - receiveNext s + receiveSequence s"

definition getSendAvailable :: "session1 \<Rightarrow> u32" where
  "getSendAvailable s = sendLength s - sendNewDataSequence s + sendSequence s"

definition isUpStreamComplete :: "session1 \<Rightarrow> bool" where
  "isUpStreamComplete s = (clientReadFinished s \<and> receiveUser s \<ge> receiveNext s - 1)"

definition isDownStreamComplete :: "session1 \<Rightarrow> bool" where
  "isDownStreamComplete s = (serverReadFinished s \<and> sendUnacknowledged s = sendNewDataSequence s)"

definition canHandle1 :: "('p, 'x) packet_ops1_scheme \<Rightarrow> session1 \<Rightarrow> 'p \<Rightarrow> bool" where
  "canHandle1 P s p = isFrom P (source s) p"

definition closeSession1 :: "session1 \<Rightarrow> 'p world \<Rightarrow> session1 \<times> 'p world" where
  "closeSession1 s w =
    (let w1 = w\<lparr>receiveSet := receiveSet w - {mSock s}, sendSet := sendSet w - {mSock s},
                errorSet := errorSet w - {mSock s}\<rparr>
     in (s\<lparr>state := CLOSED\<rparr>, emit (EvClose (mSock s)) w1))"

definition trimReceiveBuffer_now :: "'p net1 \<Rightarrow> session1 \<Rightarrow> 'p world \<Rightarrow> session1 \<times> 'p world" where
  "trimReceiveBuffer_now N s w =
    (if receiveUser s = receiveSequence s then (s, w)
     else let amt = receiveUser s - receiveSequence s;
              len = receiveNext s - receiveUser s;
              w1 = check_bounds (unat amt + unat len \<le> unat RECEIVE_BUFFER_SIZE) w
          in (s\<lparr>receiveBuffer := shift_elements N (receiveBuffer s) (unat amt) (unat len) (- sint amt),
                receiveSequence := receiveNext s\<rparr>, w1))"

definition trimReceiveBuffer :: "'p net1 \<Rightarrow> session1 \<Rightarrow> 'p world \<Rightarrow> session1 \<times> 'p world" where
  "trimReceiveBuffer N s w =
    (if receiveUser s - receiveSequence s < ucast (mss s) then (s, w)
     else trimReceiveBuffer_now N s w)"

definition trimSendBuffer :: "'p net1 \<Rightarrow> session1 \<Rightarrow> 'p world \<Rightarrow> session1 \<times> 'p world" where
  "trimSendBuffer N s w =
    (let space = sendUnacknowledged s - sendSequence s in
     if space < ucast (mss s) \<or> getSendAvailable s > ucast (mss s) * 2 then (s, w)
     else let len = sendNewDataSequence s - sendUnacknowledged s;
              w1 = check_bounds (unat space + unat len \<le> unat (sendLength s)) w
          in (s\<lparr>sendBuffer := map_option
                   (\<lambda>m. shift_elements N m (unat space) (unat len) (- sint space)) (sendBuffer s),
                sendSequence := sendUnacknowledged s\<rparr>, w1))"

definition acknowledgeDelayed1 ::
  "('p, 'x) packet_ops1_scheme \<Rightarrow> 'p net1 \<Rightarrow> session1 \<Rightarrow> 'p \<Rightarrow> 'p world \<Rightarrow> 'p conf1" where
  "acknowledgeDelayed1 P N s p w =
    (if isUpStreamComplete s then (s, p, w)
     else let now = clock_now N (log w); w1 = emit EvNow w in
       if (now - lastAcknowledgmentSent w1) sdiv 1000000 > ACKNOWLEDGE_DELAY \<and>
            lastAcknowledgedSequence s \<noteq> receiveNext s \<or>
          receiveNext s - lastAcknowledgedSequence s > ucast (mss s) * 2
       then let p1 = setEnds P (destination s) (source s) p;
                p2 = clearData P p1;
                p3 = makeNormal P (sendNext s) (receiveNext s) p2;
                w2 = writePacket p3 w1
            in (s\<lparr>lastAcknowledgedSequence := receiveNext s\<rparr>, p3,
                w2\<lparr>lastAcknowledgmentSent := now\<rparr>)
       else (s, p, w1))"

section \<open>Client to server\<close>

text \<open>The two places of \<open>flushDataToServer\<close> that pass the client's FIN on.\<close>

definition finishUpStream :: "session1 \<Rightarrow> 'p world \<Rightarrow> session1 \<times> 'p world" where
  "finishUpStream s w =
    (let s1 = s\<lparr>receiveUser := receiveUser s + 1\<rparr> in
     if isDownStreamComplete s1 then closeSession1 s1 w
     else (s1, emit (EvShutdownWrite (mSock s1)) w))"

text \<open>The flush after the socket's \<open>send\<close> answered \<open>n\<close>.\<close>

definition afterSend1 ::
  "('p, 'x) packet_ops1_scheme \<Rightarrow> 'p net1 \<Rightarrow> session1 \<Rightarrow> 'p \<Rightarrow> int \<Rightarrow> 'p world \<Rightarrow> 'p conf1" where
  "afterSend1 P N s p n w =
    (if n \<noteq> - 1 then
       let s1 = s\<lparr>receiveUser := receiveUser s + word_of_int n\<rparr> in
       if clientReadFinished s1 \<and> receiveUser s1 = receiveNext s1 - 1
       then let (s2, w3) = finishUpStream s1 w in (s2, p, w3)
       else if \<not> clientReadFinished s1
       then let (s2, w3) = trimReceiveBuffer N s1 w in (s2, p, w3)
       else (s1, p, w)
     else if \<not> would_block N (log w) then
       let p1 = setEnds P (destination s) (source s) p;
           p2 = makeResetSeq P (sendNext s) p1;
           (s1, w3) = closeSession1 s (writePacket p2 w)
       in (s1, p2, w3)
     else (s, p, w))"

definition flushDataToServer1 ::
  "('p, 'x) packet_ops1_scheme \<Rightarrow> 'p net1 \<Rightarrow> session1 \<Rightarrow> 'p \<Rightarrow> 'p world \<Rightarrow> 'p conf1" where
  "flushDataToServer1 P N s p w =
    (if state s \<noteq> ESTABLISHED then (s, p, w)
     else if isUpStreamComplete s then (s, p, w)
     else if clientReadFinished s \<and> receiveUser s = receiveNext s - 1
     then let (s1, w1) = finishUpStream s w in (s1, p, w1)
     else
       let amt = receiveNext s - receiveUser s - (if clientReadFinished s then 1 else 0) in
       if amt > 0 then
         let off = ptr_off (receiveUser s) (receiveSequence s);
             w1 = check_bounds (0 \<le> off \<and> off + int (unat amt) \<le> int (unat RECEIVE_BUFFER_SIZE)) w;
             bs = mem_read (receiveBuffer s) (nat off) (unat amt);
             n = sock_send N (log w1) (mSock s) bs
         in afterSend1 P N s p n (emit (EvSend (mSock s) bs n) w1)
       else (s, p, w))"

definition generateSequenceNo1 :: "int \<Rightarrow> int" where
  "generateSequenceNo1 r = (r smod 2) XOR 31"

definition sendReset1 :: "('p, 'x) packet_ops_scheme \<Rightarrow> 'p \<Rightarrow> 'p world \<Rightarrow> 'p \<times> 'p world" where
  "sendReset1 P p w =
    (let p1 = swapEnds P p;
         p2 = (if isAck P p1 then makeResetSeq P (getAcknowledgmentNumber P p1) p1
               else makeResetAck P (getSequenceNumber P p1 + getSegmentLength P p1) p1)
     in (p2, writePacket p2 w))"

definition sendAck1 ::
  "('p, 'x) packet_ops1_scheme \<Rightarrow> session1 \<Rightarrow> 'p \<Rightarrow> 'p world \<Rightarrow> 'p \<times> 'p world" where
  "sendAck1 P s p w =
    (let p1 = swapEnds P p;
         p2 = makeNormal P (sendNext s) (receiveNext s) p1;
         p3 = setWindowSize P (ucast (getReceiveAvailable s)) p2;
         p4 = clearData P p3
     in (p4, writePacket p4 w))"

definition sendSynAck1 ::
  "('p, 'x) packet_ops1_scheme \<Rightarrow> session1 \<Rightarrow> 'p \<Rightarrow> 'p world \<Rightarrow> 'p conf1" where
  "sendSynAck1 P s p w =
    (let p1 = swapEnds P p;
         p2 = clearData P p1;
         p3 = makeSyn P (sendNext s) (receiveNext s) p2
     in (s\<lparr>state := SYN_ACK_SENT\<rparr>, p3, writePacket p3 w))"

text \<open>A SYN for a closed session: the fields of a new connection.\<close>

definition establish1 ::
  "('p, 'x) packet_ops1_scheme \<Rightarrow> 'p net1 \<Rightarrow> session1 \<Rightarrow> fd \<Rightarrow> 'p \<Rightarrow> 'p world \<Rightarrow> session1 \<times> 'p world" where
  "establish1 P N s sock p w =
    (let isn = word_of_int (generateSequenceNo1 (c_rand N (log w)));
         w1 = emit EvRand w;
         irs = getSequenceNumber P p + 1;
         s1 = s\<lparr>mSock := sock,
                sendNewDataSequence := isn, sendSequence := isn, sendUnacknowledged := isn,
                sendNext := isn,
                receiveSequence := irs, receiveUser := irs, receiveNext := irs,
                receivePushSequence := irs,
                sendWindow := ucast (getWindowSize P p), windowShift := getWindowShift P p,
                mss := getMSS P p, clientReadFinished := False, serverReadFinished := False,
                lastAcknowledgedSequence := 0, retryCount := 0\<rparr>;
         now = clock_now N (log w1);
         w2 = emit EvNow w1;
         s2 = s1\<lparr>lastSendTime := now, lastTimeAcknowledgmentAccepted := now\<rparr>;
         newLen = push_bit (unat (windowShift s2)) 65535 * SEND_WINDOW_SCALE;
         s3 = (if sendBuffer s2 = None \<or> sendLength s2 < newLen
               then s2\<lparr>sendBuffer := Some (fresh_mem N (log w2)), sendLength := newLen\<rparr> else s2)
     in (s3\<lparr>source := getSource P p, destination := getDestination P p\<rparr>, w2))"

definition receiveSyn1 ::
  "('p, 'x) packet_ops1_scheme \<Rightarrow> 'p net1 \<Rightarrow> session1 \<Rightarrow> 'p \<Rightarrow> 'p world \<Rightarrow> 'p conf1" where
  "receiveSyn1 P N s p w =
    (case state s of
       CLOSED \<Rightarrow>
         let (sock, res, inProgress, isConn) = sock_connect N (log w) (getDestination P p);
             w1 = emit (EvConnect sock (getDestination P p)) w
         in if res \<noteq> 0 \<and> \<not> inProgress
            then let (p1, w2) = sendReset1 P p w1 in (s, p1, w2)
            else let (s1, w2) = establish1 P N s sock p w1 in
                 if res = 0 \<or> isConn then sendSynAck1 P s1 p w2
                 else (s1\<lparr>state := SYN_RECEIVED\<rparr>, p, w2)
     | SYN_RECEIVED \<Rightarrow>
         if getSequenceNumber P p = receiveNext s - 1 then sendSynAck1 P s p w
         else let (p1, w1) = sendReset1 P p w in (s, p1, w1)
     | SYN_ACK_SENT \<Rightarrow>
         if getSequenceNumber P p = receiveNext s - 1 then sendSynAck1 P s p w
         else let (p1, w1) = sendReset1 P p w in (s, p1, w1)
     | _ \<Rightarrow> let (p1, w1) = sendAck1 P s p w in (s, p1, w1))"

definition receiveReset1 ::
  "('p, 'x) packet_ops1_scheme \<Rightarrow> session1 \<Rightarrow> 'p \<Rightarrow> 'p world \<Rightarrow> 'p conf1" where
  "receiveReset1 P s p w =
    (if state s = CLOSED then (s, p, w)
     else let seq = getSequenceNumber P p in
          if seq \<ge> receiveNext s \<and> seq < receiveNext s + getReceiveAvailable s
          then let (s1, w1) = closeSession1 s w in (s1, p, w1)
          else (s, p, w))"

text \<open>The first acknowledgment, which completes the handshake with the client.\<close>

definition receiveHandshakeAck1 ::
  "('p, 'x) packet_ops1_scheme \<Rightarrow> 'p net1 \<Rightarrow> session1 \<Rightarrow> 'p \<Rightarrow> 'p world \<Rightarrow> 'p conf1" where
  "receiveHandshakeAck1 P N s p w =
    (let seq = getSequenceNumber P p; ack = getAcknowledgmentNumber P p in
     if seq = receiveNext s then
       if ack \<noteq> sendUnacknowledged s + 1
       then let (p1, w1) = sendReset1 P p w in (s, p1, w1)
       else let s1 = s\<lparr>sendNext := ack, sendNewDataSequence := ack, sendUnacknowledged := ack,
                       sendSequence := ack\<rparr>;
                now = clock_now N (log w);
                w1 = emit EvNow w;
                s2 = s1\<lparr>rtt := max (min (now - lastSendTime s1) MAX_RTT) 0,
                        lastTimeAcknowledgmentAccepted := now\<rparr>;
                w2 = w1\<lparr>receiveSet := insert (mSock s2) (receiveSet w1),
                        maxFd := max (maxFd w1) (mSock s2 + 1)\<rparr>
            in (s2\<lparr>state := ESTABLISHED\<rparr>, p, w2)
     else let (p1, w1) = sendReset1 P p w in (s, p1, w1))"

text \<open>The room made when the segment is longer than the window: the flush and the trim of line 188.\<close>

definition makeRoom1 ::
  "('p, 'x) packet_ops1_scheme \<Rightarrow> 'p net1 \<Rightarrow> u32 \<Rightarrow> session1 \<Rightarrow> 'p \<Rightarrow> 'p world \<Rightarrow> 'p conf1" where
  "makeRoom1 P N len s p w =
    (if len > getReceiveAvailable s
     then let (a, q, v) = flushDataToServer1 P N s p w; (b, v') = trimReceiveBuffer_now N a v
          in (b, q, v')
     else (s, p, w))"

text \<open>Storing a segment of the client: lines 183 to 226.\<close>

definition storeSegment1 ::
  "('p, 'x) packet_ops1_scheme \<Rightarrow> u32 \<Rightarrow> session1 \<Rightarrow> 'p \<Rightarrow> 'p world \<Rightarrow> session1 \<times> 'p world" where
  "storeSegment1 P len s p w =
    (let available = getReceiveAvailable s;
         bs = copyDataTo P available p;
         total = word_of_nat (length bs);
         off = ptr_off (receiveNext s) (receiveSequence s);
         w1 = check_bounds (0 \<le> off \<and> off + int (length bs) \<le> int (unat RECEIVE_BUFFER_SIZE)) w;
         s1 = s\<lparr>receiveBuffer := mem_write (receiveBuffer s) (nat off) bs,
                receiveNext := receiveNext s + total\<rparr>;
         s2 = (if isPush P p then s1\<lparr>receivePushSequence := receiveNext s1\<rparr> else s1);
         s3 = (if isFin P p \<and> total = len
               then s2\<lparr>receiveNext := receiveNext s2 + 1, clientReadFinished := True\<rparr> else s2)
     in (s3, w1))"

definition completeOrAcknowledge1 ::
  "('p, 'x) packet_ops1_scheme \<Rightarrow> 'p net1 \<Rightarrow> session1 \<Rightarrow> 'p \<Rightarrow> 'p world \<Rightarrow> 'p conf1" where
  "completeOrAcknowledge1 P N s p w =
    (if isUpStreamComplete s \<and> isDownStreamComplete s
     then let (s1, w1) = closeSession1 s w in (s1, p, w1)
     else acknowledgeDelayed1 P N s p w)"

definition receiveEstablished1 ::
  "('p, 'x) packet_ops1_scheme \<Rightarrow> 'p net1 \<Rightarrow> session1 \<Rightarrow> 'p \<Rightarrow> 'p world \<Rightarrow> 'p conf1" where
  "receiveEstablished1 P N s p w =
    (let seq = getSequenceNumber P p; ack = getAcknowledgmentNumber P p in
     if seq = receiveNext s then
       let s1 = (if seq \<ge> receiveNext s
                 then s\<lparr>sendUnacknowledged := max (sendUnacknowledged s) ack, retryCount := 0\<rparr>
                 else s)
       in if \<not> clientReadFinished s1 then
            let len = getDataLength P p;
                (s2, p2, w2) = makeRoom1 P N len s1 p w;
                (s3, w3) = storeSegment1 P len s2 p2 w2;
                (s4, p4, w4) = flushDataToServer1 P N s3 p2 w3
            in if state s4 = CLOSED then (s4, p4, w4)
               else completeOrAcknowledge1 P N s4 p4 w4
          else completeOrAcknowledge1 P N s1 p w
     else let (p1, w1) = sendAck1 P s p w in (s, p1, w1))"

definition receiveFromClient1 ::
  "('p, 'x) packet_ops1_scheme \<Rightarrow> 'p net1 \<Rightarrow> session1 \<Rightarrow> 'p \<Rightarrow> 'p world \<Rightarrow> 'p conf1" where
  "receiveFromClient1 P N s p w =
    (if isSyn P p \<and> \<not> isAck P p then receiveSyn1 P N s p w
     else if isSyn P p \<and> isAck P p then let (p1, w1) = sendReset1 P p w in (s, p1, w1)
     else if isReset P p then receiveReset1 P s p w
     else if \<not> isAck P p then let (p1, w1) = sendReset1 P p w in (s, p1, w1)
     else case state s of
            SYN_ACK_SENT \<Rightarrow> receiveHandshakeAck1 P N s p w
          | ESTABLISHED \<Rightarrow> receiveEstablished1 P N s p w
          | _ \<Rightarrow> let (p1, w1) = sendReset1 P p w in (s, p1, w1))"

section \<open>Server to client\<close>

text \<open>
  The lambda \<open>sendDataStartingFrom\<close>. Its loop does not end when the client announced a
  segment size of 0, so it is partial; \<open>None\<close> is "does not return".
\<close>

definition nextSegment1 ::
  "('p, 'x) packet_ops1_scheme \<Rightarrow> session1 \<Rightarrow> u32 \<Rightarrow> 'p \<Rightarrow> 'p world \<Rightarrow> u32 \<times> 'p \<times> 'p world" where
  "nextSegment1 P s seq p w =
    (let fin = (if serverReadFinished s then 1 else 0);
         p1 = makeNormal P seq (receiveNext s) p;
         p2 = setWindowSize P (ucast (getReceiveAvailable s)) p1;
         len = min (sendNewDataSequence s - seq - fin) (ucast (mss s));
         p3 = clearData P p2;
         off = ptr_off seq (sendSequence s);
         w1 = check_bounds (0 \<le> off \<and> off + int (unat len) \<le> int (unat (sendLength s)) \<and>
                            sendBuffer s \<noteq> None) w;
         m = (case sendBuffer s of None \<Rightarrow> (\<lambda>_. 0) | Some m \<Rightarrow> m);
         p4 = appendData P (mem_read m (nat off) (unat len)) p3;
         seq1 = seq + len;
         lastSeg = (serverReadFinished s \<and> seq1 = sendNewDataSequence s - 1);
         p5 = (if lastSeg then setFinFlag P True p4 else p4);
         seq2 = (if lastSeg then seq1 + 1 else seq1)
     in (seq2, p5, writePacket p5 w1))"

partial_function (option) sendDataStartingFrom1 ::
  "('p, 'x) packet_ops1_scheme \<Rightarrow> session1 \<Rightarrow> u32 \<Rightarrow> 'p \<Rightarrow> 'p world \<Rightarrow> ('p \<times> 'p world) option" where
  "sendDataStartingFrom1 P s seq p w =
    (if seq < sendNewDataSequence s
     then let (seq', p', w') = nextSegment1 P s seq p w in sendDataStartingFrom1 P s seq' p' w'
     else Some (p, w))"

definition closeIfUpStreamComplete1 :: "session1 \<Rightarrow> 'p \<Rightarrow> 'p world \<Rightarrow> 'p conf1" where
  "closeIfUpStreamComplete1 s p w =
    (if isUpStreamComplete s then let (s1, w1) = closeSession1 s w in (s1, p, w1) else (s, p, w))"

definition sendFrom1 ::
  "('p, 'x) packet_ops1_scheme \<Rightarrow> session1 \<Rightarrow> u32 \<Rightarrow> int \<Rightarrow> 'p \<Rightarrow> 'p world \<Rightarrow> 'p conf1 option" where
  "sendFrom1 P s seq now p w =
    (case sendDataStartingFrom1 P s seq (setEnds P (destination s) (source s) p) w of
       None \<Rightarrow> None
     | Some (p1, w1) \<Rightarrow>
         Some (closeIfUpStreamComplete1
                 (s\<lparr>sendNext := sendNewDataSequence s, lastTimeAcknowledgmentAccepted := now,
                    lastSendTime := now\<rparr>) p1 w1))"

definition flushDataToClient1 ::
  "('p, 'x) packet_ops1_scheme \<Rightarrow> 'p net1 \<Rightarrow> session1 \<Rightarrow> 'p \<Rightarrow> 'p world \<Rightarrow> 'p conf1 option" where
  "flushDataToClient1 P N s p w =
    (if state s \<noteq> ESTABLISHED then Some (s, p, w)
     else let now = clock_now N (log w);
              w1 = emit EvNow w;
              diff = now - lastSendTime s
     in if isDownStreamComplete s then Some (s, p, w1)
        else if sendUnacknowledged s < sendNewDataSequence s \<and> diff sdiv 4 > rtt s then
          if retryCount s = SEND_MAX_RETRIES
          then let (s1, w2) = closeSession1 s w1 in Some (s1, p, w2)
          else let s1 = (if sendUnacknowledged s < sendNext s
                         then s\<lparr>retryCount := retryCount s + 1\<rparr> else s)
               in sendFrom1 P s1 (sendUnacknowledged s1) now p w1
        else if serverReadFinished s \<and> sendNext s < sendNewDataSequence s \<or>
                sendNewDataSequence s - sendNext s > ucast (mss s)
        then sendFrom1 P s (sendNext s) now p w1
        else Some (closeIfUpStreamComplete1 s p w1))"

text \<open>
  \<open>receiveFromServer\<close> also returns whether the send buffer still has room.
\<close>

definition receiveFromServer1 ::
  "('p, 'x) packet_ops1_scheme \<Rightarrow> 'p net1 \<Rightarrow> session1 \<Rightarrow> 'p \<Rightarrow> 'p world \<Rightarrow> (bool \<times> 'p conf1) option" where
  "receiveFromServer1 P N s p w =
    (if state s \<noteq> ESTABLISHED then Some (False, s, p, w)
     else let (s1, w1) = trimSendBuffer N s w; amt = getSendAvailable s1 in
       if amt = 0 then Some (False, s1, p, w1)
       else
         let off = ptr_off (sendNewDataSequence s1) (sendSequence s1);
             (total, bs) = sock_receive N (log w1) (mSock s1) (unat amt);
             w2 = check_bounds (0 \<le> off \<and> off + int (length bs) \<le> int (unat (sendLength s1)) \<and>
                                sendBuffer s1 \<noteq> None)
                    (emit (EvReceive (mSock s1) (unat amt)) w1);
             (s2, w3) =
               (if total \<noteq> - 1 \<and> total \<noteq> 0
                then (s1\<lparr>sendBuffer := map_option (\<lambda>m. mem_write m (nat off) bs) (sendBuffer s1),
                         sendNewDataSequence := sendNewDataSequence s1 + word_of_int total\<rparr>, w2)
                else if \<not> would_block N (log w2) \<and> \<not> serverReadFinished s1
                then (s1\<lparr>sendNewDataSequence := sendNewDataSequence s1 + 1,
                         serverReadFinished := True\<rparr>,
                      w2\<lparr>receiveSet := receiveSet w2 - {mSock s1}\<rparr>)
                else (s1, w2))
         in case flushDataToClient1 P N s2 p w3 of
              None \<Rightarrow> None
            | Some (s3, p3, w4) \<Rightarrow> Some (getSendAvailable s3 > 0, s3, p3, w4))"

end
