(* ===== verification/SessionV1_Up.thy ===== *)
theory SessionV1_Up
  imports SessionV1
begin

text \<open>
  The client-to-server half of the session: the receive buffer, its trimming and the flush
  to the server. The abstract view of the buffer is \<open>pendingUp\<close>, the bytes accepted from the
  client and not yet taken by the socket; the byte stream the server sees is \<open>accepted\<close> of
  the world's log.
\<close>

section \<open>What is assumed of the outside\<close>

definition payload_laws1 :: "('p, 'x) packet_ops1_scheme \<Rightarrow> bool" where
  "payload_laws1 P \<longleftrightarrow>
    (\<forall>p. length (payload P p) < 2 ^ 16) \<and>
    (\<forall>p. getDataLength P p = word_of_nat (length (payload P p))) \<and>
    (\<forall>n p. copyDataTo P n p = take (unat n) (payload P p))"

lemma payload_laws1D [ext_laws]:
  "payload_laws1 P \<Longrightarrow> getDataLength P p = word_of_nat (length (payload P p))"
  "payload_laws1 P \<Longrightarrow> copyDataTo P n p = take (unat n) (payload P p)"
  by (simp_all add: payload_laws1_def)

lemma payload_length: "payload_laws1 P \<Longrightarrow> length (payload P p) < 2 ^ 16"
  by (simp add: payload_laws1_def)

lemma unat_getDataLength: "payload_laws1 P \<Longrightarrow> unat (getDataLength P p) = length (payload P p)"
  using payload_length [of P p] by (simp add: ext_laws unat_of_nat)

text \<open>A send takes all of the bytes or none of them; a blocking socket fails only for good.\<close>

definition whole_sends :: "'p net1 \<Rightarrow> bool" where
  "whole_sends N \<longleftrightarrow> (\<forall>h f bs. sock_send N h f bs = - 1 \<or> sock_send N h f bs = int (length bs))"

definition blocking_sends :: "'p net1 \<Rightarrow> bool" where
  "blocking_sends N \<longleftrightarrow> (\<forall>h f bs. sock_send N h f bs = int (length bs) \<or>
     sock_send N h f bs = - 1 \<and> \<not> would_block N (h @ [EvSend f bs (- 1)]))"

lemma blocking_whole: "blocking_sends N \<Longrightarrow> whole_sends N"
  by (auto simp: blocking_sends_def whole_sends_def)

section \<open>The invariant of the receive side\<close>

definition finUp :: "session1 \<Rightarrow> nat" where
  "finUp s = (if clientReadFinished s then 1 else 0)"

definition up_inv :: "session1 \<Rightarrow> bool" where
  "up_inv s \<longleftrightarrow> receiveSequence s \<le> receiveUser s \<and> receiveUser s \<le> receiveNext s \<and>
     unat (receiveSequence s) + finUp s \<le> unat (receiveNext s) \<and>
     unat (receiveNext s) \<le> unat (receiveSequence s) + 16384 + finUp s"

definition pendingUp :: "session1 \<Rightarrow> byte list" where
  "pendingUp s = mem_read (receiveBuffer s) (unat (receiveUser s) - unat (receiveSequence s))
                   (unat (receiveNext s) - unat (receiveUser s) - finUp s)"

lemma up_invD:
  assumes "up_inv s"
  shows "unat (receiveSequence s) \<le> unat (receiveUser s)"
    and "unat (receiveUser s) \<le> unat (receiveNext s)"
    and "unat (receiveSequence s) + finUp s \<le> unat (receiveNext s)"
    and "unat (receiveNext s) \<le> unat (receiveSequence s) + 16384 + finUp s"
  using assms by (auto simp: up_inv_def word_le_nat_alt)

lemma up_invI:
  assumes "unat (receiveSequence s) \<le> unat (receiveUser s)"
    and "unat (receiveUser s) \<le> unat (receiveNext s)"
    and "unat (receiveSequence s) + finUp s \<le> unat (receiveNext s)"
    and "unat (receiveNext s) \<le> unat (receiveSequence s) + 16384 + finUp s"
  shows "up_inv s"
  using assms by (auto simp: up_inv_def word_le_nat_alt)

lemma unat_RECEIVE_BUFFER_SIZE [simp]: "unat RECEIVE_BUFFER_SIZE = 16384"
  by (simp add: RECEIVE_BUFFER_SIZE_def)

text \<open>Before the FIN the advertised room is exactly the free part of the buffer.\<close>

lemma getReceiveAvailable_diff:
  assumes "receiveSequence s \<le> receiveNext s"
    and "unat (receiveNext s) - unat (receiveSequence s) \<le> 16384"
  shows "unat (getReceiveAvailable s) = 16384 - (unat (receiveNext s) - unat (receiveSequence s))"
proof -
  let ?d = "receiveNext s - receiveSequence s"
  have d: "unat ?d = unat (receiveNext s) - unat (receiveSequence s)"
    by (rule unat_diff_le [OF assms(1)])
  have "getReceiveAvailable s = RECEIVE_BUFFER_SIZE - ?d"
    by (simp add: getReceiveAvailable_def)
  moreover have "?d \<le> RECEIVE_BUFFER_SIZE"
    using assms(2) d by (simp add: word_le_nat_alt)
  ultimately show ?thesis by (simp add: unat_sub d)
qed

lemma getReceiveAvailable_exact:
  assumes "up_inv s" and "\<not> clientReadFinished s"
  shows "unat (getReceiveAvailable s) = 16384 - (unat (receiveNext s) - unat (receiveSequence s))"
  using up_invD [OF assms(1)] assms
  by (intro getReceiveAvailable_diff) (auto simp: finUp_def up_inv_def)

lemma unat_minus_1: "0 < unat (x::u32) \<Longrightarrow> unat (x - 1) = unat x - 1"
  by (simp add: unat_minus_one unat_eq_zero [symmetric] del: unat_eq_zero)

lemma isUpStreamComplete_iff:
  assumes "up_inv s"
  shows "isUpStreamComplete s \<longleftrightarrow>
    clientReadFinished s \<and> unat (receiveNext s) \<le> unat (receiveUser s) + 1"
proof (cases "clientReadFinished s")
  case True
  then have "0 < unat (receiveNext s)" using up_invD(3) [OF assms] by (simp add: finUp_def)
  with True show ?thesis
    by (auto simp: isUpStreamComplete_def word_le_nat_alt unat_minus_1)
qed (simp add: isUpStreamComplete_def)

lemma pendingUp_complete: "up_inv s \<Longrightarrow> isUpStreamComplete s \<Longrightarrow> pendingUp s = []"
  by (simp add: isUpStreamComplete_iff pendingUp_def finUp_def)

lemma up_inv_cong:
  "receiveSequence s = receiveSequence t \<Longrightarrow> receiveUser s = receiveUser t \<Longrightarrow>
   receiveNext s = receiveNext t \<Longrightarrow> clientReadFinished s = clientReadFinished t \<Longrightarrow>
   up_inv s = up_inv t"
  by (simp add: up_inv_def finUp_def)

lemma pendingUp_cong:
  "receiveSequence s = receiveSequence t \<Longrightarrow> receiveUser s = receiveUser t \<Longrightarrow>
   receiveNext s = receiveNext t \<Longrightarrow> clientReadFinished s = clientReadFinished t \<Longrightarrow>
   receiveBuffer s = receiveBuffer t \<Longrightarrow> pendingUp s = pendingUp t"
  by (simp add: pendingUp_def finUp_def)

section \<open>Trimming\<close>

text \<open>With nothing pending a trim empties the buffer, whatever the shift does.\<close>

lemma trim_now_empty:
  assumes "up_inv s" and "\<not> clientReadFinished s" and "receiveUser s = receiveNext s"
  shows "\<exists>rb. trimReceiveBuffer_now N s w =
    (s\<lparr>receiveBuffer := rb, receiveSequence := receiveNext s\<rparr>, w)"
proof (cases "receiveUser s = receiveSequence s")
  case True
  then have "receiveNext s = receiveSequence s" using assms(3) by simp
  then have "s\<lparr>receiveBuffer := receiveBuffer s, receiveSequence := receiveNext s\<rparr> = s" by simp
  with True show ?thesis
    by (intro exI [of _ "receiveBuffer s"]) (simp add: trimReceiveBuffer_now_def)
next
  case False
  let ?a = "unat (receiveUser s - receiveSequence s)"
  have "?a \<le> 16384"
    using up_invD [OF assms(1)] assms(2,3) by (simp add: unat_diff_le word_le_nat_alt finUp_def)
  moreover have "unat (receiveNext s - receiveUser s) = 0" using assms(3) by simp
  ultimately have "?a + unat (receiveNext s - receiveUser s) \<le> 16384" by simp
  with False show ?thesis
    by (intro exI [of _ "shift_elements N (receiveBuffer s) ?a
          (unat (receiveNext s - receiveUser s)) (- sint (receiveUser s - receiveSequence s))"])
      (simp add: trimReceiveBuffer_now_def Let_def)
qed

lemma trim_empty:
  assumes "up_inv s" and "\<not> clientReadFinished s" and "receiveUser s = receiveNext s"
  shows "\<exists>rb rs. trimReceiveBuffer N s w = (s\<lparr>receiveBuffer := rb, receiveSequence := rs\<rparr>, w) \<and>
    rs \<le> receiveNext s \<and> unat (receiveNext s) \<le> unat rs + 16384"
proof (cases "receiveUser s - receiveSequence s < ucast (mss s)")
  case True
  then have "trimReceiveBuffer N s w =
      (s\<lparr>receiveBuffer := receiveBuffer s, receiveSequence := receiveSequence s\<rparr>, w)"
    by (simp add: trimReceiveBuffer_def)
  then show ?thesis using up_invD [OF assms(1)] assms(2)
    by (intro exI [of _ "receiveBuffer s"] exI [of _ "receiveSequence s"])
      (simp add: word_le_nat_alt finUp_def)
next
  case False
  obtain rb where "trimReceiveBuffer_now N s w =
      (s\<lparr>receiveBuffer := rb, receiveSequence := receiveNext s\<rparr>, w)"
    using trim_now_empty [OF assms] by blast
  with False show ?thesis
    by (intro exI [of _ rb] exI [of _ "receiveNext s"]) (simp add: trimReceiveBuffer_def)
qed

section \<open>The flush to the server\<close>

definition amtUp :: "session1 \<Rightarrow> u32" where
  "amtUp s = receiveNext s - receiveUser s - (if clientReadFinished s then 1 else 0)"

lemma unat_amtUp:
  assumes "up_inv s" and "\<not> isUpStreamComplete s"
  shows "unat (amtUp s) = unat (receiveNext s) - unat (receiveUser s) - finUp s"
proof -
  have le: "receiveUser s \<le> receiveNext s" using assms(1) by (simp add: up_inv_def)
  show ?thesis
  proof (cases "clientReadFinished s")
    case True
    with assms have "unat (receiveUser s) + 1 < unat (receiveNext s)"
      by (simp add: isUpStreamComplete_iff)
    with True le show ?thesis
      by (simp add: amtUp_def finUp_def unat_minus_1 unat_diff_le)
  next
    case False
    with le show ?thesis by (simp add: amtUp_def finUp_def unat_diff_le)
  qed
qed

lemma length_pendingUp:
  "up_inv s \<Longrightarrow> \<not> isUpStreamComplete s \<Longrightarrow> length (pendingUp s) = unat (amtUp s)"
  by (simp add: pendingUp_def unat_amtUp)

lemma receiveUser_amtUp:
  "receiveUser s + amtUp s = receiveNext s - (if clientReadFinished s then 1 else 0)"
  by (simp add: amtUp_def)

text \<open>
  What the flush does on an open upstream: the pointer arithmetic is in bounds and
  the bytes handed to the socket are exactly the pending ones.
\<close>

lemma flush_unfold:
  assumes inv: "up_inv s" and est: "state s = ESTABLISHED" and open_up: "\<not> isUpStreamComplete s"
  shows "flushDataToServer1 P N s p w =
    (if pendingUp s = [] then (s, p, w)
     else let total = sock_send N (log w) (mSock s) (pendingUp s)
          in afterSend1 P N s p total (emit (EvSend (mSock s) (pendingUp s) total) w))"
proof -
  have notfin: "\<not> (clientReadFinished s \<and> receiveUser s = receiveNext s - 1)"
    using open_up by (auto simp: isUpStreamComplete_def)
  have le: "receiveSequence s \<le> receiveUser s" using inv by (simp add: up_inv_def)
  have n: "unat (amtUp s) = unat (receiveNext s) - unat (receiveUser s) - finUp s"
    by (rule unat_amtUp [OF inv open_up])
  have nil: "pendingUp s = [] \<longleftrightarrow> \<not> amtUp s > 0"
    using length_pendingUp [OF inv open_up] by (metis length_0_conv unat_eq_zero word_gt_0)
  have bytes: "mem_read (receiveBuffer s) (nat (ptr_off (receiveUser s) (receiveSequence s)))
      (unat (amtUp s)) = pendingUp s"
    by (simp add: pendingUp_def n ptr_off_nat [OF le])
  have bound: "0 \<le> ptr_off (receiveUser s) (receiveSequence s) \<and>
      ptr_off (receiveUser s) (receiveSequence s) + int (unat (amtUp s)) \<le> int 16384"
    by (rule ptr_off_bound [OF le])
      (use up_invD [OF inv] n open_up in
        \<open>auto simp: isUpStreamComplete_iff [OF inv] finUp_def split: if_splits\<close>)
  have chk: "check_bounds (0 \<le> ptr_off (receiveUser s) (receiveSequence s) \<and>
      ptr_off (receiveUser s) (receiveSequence s) + int (unat (amtUp s))
        \<le> int (unat RECEIVE_BUFFER_SIZE)) w = w"
    using bound by (simp only: unat_RECEIVE_BUFFER_SIZE check_bounds_True simp_thms)
  show ?thesis
    unfolding flushDataToServer1_def amtUp_def [symmetric] Let_def chk bytes
    by (simp add: est open_up notfin nil)
qed

text \<open>The half of the session that a flush to the server never touches.\<close>

definition down_view where
  "down_view s = (serverReadFinished s, sendBuffer s, sendLength s, sendWindow s, windowShift s,
     sendSequence s, sendUnacknowledged s, sendNext s, sendNewDataSequence s, retryCount s, rtt s,
     lastSendTime s, lastTimeAcknowledgmentAccepted s, lastAcknowledgedSequence s)"

definition flush_frame :: "session1 \<Rightarrow> session1 \<Rightarrow> bool" where
  "flush_frame s s' \<longleftrightarrow> receiveNext s' = receiveNext s \<and> mSock s' = mSock s \<and>
     clientReadFinished s' = clientReadFinished s \<and> mss s' = mss s \<and>
     source s' = source s \<and> destination s' = destination s \<and>
     receivePushSequence s' = receivePushSequence s \<and> down_view s' = down_view s \<and>
     (state s' = state s \<or> state s' = CLOSED)"

lemma flush_frame_refl [simp]: "flush_frame s s"
  by (simp add: flush_frame_def)

lemma closeSession1_simps [simp]:
  "fst (closeSession1 s w) = s\<lparr>state := CLOSED\<rparr>"
  "log (snd (closeSession1 s w)) = log w @ [EvClose (mSock s)]"
  "fault_free (snd (closeSession1 s w)) = fault_free w"
  "receiveSet (snd (closeSession1 s w)) = receiveSet w - {mSock s}"
  by (simp_all add: closeSession1_def Let_def fault_free_def)

lemma trim_frame: "flush_frame s (fst (trimReceiveBuffer N s w))"
  by (simp add: trimReceiveBuffer_def trimReceiveBuffer_now_def flush_frame_def down_view_def Let_def)

lemma trim_now_frame: "flush_frame s (fst (trimReceiveBuffer_now N s w))"
  by (simp add: trimReceiveBuffer_now_def flush_frame_def down_view_def Let_def)

lemma finish_frame: "flush_frame s (fst (finishUpStream s w))"
  by (simp add: finishUpStream_def closeSession1_def flush_frame_def down_view_def Let_def)

lemma flush_frame_user:
  "flush_frame (s\<lparr>receiveUser := u\<rparr>) t \<Longrightarrow> flush_frame s t"
  by (simp add: flush_frame_def down_view_def)

lemma flush_frame_afterSend: "flush_frame s (fst (afterSend1 P N s p n w))"
proof -
  have 1: "flush_frame s (fst (trimReceiveBuffer N (s\<lparr>receiveUser := u\<rparr>) v))" for u v
    by (rule flush_frame_user, rule trim_frame)
  have 2: "flush_frame s (fst (finishUpStream (s\<lparr>receiveUser := u\<rparr>) v))" for u v
    by (rule flush_frame_user, rule finish_frame)
  have 3: "flush_frame s (s\<lparr>receiveUser := u\<rparr>)" "flush_frame s (s\<lparr>state := CLOSED\<rparr>)" for u
    by (simp_all add: flush_frame_def down_view_def)
  show ?thesis
    by (simp add: afterSend1_def Let_def case_prod_unfold 1 2 3)
qed

lemma flush_frame_flush: "flush_frame s (fst (flushDataToServer1 P N s p w))"
proof -
  have 1: "flush_frame s (fst (finishUpStream s v))" for v
    by (rule finish_frame)
  show ?thesis
    by (simp add: flushDataToServer1_def Let_def case_prod_unfold 1 flush_frame_afterSend)
qed

text \<open>
  The refinement of the receive buffer by the byte stream: whatever the socket answers, as
  long as it takes everything or nothing, what was accepted followed by what is pending
  is unchanged by a flush.
\<close>

lemma finishUpStream_up:
  assumes "up_inv s" and "clientReadFinished s" and "receiveUser s = receiveNext s - 1"
    and "finishUpStream s w = (s', w')"
  shows "up_inv s' \<and> fault_free w' = fault_free w \<and> pendingUp s = [] \<and>
    pendingUp s' = [] \<and> accepted f (log w') = accepted f (log w)"
proof -
  have pos: "0 < unat (receiveNext s)" using up_invD(3) [OF assms(1)] assms(2) by (simp add: finUp_def)
  have u: "receiveUser s' = receiveNext s" and o: "receiveNext s' = receiveNext s"
    "receiveSequence s' = receiveSequence s" "clientReadFinished s'"
    using assms(2,3,4) by (auto simp: finishUpStream_def closeSession1_def Let_def split: if_splits)
  have w: "fault_free w' = fault_free w \<and> accepted f (log w') = accepted f (log w)"
    using assms(4)
    by (auto simp: finishUpStream_def closeSession1_def Let_def fault_free_def split: if_splits)
  have "up_inv s'"
    using up_invD [OF assms(1)] assms(2) u o by (intro up_invI) (auto simp: finUp_def)
  moreover have "pendingUp s' = []" using u o by (simp add: pendingUp_def)
  moreover have "pendingUp s = []"
    using assms(2,3) pos by (simp add: pendingUp_def finUp_def unat_minus_1)
  ultimately show ?thesis using w by simp
qed

lemma afterSend_error:
  assumes "up_inv s" and "afterSend1 P N s p (- 1) w = (s', p', w')"
  shows "up_inv s' \<and> fault_free w' = fault_free w \<and> pendingUp s' = pendingUp s \<and>
    accepted f (log w') = accepted f (log w)"
proof (cases "would_block N (log w)")
  case True
  with assms show ?thesis by (simp add: afterSend1_def)
next
  case False
  have sw: "s' = s\<lparr>state := CLOSED\<rparr>" "fault_free w' = fault_free w"
    "accepted f (log w') = accepted f (log w)"
    using assms(2) False
    by (auto simp: afterSend1_def Let_def closeSession1_def fault_free_def)
  have "up_inv (s\<lparr>state := CLOSED\<rparr>) = up_inv s" "pendingUp (s\<lparr>state := CLOSED\<rparr>) = pendingUp s"
    by (rule up_inv_cong pendingUp_cong; simp)+
  with assms(1) sw show ?thesis by simp
qed

lemma afterSend_all:
  assumes inv: "up_inv s" and open_up: "\<not> isUpStreamComplete s"
    and eq: "afterSend1 P N s p (int (length (pendingUp s))) w = (s', p', w')"
  shows "up_inv s' \<and> fault_free w' = fault_free w \<and> pendingUp s' = [] \<and>
    accepted f (log w') = accepted f (log w) \<and>
    (\<not> clientReadFinished s \<longrightarrow> receiveUser s' = receiveNext s')"
proof -
  let ?s1 = "s\<lparr>receiveUser := receiveNext s - (if clientReadFinished s then 1 else 0)\<rparr>"
  have amt: "word_of_int (int (length (pendingUp s))) = amtUp s"
    by (simp add: length_pendingUp [OF inv open_up])
  have u: "receiveUser s + amtUp s = receiveNext s - (if clientReadFinished s then 1 else 0)"
    by (rule receiveUser_amtUp)
  have body: "afterSend1 P N s p (int (length (pendingUp s))) w =
     (if clientReadFinished s then (let (s2, w3) = finishUpStream ?s1 w in (s2, p, w3))
      else (let (s2, w3) = trimReceiveBuffer N ?s1 w in (s2, p, w3)))"
    by (simp add: afterSend1_def Let_def amt u del: of_int_of_nat_eq)
  show ?thesis
  proof (cases "clientReadFinished s")
    case True
    have pos: "0 < unat (receiveNext s)" using up_invD(3) [OF inv] True by (simp add: finUp_def)
    have "up_inv ?s1" using up_invD [OF inv] True pos
      by (intro up_invI) (auto simp: finUp_def unat_minus_1)
    then show ?thesis
      using finishUpStream_up [of ?s1 w s' w'] eq body True
      by (auto split: prod.splits)
  next
    case False
    have i1: "up_inv ?s1" using up_invD [OF inv] False
      by (intro up_invI) (auto simp: finUp_def)
    obtain rb rs where t: "trimReceiveBuffer N ?s1 w =
        (?s1\<lparr>receiveBuffer := rb, receiveSequence := rs\<rparr>, w)"
      and rs: "rs \<le> receiveNext s" "unat (receiveNext s) \<le> unat rs + 16384"
      using trim_empty [OF i1, of N w] False by auto
    have s': "s' = ?s1\<lparr>receiveBuffer := rb, receiveSequence := rs\<rparr>" "w' = w"
      using eq body t False by simp_all
    have "receiveUser s' = receiveNext s'" "receiveNext s' = receiveNext s"
      "receiveSequence s' = rs" "\<not> clientReadFinished s'"
      using s' False by simp_all
    then show ?thesis using s'(2) rs
      by (auto simp: pendingUp_def word_le_nat_alt finUp_def intro!: up_invI)
  qed
qed

lemma flush_whole:
  assumes inv: "up_inv s" and est: "state s = ESTABLISHED" and ws: "whole_sends N"
    and eq: "flushDataToServer1 P N s p w = (s', p', w')"
  shows "up_inv s'" and "fault_free w' = fault_free w"
    and "accepted (mSock s) (log w') @ pendingUp s' = accepted (mSock s) (log w) @ pendingUp s"
proof -
  have "up_inv s' \<and> fault_free w' = fault_free w \<and>
    accepted (mSock s) (log w') @ pendingUp s' = accepted (mSock s) (log w) @ pendingUp s"
  proof (cases "isUpStreamComplete s \<or> pendingUp s = []")
    case True
    then have "flushDataToServer1 P N s p w = (s, p, w)"
      using flush_unfold [OF inv est, of P N p w] by (auto simp: flushDataToServer1_def)
    with eq inv show ?thesis by simp
  next
    case False
    let ?n = "sock_send N (log w) (mSock s) (pendingUp s)"
    let ?w = "emit (EvSend (mSock s) (pendingUp s) ?n) w"
    have body: "afterSend1 P N s p ?n ?w = (s', p', w')"
      using flush_unfold [OF inv est, of P N p w] False eq by (simp add: Let_def)
    from ws have "?n = - 1 \<or> ?n = int (length (pendingUp s))" by (simp add: whole_sends_def)
    then show ?thesis
    proof
      assume n: "?n = - 1"
      with afterSend_error [OF inv, of P N p ?w s' p' w' "mSock s"] body
      show ?thesis by simp
    next
      assume n: "?n = int (length (pendingUp s))"
      with afterSend_all [OF inv, of P N p ?w s' p' w' "mSock s"] False body
      show ?thesis by simp
    qed
  qed
  then show "up_inv s'" and "fault_free w' = fault_free w"
    and "accepted (mSock s) (log w') @ pendingUp s' = accepted (mSock s) (log w) @ pendingUp s"
    by simp_all
qed

text \<open>On a blocking socket a flush that leaves the session open leaves nothing pending.\<close>

lemma flush_blocking:
  assumes inv: "up_inv s" and est: "state s = ESTABLISHED" and ws: "blocking_sends N"
    and fin: "\<not> clientReadFinished s"
    and eq: "flushDataToServer1 P N s p w = (s', p', w')"
  shows "state s' = CLOSED \<or> receiveUser s' = receiveNext s'"
proof (cases "pendingUp s = []")
  case True
  have open_up: "\<not> isUpStreamComplete s" using fin by (simp add: isUpStreamComplete_def)
  have "s' = s" using flush_unfold [OF inv est open_up, of P N p w] True eq by simp
  moreover have "unat (receiveNext s) \<le> unat (receiveUser s)"
    using True fin by (metis pendingUp_def length_mem_read list.size(3) finUp_def diff_is_0_eq diff_zero)
  then have "receiveNext s \<le> receiveUser s" by (simp add: word_le_nat_alt)
  then have "receiveUser s = receiveNext s" using inv by (auto simp: up_inv_def)
  ultimately show ?thesis by simp
next
  case False
  have open_up: "\<not> isUpStreamComplete s" using fin by (simp add: isUpStreamComplete_def)
  let ?n = "sock_send N (log w) (mSock s) (pendingUp s)"
  let ?w = "emit (EvSend (mSock s) (pendingUp s) ?n) w"
  have body: "afterSend1 P N s p ?n ?w = (s', p', w')"
    using flush_unfold [OF inv est open_up, of P N p w] False eq by (simp add: Let_def)
  from ws have "?n = int (length (pendingUp s)) \<or>
      ?n = - 1 \<and> \<not> would_block N (log w @ [EvSend (mSock s) (pendingUp s) (- 1)])"
    unfolding blocking_sends_def by blast
  then show ?thesis
  proof
    assume "?n = int (length (pendingUp s))"
    with afterSend_all [OF inv open_up, of P N p ?w s' p' w'] body fin show ?thesis by simp
  next
    assume "?n = - 1 \<and> \<not> would_block N (log w @ [EvSend (mSock s) (pendingUp s) (- 1)])"
    with body show ?thesis by (auto simp: afterSend1_def Let_def closeSession1_def)
  qed
qed

lemma flush_packet:
  assumes "state s = ESTABLISHED" and "flushDataToServer1 P N s p w = (s', p', w')"
  shows "state s' = CLOSED \<or> state s' = ESTABLISHED \<and> p' = p"
proof -
  have a: "afterSend1 P N s p n v = (s', p', w') \<Longrightarrow>
      state s' = CLOSED \<or> state s' = ESTABLISHED \<and> p' = p" for n v
    using assms(1)
    by (auto simp: afterSend1_def finishUpStream_def closeSession1_def trimReceiveBuffer_def
          trimReceiveBuffer_now_def Let_def split: if_splits prod.splits)
  show ?thesis
    using assms a
    by (auto simp: flushDataToServer1_def finishUpStream_def closeSession1_def Let_def
          split: if_splits prod.splits)
qed

section \<open>Storing a segment\<close>

lemma storeSegment_in_bounds:
  assumes "receiveSequence s \<le> receiveNext s"
    and "unat (receiveNext s) - unat (receiveSequence s) \<le> 16384"
    and laws: "payload_laws1 P"
  shows "snd (storeSegment1 P len s p w) = w"
proof -
  let ?bs = "take (unat (getReceiveAvailable s)) (payload P p)"
  have "length ?bs \<le> 16384 - (unat (receiveNext s) - unat (receiveSequence s))"
    by (simp add: getReceiveAvailable_diff [OF assms(1,2)])
  then have "0 \<le> ptr_off (receiveNext s) (receiveSequence s) \<and>
      ptr_off (receiveNext s) (receiveSequence s) + int (length ?bs) \<le> int 16384"
    using assms(2) by (intro ptr_off_bound [OF assms(1)]) linarith
  then have "check_bounds (0 \<le> ptr_off (receiveNext s) (receiveSequence s) \<and>
      ptr_off (receiveNext s) (receiveSequence s) + int (length ?bs)
        \<le> int (unat RECEIVE_BUFFER_SIZE)) w = w"
    by (simp only: unat_RECEIVE_BUFFER_SIZE check_bounds_True simp_thms)
  then show ?thesis
    by (simp only: storeSegment1_def Let_def payload_laws1D [OF laws] snd_conv)
qed

lemma storeSegment_frame:
  "state (fst (storeSegment1 P len s p w)) = state s \<and>
   mSock (fst (storeSegment1 P len s p w)) = mSock s \<and>
   receiveSequence (fst (storeSegment1 P len s p w)) = receiveSequence s \<and>
   receiveUser (fst (storeSegment1 P len s p w)) = receiveUser s \<and>
   mss (fst (storeSegment1 P len s p w)) = mss s \<and>
   source (fst (storeSegment1 P len s p w)) = source s \<and>
   destination (fst (storeSegment1 P len s p w)) = destination s \<and>
   down_view (fst (storeSegment1 P len s p w)) = down_view s"
  by (simp add: storeSegment1_def down_view_def Let_def)

text \<open>
  The bytes that fit are appended to the pending ones; a FIN counts only when the whole
  segment fitted.
\<close>

lemma storeSegment_up:
  assumes inv: "up_inv s" and fin: "\<not> clientReadFinished s" and laws: "payload_laws1 P"
    and nowrap: "unat (receiveNext s) + length (payload P p) + 1 < 2 ^ 32"
    and st: "storeSegment1 P (getDataLength P p) s p w = (s', w')"
  defines "k \<equiv> min (unat (getReceiveAvailable s)) (length (payload P p))"
  shows "up_inv s'" and "w' = w"
    and "pendingUp s' = pendingUp s @ take k (payload P p)"
    and "clientReadFinished s' = (isFin P p \<and> length (payload P p) \<le> unat (getReceiveAvailable s))"
    and "unat (receiveNext s') = unat (receiveNext s) + k + finUp s'"
proof -
  let ?X = "receiveNext s" and ?S = "receiveSequence s" and ?U = "receiveUser s"
  let ?bs = "take k (payload P p)"
  note D = up_invD [OF inv]
  have f0: "finUp s = 0" using fin by (simp add: finUp_def)
  have bs: "copyDataTo P (getReceiveAvailable s) p = ?bs"
    by (simp add: payload_laws1D [OF laws] k_def min_def)
  have lenbs: "length ?bs = k" by (simp add: k_def)
  have klen: "k \<le> length (payload P p)" by (simp add: k_def)
  have kav: "k \<le> unat (getReceiveAvailable s)" by (simp add: k_def)
  have room: "k + (unat ?X - unat ?S) \<le> 16384"
    using getReceiveAvailable_exact [OF inv fin] D f0 kav by linarith
  have plen: "length (payload P p) < 2 ^ 16" by (rule payload_length [OF laws])
  have total: "word_of_nat k = getDataLength P p \<longleftrightarrow> k = length (payload P p)"
    using klen plen
    by (simp add: payload_laws1D [OF laws] word_of_nat_eq_iff take_bit_nat_eq_self)
  have X1: "unat (?X + word_of_nat k) = unat ?X + k"
    using nowrap klen by (intro unat_add_small) linarith
  have X2: "unat (?X + word_of_nat k + 1) = unat ?X + k + 1"
    using nowrap klen X1 unat_add_small [of "?X + word_of_nat k" 1] by simp
  have le: "?S \<le> ?X" "unat ?X - unat ?S \<le> 16384"
    using D f0 by (auto simp: word_le_nat_alt)
  show "w' = w" using storeSegment_in_bounds [OF le laws, of "getDataLength P p" p w] st by simp
  have s'_eq: "s' = fst (storeSegment1 P (getDataLength P p) s p w)" using st by simp
  have s': "receiveSequence s' = ?S" "receiveUser s' = ?U"
    "receiveBuffer s' = mem_write (receiveBuffer s) (nat (ptr_off ?X ?S)) ?bs"
    "clientReadFinished s' = (isFin P p \<and> k = length (payload P p))"
    "receiveNext s' = (if isFin P p \<and> k = length (payload P p)
        then ?X + word_of_nat k + 1 else ?X + word_of_nat k)"
    unfolding s'_eq storeSegment1_def Let_def fst_conv bs lenbs total using fin by simp_all
  show fin': "clientReadFinished s' = (isFin P p \<and> length (payload P p) \<le> unat (getReceiveAvailable s))"
    using s'(4) by (auto simp: k_def)
  have nx: "receiveNext s' = (if clientReadFinished s' then ?X + word_of_nat k + 1
      else ?X + word_of_nat k)"
    by (simp only: s'(4,5))
  show X': "unat (receiveNext s') = unat ?X + k + finUp s'"
    using nx X1 X2 by (simp add: finUp_def)
  show "up_inv s'"
    using D f0 s' X' room by (intro up_invI) (auto simp: finUp_def)
  have off: "nat (ptr_off ?X ?S) = unat ?U - unat ?S + (unat ?X - unat ?U)"
    using ptr_off_nat [OF le(1)] D by simp
  have "pendingUp s' = mem_read (receiveBuffer s') (unat ?U - unat ?S) (unat ?X - unat ?U + k)"
    using X' s'(1,2) D by (simp add: pendingUp_def)
  also have "\<dots> = pendingUp s @ ?bs"
    using mem_read_write_end [of "receiveBuffer s" "unat ?U - unat ?S" "unat ?X - unat ?U" ?bs,
      unfolded lenbs]
    by (simp add: s'(3) off pendingUp_def f0)
  finally show "pendingUp s' = pendingUp s @ ?bs" .
qed

section \<open>A segment of the client in an established session\<close>

text \<open>Making room: what a too long segment finds when it is stored.\<close>

lemma makeRoom_up:
  assumes inv: "up_inv s" and est: "state s = ESTABLISHED" and fin: "\<not> clientReadFinished s"
    and bs: "blocking_sends N" and len: "unat len \<le> 16384"
    and eq: "makeRoom1 P N len s p w = (s', p', w')"
  shows "fault_free w' = fault_free w"
    and "receiveSequence s' \<le> receiveNext s'"
    and "unat (receiveNext s') - unat (receiveSequence s') \<le> 16384"
    and "state s' = CLOSED \<or> state s' = ESTABLISHED \<and> p' = p \<and> up_inv s' \<and>
      unat len \<le> unat (getReceiveAvailable s') \<and>
      accepted (mSock s) (log w') @ pendingUp s' = accepted (mSock s) (log w) @ pendingUp s"
    and "flush_frame s s'"
proof -
  have "fault_free w' = fault_free w \<and> receiveSequence s' \<le> receiveNext s' \<and>
    unat (receiveNext s') - unat (receiveSequence s') \<le> 16384 \<and>
    (state s' = CLOSED \<or> state s' = ESTABLISHED \<and> p' = p \<and> up_inv s' \<and>
      unat len \<le> unat (getReceiveAvailable s') \<and>
      accepted (mSock s) (log w') @ pendingUp s' = accepted (mSock s) (log w) @ pendingUp s) \<and>
    flush_frame s s'"
  proof (cases "len > getReceiveAvailable s")
    case False
    then have "s' = s" "p' = p" "w' = w" using eq by (simp_all add: makeRoom1_def)
    with False inv est up_invD [OF inv] fin show ?thesis
      by (auto simp: up_inv_def finUp_def word_less_nat_alt)
  next
    case True
    obtain a q v where fl: "flushDataToServer1 P N s p w = (a, q, v)"
      by (metis prod_cases3)
    obtain b v' where tr: "trimReceiveBuffer_now N a v = (b, v')" by fastforce
    have res: "s' = b" "p' = q" "w' = v'"
      using eq True fl tr by (simp_all add: makeRoom1_def)
    note fw = flush_whole [OF inv est blocking_whole [OF bs] fl]
    have fr: "flush_frame s a" using flush_frame_flush [of s P N p w] fl by simp
    have fb: "flush_frame a b" using trim_now_frame [of a N v] tr by simp
    have frame: "flush_frame s b" using fr fb by (auto simp: flush_frame_def)
    have af: "\<not> clientReadFinished a" using fr fin by (simp add: flush_frame_def)
    show ?thesis
    proof (cases "state a = CLOSED")
      case closed: True
      note D = up_invD [OF fw(1)]
      have "unat (receiveUser a - receiveSequence a) + unat (receiveNext a - receiveUser a) \<le> 16384"
        using D fw(1) af by (simp add: unat_diff_le up_inv_def finUp_def)
      then have b: "receiveNext b = receiveNext a \<and> v' = v \<and> state b = state a \<and>
          (receiveSequence b = receiveNext a \<or> receiveSequence b = receiveSequence a)"
        using tr by (auto simp: trimReceiveBuffer_now_def Let_def split: if_splits)
      then have "receiveSequence b \<le> receiveNext b"
        "unat (receiveNext b) - unat (receiveSequence b) \<le> 16384"
        using D fw(1) af by (auto simp: up_inv_def finUp_def)
      with b closed fw(2) frame res show ?thesis by simp
    next
      case False
      have u: "receiveUser a = receiveNext a"
        using flush_blocking [OF inv est bs fin fl] False by simp
      obtain rb where b: "b = a\<lparr>receiveBuffer := rb, receiveSequence := receiveNext a\<rparr>" "v' = v"
        using trim_now_empty [OF fw(1) af u, of N v] tr by auto
      have bf: "receiveSequence b = receiveNext a" "receiveNext b = receiveNext a"
        "receiveUser b = receiveNext a" "state b = state a" "\<not> clientReadFinished b"
        using b u af by simp_all
      have pa: "state a = ESTABLISHED \<and> q = p" using flush_packet [OF est fl] False by simp
      have "up_inv b" "pendingUp b = []" using bf by (simp_all add: up_inv_def pendingUp_def finUp_def)
      moreover have "pendingUp a = []" using u by (simp add: pendingUp_def)
      moreover have "unat (getReceiveAvailable b) = 16384"
        using getReceiveAvailable_exact [OF \<open>up_inv b\<close>] bf by simp
      ultimately show ?thesis using res bf pa fw(2,3) b(2) len frame by simp
    qed
  qed
  then show "fault_free w' = fault_free w"
    and "receiveSequence s' \<le> receiveNext s'"
    and "unat (receiveNext s') - unat (receiveSequence s') \<le> 16384"
    and "state s' = CLOSED \<or> state s' = ESTABLISHED \<and> p' = p \<and> up_inv s' \<and>
      unat len \<le> unat (getReceiveAvailable s') \<and>
      accepted (mSock s) (log w') @ pendingUp s' = accepted (mSock s) (log w) @ pendingUp s"
    and "flush_frame s s'"
    by simp_all
qed

lemma completeOrAcknowledge_up:
  assumes "completeOrAcknowledge1 P N s p w = (s', p', w')"
  shows "fault_free w' = fault_free w" and "accepted f (log w') = accepted f (log w)"
    and "state s' = CLOSED \<or> state s' = state s"
    and "up_inv s' = up_inv s" and "pendingUp s' = pendingUp s"
    and "receiveNext s' = receiveNext s" and "clientReadFinished s' = clientReadFinished s"
proof -
  have f: "receiveSequence s' = receiveSequence s" "receiveUser s' = receiveUser s"
    "receiveNext s' = receiveNext s" "clientReadFinished s' = clientReadFinished s"
    "receiveBuffer s' = receiveBuffer s" "state s' = CLOSED \<or> state s' = state s"
    and w: "fault_free w' = fault_free w" "accepted f (log w') = accepted f (log w)"
    using assms
    by (auto simp: completeOrAcknowledge1_def acknowledgeDelayed1_def closeSession1_def
          fault_free_def Let_def split: if_splits)
  show "fault_free w' = fault_free w" and "accepted f (log w') = accepted f (log w)"
    and "state s' = CLOSED \<or> state s' = state s"
    and "receiveNext s' = receiveNext s" and "clientReadFinished s' = clientReadFinished s"
    using f w by simp_all
  show "up_inv s' = up_inv s" "pendingUp s' = pendingUp s"
    by (rule up_inv_cong pendingUp_cong; simp only: f)+
qed

lemma receiveEstablished_up:
  assumes laws: "payload_laws1 P" and bs: "blocking_sends N"
    and inv: "up_inv s" and est: "state s = ESTABLISHED" and fin: "\<not> clientReadFinished s"
    and seq: "getSequenceNumber P p = receiveNext s"
    and len: "length (payload P p) \<le> 16384"
    and nowrap: "unat (receiveNext s) + length (payload P p) + 1 < 2 ^ 32"
    and eq: "receiveEstablished1 P N s p w = (s', p', w')"
  shows "fault_free w' = fault_free w \<and>
    (state s' = ESTABLISHED \<longrightarrow> up_inv s' \<and>
       accepted (mSock s) (log w') @ pendingUp s' =
         accepted (mSock s) (log w) @ pendingUp s @ payload P p \<and>
       unat (receiveNext s') = unat (receiveNext s) + length (payload P p) + finUp s' \<and>
       clientReadFinished s' = isFin P p)"
proof -
  let ?L = "getDataLength P p"
  let ?s1 = "s\<lparr>sendUnacknowledged := max (sendUnacknowledged s) (getAcknowledgmentNumber P p),
               retryCount := 0\<rparr>"
  have L: "unat ?L = length (payload P p)" by (rule unat_getDataLength [OF laws])
  obtain s2 p2 w2 where mr: "makeRoom1 P N ?L ?s1 p w = (s2, p2, w2)" by (metis prod_cases3)
  obtain s3 w3 where st: "storeSegment1 P ?L s2 p2 w2 = (s3, w3)" by fastforce
  obtain s4 p4 w4 where fl: "flushDataToServer1 P N s3 p2 w3 = (s4, p4, w4)"
    by (metis prod_cases3)
  have body: "(if state s4 = CLOSED then (s4, p4, w4)
      else completeOrAcknowledge1 P N s4 p4 w4) = (s', p', w')"
    using eq seq fin mr st fl by (simp add: receiveEstablished1_def Let_def)
  have i1: "up_inv ?s1" "state ?s1 = ESTABLISHED" "\<not> clientReadFinished ?s1"
    "pendingUp ?s1 = pendingUp s"
    using inv est fin by (simp_all cong: up_inv_cong add: up_inv_def pendingUp_def finUp_def)
  note room = makeRoom_up [OF i1(1-3) bs _ mr, unfolded L, OF len]
  have w3: "w3 = w2" using storeSegment_in_bounds [OF room(2,3) laws, of ?L p2 w2] st by simp
  show ?thesis
  proof (cases "state s2 = CLOSED")
    case True
    then have "state s3 = CLOSED" using storeSegment_frame [of P ?L s2 p2 w2] st by simp
    then have "state s4 = CLOSED" "w4 = w3" using fl by (simp_all add: flushDataToServer1_def)
    then show ?thesis using body w3 room(1) by simp
  next
    case False
    then have r2: "state s2 = ESTABLISHED" "p2 = p" "up_inv s2"
      "length (payload P p) \<le> unat (getReceiveAvailable s2)"
      "accepted (mSock s) (log w2) @ pendingUp s2 = accepted (mSock s) (log w) @ pendingUp s"
      using room(4) i1(4) by simp_all
    have f2: "receiveNext s2 = receiveNext s" "\<not> clientReadFinished s2" "mSock s2 = mSock s"
      using room(5) fin by (simp_all add: flush_frame_def)
    have nw: "unat (receiveNext s2) + length (payload P p) + 1 < 2 ^ 32"
      using nowrap f2(1) by simp
    have k: "min (unat (getReceiveAvailable s2)) (length (payload P p)) = length (payload P p)"
      using r2(4) by simp
    have k': "isFin P p \<and> length (payload P p) \<le> unat (getReceiveAvailable s2) \<longleftrightarrow> isFin P p"
      using r2(4) by simp
    note store = storeSegment_up [OF r2(3) f2(2) laws nw st [unfolded r2(2)], unfolded k k']
    have s3: "state s3 = ESTABLISHED" "mSock s3 = mSock s"
      using storeSegment_frame [of P ?L s2 p2 w2] st r2(1) f2(3) by simp_all
    note fw = flush_whole [OF store(1) s3(1) blocking_whole [OF bs] fl]
    have fr: "flush_frame s3 s4" using flush_frame_flush [of s3 P N p2 w3] fl by simp
    have integrity: "accepted (mSock s) (log w4) @ pendingUp s4 =
        accepted (mSock s) (log w) @ pendingUp s @ payload P p"
      using fw(3) store(3) r2(5) w3 s3(2) by simp
    show ?thesis
    proof (cases "state s4 = CLOSED")
      case True
      then show ?thesis using body fw(2) w3 room(1) by simp
    next
      case False
      with body have cA: "completeOrAcknowledge1 P N s4 p4 w4 = (s', p', w')" by simp
      note c = completeOrAcknowledge_up [OF cA]
      show ?thesis
        using c(1,2,4-7) fw integrity w3 room(1) store fr f2(1)
        by (simp add: flush_frame_def finUp_def)
    qed
  qed
qed

text \<open>
  C1. Upstream integrity. On a blocking socket, an in-order segment of the client (no longer
  than the 16 KiB buffer, and short of the wrap-around of the sequence numbers)
  never makes the session leave its buffer. If the session stays open, the bytes the
  server's socket has accepted, followed by those still buffered, are the ones from
  before followed by exactly the payload; the next expected sequence number moves by the
  payload and one more for a FIN; and the buffer's invariant holds again.
\<close>

theorem upstream_integrity:
  assumes "payload_laws1 P" and "blocking_sends N"
    and "up_inv s" and "state s = ESTABLISHED" and "\<not> clientReadFinished s"
    and "\<not> isSyn P p" and "\<not> isReset P p" and "isAck P p"
    and "getSequenceNumber P p = receiveNext s"
    and "length (payload P p) \<le> 16384"
    and "unat (receiveNext s) + length (payload P p) + 1 < 2 ^ 32"
    and "receiveFromClient1 P N s p w = (s', p', w')"
  shows "fault_free w' = fault_free w \<and>
    (state s' = ESTABLISHED \<longrightarrow> up_inv s' \<and>
       accepted (mSock s) (log w') @ pendingUp s' =
         accepted (mSock s) (log w) @ pendingUp s @ payload P p \<and>
       unat (receiveNext s') = unat (receiveNext s) + length (payload P p) + finUp s' \<and>
       clientReadFinished s' = isFin P p)"
proof -
  have "receiveEstablished1 P N s p w = (s', p', w')"
    using assms by (simp add: receiveFromClient1_def)
  with assms show ?thesis by (intro receiveEstablished_up)
qed

end
