(* ===== verification/SessionV1_Demo.thy ===== *)
theory SessionV1_Demo
  imports SessionV1_Up
begin

text \<open>
  A packet type, a network and sessions on which the hypotheses of the theorems hold, for
  the witnesses: a socket that takes all it is given, a server that answers a receive with
  given bytes, a clock that stands still.
\<close>

definition demo_ops1 :: "demo_packet packet_ops1" where
  "demo_ops1 = demo_ops (packet_ops1.fields (\<lambda>_. False) (\<lambda>_. 1460)
     (\<lambda>p. word_of_nat (length (take 65535 (dp_data p))))
     (\<lambda>n p. take (unat n) (take 65535 (dp_data p)))
     (\<lambda>a p. dp_src p = a)
     (\<lambda>a b p. p\<lparr>dp_src := a, dp_dst := b\<rparr>)
     (\<lambda>p. p\<lparr>dp_data := []\<rparr>)
     (\<lambda>bs p. p\<lparr>dp_data := take 65535 (dp_data p) @ bs\<rparr>))"

lemma demo_ops1_simps [simp]:
  "isPush demo_ops1 = (\<lambda>_. False)" "getMSS demo_ops1 = (\<lambda>_. 1460)"
  "getDataLength demo_ops1 = (\<lambda>p. word_of_nat (length (take 65535 (dp_data p))))"
  "copyDataTo demo_ops1 = (\<lambda>n p. take (unat n) (take 65535 (dp_data p)))"
  "isFrom demo_ops1 = (\<lambda>a p. dp_src p = a)"
  "setEnds demo_ops1 = (\<lambda>a b p. p\<lparr>dp_src := a, dp_dst := b\<rparr>)"
  "clearData demo_ops1 = (\<lambda>p. p\<lparr>dp_data := []\<rparr>)"
  "appendData demo_ops1 = (\<lambda>bs p. p\<lparr>dp_data := take 65535 (dp_data p) @ bs\<rparr>)"
  by (simp_all add: demo_ops1_def demo_ops_def packet_ops1.defs)

lemma demo_ops1_base [simp]:
  "isSyn demo_ops1 = dp_syn" "isAck demo_ops1 = dp_ack" "isFin demo_ops1 = dp_fin"
  "isReset demo_ops1 = dp_rst" "getSequenceNumber demo_ops1 = dp_seq"
  "getAcknowledgmentNumber demo_ops1 = dp_ackno"
  "getSegmentLength demo_ops1 = demo_segment_length"
  "getWindowSize demo_ops1 = dp_win" "getWindowShift demo_ops1 = (\<lambda>_. 0)"
  "getSource demo_ops1 = dp_src" "getDestination demo_ops1 = dp_dst"
  "payload demo_ops1 = (\<lambda>p. take 65535 (dp_data p))" "payloadCapacity demo_ops1 = (\<lambda>_. 65535)"
  "swapEnds demo_ops1 p = p\<lparr>dp_src := dp_dst p, dp_dst := dp_src p\<rparr>"
  "makeResetSeq demo_ops1 n p = p\<lparr>dp_syn := False, dp_ack := False, dp_fin := False,
     dp_rst := True, dp_seq := n, dp_data := []\<rparr>"
  "makeResetAck demo_ops1 n p = p\<lparr>dp_syn := False, dp_ack := True, dp_fin := False,
     dp_rst := True, dp_seq := 0, dp_ackno := n, dp_data := []\<rparr>"
  "makeSyn demo_ops1 m n p = p\<lparr>dp_syn := True, dp_ack := True, dp_fin := False,
     dp_rst := False, dp_seq := m, dp_ackno := n\<rparr>"
  "makeNormal demo_ops1 m n p = p\<lparr>dp_syn := False, dp_ack := True, dp_fin := False,
     dp_rst := False, dp_seq := m, dp_ackno := n\<rparr>"
  "setFinFlag demo_ops1 b p = p\<lparr>dp_fin := b\<rparr>"
  "setWindowSize demo_ops1 k p = p\<lparr>dp_win := k\<rparr>"
  by (simp_all add: demo_ops1_def)

lemma demo_laws1: "header_laws demo_ops1" "payload_laws1 demo_ops1"
  by (simp add: demo_ops1_def demo_header_laws) (simp add: payload_laws1_def min_less_iff_disj)

text \<open>\<open>demo_net1 ans bs t\<close>: sends answer \<open>ans\<close>, receives give \<open>bs\<close>, the time is \<open>t\<close>.\<close>

definition demo_net1 :: "(byte list \<Rightarrow> int) \<Rightarrow> byte list \<Rightarrow> int \<Rightarrow> 'p net1" where
  "demo_net1 ans bs t = \<lparr>sock_connect = (\<lambda>_ _. (7, 0, False, False)), sock_send = (\<lambda>_ _. ans),
     sock_receive = (\<lambda>_ _ n. (int (length (take n bs)), take n bs)), would_block = (\<lambda>_. False),
     clock_now = (\<lambda>_. t), c_rand = (\<lambda>_. 4), fresh_mem = (\<lambda>_ _. 0),
     shift_elements = (\<lambda>m i n d. mem_write m (nat (int i + d)) (mem_read m i n))\<rparr>"

lemma demo_net1_simps [simp]:
  "sock_connect (demo_net1 ans bs t) h a = (7, 0, False, False)"
  "sock_send (demo_net1 ans bs t) h f = ans"
  "sock_receive (demo_net1 ans bs t) h f n = (int (length (take n bs)), take n bs)"
  "would_block (demo_net1 ans bs t) h = False"
  "clock_now (demo_net1 ans bs t) h = t" "c_rand (demo_net1 ans bs t) h = 4"
  "fresh_mem (demo_net1 ans bs t) h = (\<lambda>_. 0)"
  "shift_elements (demo_net1 ans bs t) m i n d = mem_write m (nat (int i + d)) (mem_read m i n)"
  by (simp_all add: demo_net1_def)

abbreviation all_net1 :: "'p net1" where
  "all_net1 \<equiv> demo_net1 (\<lambda>bs. int (length bs)) [] 0"

lemma all_net1_blocking: "blocking_sends all_net1" "whole_sends all_net1"
  by (simp_all add: blocking_sends_def whole_sends_def)

text \<open>A session just established: the client's next byte is 101, nothing was sent yet.\<close>

definition demo_session1 :: session1 where
  "demo_session1 = new_session1\<lparr>state := ESTABLISHED, mSock := 7, mss := 1460,
     source := (1, 1), destination := (2, 2), sendBuffer := Some (\<lambda>_. 0), sendLength := 131070,
     sendSequence := 31, sendUnacknowledged := 31, sendNext := 31, sendNewDataSequence := 31,
     receiveSequence := 101, receiveUser := 101, receiveNext := 101,
     lastAcknowledgedSequence := 101\<rparr>"

definition demo_segment1 :: "u32 \<Rightarrow> byte list \<Rightarrow> demo_packet" where
  "demo_segment1 n bs = demo_packet\<lparr>dp_ack := True, dp_seq := n, dp_ackno := 31, dp_data := bs\<rparr>"

lemma demo_session1_simps [simp]:
  "state demo_session1 = ESTABLISHED" "mSock demo_session1 = 7" "mss demo_session1 = 1460"
  "clientReadFinished demo_session1 = False" "serverReadFinished demo_session1 = False"
  "receiveSequence demo_session1 = 101" "receiveUser demo_session1 = 101"
  "receiveNext demo_session1 = 101" "sendSequence demo_session1 = 31"
  "sendUnacknowledged demo_session1 = 31" "sendNext demo_session1 = 31"
  "sendNewDataSequence demo_session1 = 31" "sendLength demo_session1 = 131070"
  "sendBuffer demo_session1 = Some (\<lambda>_. 0)" "retryCount demo_session1 = 0"
  "source demo_session1 = (1, 1)" "destination demo_session1 = (2, 2)"
  "lastAcknowledgedSequence demo_session1 = 101" "rtt demo_session1 = 0" "lastSendTime demo_session1 = 0"
  by (simp_all add: demo_session1_def new_session1_def)

lemma empty_world_simps [simp]:
  "log empty_world = []" "receiveSet empty_world = {}" "lastAcknowledgmentSent empty_world = 0"
  "fault_free empty_world"
  by (simp_all add: empty_world_def fault_free_def)

lemma demo_session1_up: "up_inv demo_session1" "pendingUp demo_session1 = []"
  by (simp_all add: up_inv_def pendingUp_def finUp_def)

lemma demo_segment1_simps [simp]:
  "dp_syn (demo_segment1 n bs) = False" "dp_ack (demo_segment1 n bs) = True"
  "dp_rst (demo_segment1 n bs) = False" "dp_fin (demo_segment1 n bs) = False"
  "dp_seq (demo_segment1 n bs) = n" "dp_ackno (demo_segment1 n bs) = 31"
  "dp_data (demo_segment1 n bs) = bs"
  by (simp_all add: demo_segment1_def)

lemmas demo_eval1 = receiveFromClient1_def receiveEstablished1_def makeRoom1_def storeSegment1_def
  flushDataToServer1_def afterSend1_def completeOrAcknowledge1_def acknowledgeDelayed1_def
  trimReceiveBuffer_def trimReceiveBuffer_now_def closeSession1_def
  getReceiveAvailable_def RECEIVE_BUFFER_SIZE_def isUpStreamComplete_def isDownStreamComplete_def
  ptr_off_def ACKNOWLEDGE_DELAY_def

section \<open>The relay of a first segment\<close>

theorem upstream_integrity_witness:
  "\<exists>s' p' w'. receiveFromClient1 demo_ops1 all_net1 demo_session1 (demo_segment1 101 [65, 66])
      empty_world = (s', p', w') \<and> fault_free w' \<and>
    state s' = ESTABLISHED \<and> accepted 7 (log w') @ pendingUp s' = [65, 66]"
proof -
  obtain s' p' w' where r: "receiveFromClient1 demo_ops1 all_net1 demo_session1
      (demo_segment1 101 [65, 66]) empty_world = (s', p', w')"
    by (metis prod_cases3)
  have "fault_free w' = fault_free (empty_world :: demo_packet world) \<and>
    (state s' = ESTABLISHED \<longrightarrow> up_inv s' \<and>
       accepted (mSock demo_session1) (log w') @ pendingUp s' =
         accepted (mSock demo_session1) (log (empty_world :: demo_packet world)) @
         pendingUp demo_session1 @ payload demo_ops1 (demo_segment1 101 [65, 66]) \<and>
       unat (receiveNext s') = unat (receiveNext demo_session1) +
         length (payload demo_ops1 (demo_segment1 101 [65, 66])) + finUp s' \<and>
       clientReadFinished s' = isFin demo_ops1 (demo_segment1 101 [65, 66]))"
    by (rule upstream_integrity [OF demo_laws1(2) all_net1_blocking(1) demo_session1_up(1) _ _ _ _ _ _ _ _ r])
      simp_all
  moreover have "state s' = ESTABLISHED"
    using r by (auto simp: demo_eval1 Let_def split: prod.splits if_splits)
  ultimately show ?thesis
    using r by (simp add: demo_session1_up)
qed

end
