(* ===== verification/SessionV1_Limits.thy ===== *)
theory SessionV1_Limits
  imports SessionV1_Demo
begin

text \<open>
  Where the guarantees of the upstream half end: the situations its hypotheses exclude
  are reachable, and this is what the code does in them.
\<close>

section \<open>A fault stays in the log\<close>

lemma closeSession1_fault [simp]: "fault_free (snd (closeSession1 s w)) = fault_free w"
  by (simp add: closeSession1_def fault_free_def)

lemma trim_now_fault: "fault_free (snd (trimReceiveBuffer_now N s w)) \<Longrightarrow> fault_free w"
  by (auto simp: trimReceiveBuffer_now_def Let_def split: if_splits)

lemma trim_fault: "fault_free (snd (trimReceiveBuffer N s w)) \<Longrightarrow> fault_free w"
  by (auto simp: trimReceiveBuffer_def dest: trim_now_fault split: if_splits)

lemma finishUpStream_fault: "fault_free (snd (finishUpStream s w)) = fault_free w"
  by (simp add: finishUpStream_def Let_def)

lemma afterSend_fault: "fault_free (snd (snd (afterSend1 P N s p n w))) \<Longrightarrow> fault_free w"
  by (auto simp: afterSend1_def Let_def case_prod_unfold finishUpStream_fault
      dest: trim_fault split: if_splits)

lemma flush_fault: "fault_free (snd (snd (flushDataToServer1 P N s p w))) \<Longrightarrow> fault_free w"
  by (auto simp: flushDataToServer1_def Let_def case_prod_unfold finishUpStream_fault
      dest!: afterSend_fault split: if_splits)

section \<open>A partial send\<close>

lemma flush_behind_base:
  assumes "state s = ESTABLISHED" and "\<not> clientReadFinished s"
    and "receiveUser s < receiveSequence s" and "receiveUser s \<noteq> receiveNext s"
  shows "\<not> fault_free (snd (snd (flushDataToServer1 P N s p w)))"
proof -
  have off: "\<not> 0 \<le> ptr_off (receiveUser s) (receiveSequence s)"
    using ptr_off_neg [OF assms(3)] by simp
  have "receiveNext s - receiveUser s > 0"
    using assms(4) by (simp add: word_gt_0)
  then show ?thesis
    using assms(1,2) off
    by (auto simp: flushDataToServer1_def isUpStreamComplete_def Let_def dest!: afterSend_fault)
qed

text \<open>
  C9. A partial send breaks the receive buffer. If the socket takes some but not all of the pending
  bytes, and at least one segment size of the buffer has been consumed, the trim that
  follows moves the base of the buffer to the end of the received data and not to the first byte still to
  be sent. The unsent bytes are then at a negative offset, and the next flush
  reads outside the buffer, whatever the world does.
\<close>

theorem partial_send_faults:
  assumes "up_inv s" and "state s = ESTABLISHED" and "\<not> clientReadFinished s"
    and "sock_send N (log w) (mSock s) (pendingUp s) = int k"
    and "0 < k" and "k < length (pendingUp s)" and "unat (mss s) \<le> k"
    and "flushDataToServer1 P N s p w = (s', p', w')"
  shows "state s' = ESTABLISHED \<and> receiveUser s' < receiveSequence s' \<and>
    (\<forall>N' q v. \<not> fault_free (snd (snd (flushDataToServer1 P N' s' q v))))"
proof -
  let ?u = "receiveUser s + word_of_nat k"
  let ?s1 = "s\<lparr>receiveUser := ?u\<rparr>"
  note D = up_invD [OF assms(1)]
  have open_up: "\<not> isUpStreamComplete s" using assms(3) by (simp add: isUpStreamComplete_def)
  have len: "length (pendingUp s) = unat (receiveNext s) - unat (receiveUser s)"
    using assms(3) by (simp add: pendingUp_def finUp_def)
  have kb: "unat (receiveUser s) + k < unat (receiveNext s)" using assms(6) len by linarith
  then have u: "unat ?u = unat (receiveUser s) + k"
    using u32_less [of "receiveNext s"] by (intro unat_add_small) simp
  have ne: "?u \<noteq> receiveSequence s" using u D(1) assms(5) by auto
  have le: "receiveSequence s \<le> ?u" using u D(1) by (simp add: word_le_nat_alt)
  have "unat (?u - receiveSequence s) = unat ?u - unat (receiveSequence s)"
    by (rule unat_diff_le [OF le])
  then have notsmall: "\<not> ?u - receiveSequence s < ucast (mss s)"
    using u D(1) assms(7) by (simp add: word_less_nat_alt)
  have "flushDataToServer1 P N s p w =
      afterSend1 P N s p (int k) (emit (EvSend (mSock s) (pendingUp s) (int k)) w)"
    using flush_unfold [OF assms(1,2) open_up, of P N p w] assms(4,6) by (auto simp: Let_def)
  also have "\<dots> = (let (s2, w3) = trimReceiveBuffer N ?s1
      (emit (EvSend (mSock s) (pendingUp s) (int k)) w) in (s2, p, w3))"
    using assms(3) by (simp add: afterSend1_def Let_def)
  finally have "s' = fst (trimReceiveBuffer N ?s1
      (emit (EvSend (mSock s) (pendingUp s) (int k)) w))"
    using assms(8) by (simp add: case_prod_unfold Let_def)
  then have s': "state s' = ESTABLISHED" "receiveUser s' = ?u" "receiveSequence s' = receiveNext s"
    "receiveNext s' = receiveNext s" "\<not> clientReadFinished s'"
    using assms(2,3) ne notsmall
    by (auto simp: trimReceiveBuffer_def trimReceiveBuffer_now_def Let_def)
  have "receiveUser s' < receiveSequence s'"
    using s' u kb by (simp add: word_less_nat_alt)
  moreover from this have "receiveUser s' \<noteq> receiveNext s'" using s'(3,4) by auto
  ultimately show ?thesis
    using s'(1,5) by (intro conjI allI flush_behind_base)
qed

theorem partial_send_faults_witness:
  "\<exists>s :: session1. up_inv s \<and> length (pendingUp s) = 3000 \<and>
    (\<forall>N' q v. \<not> fault_free (snd (snd (flushDataToServer1 demo_ops1 N'
       (fst (flushDataToServer1 demo_ops1 (demo_net1 (\<lambda>_. 2000) [] 0) s demo_packet empty_world)) q v))))"
proof -
  let ?s = "demo_session1\<lparr>receiveNext := 3101\<rparr>"
  have inv: "up_inv ?s" and len: "length (pendingUp ?s) = 3000"
    by (simp_all add: up_inv_def pendingUp_def finUp_def)
  obtain s' p' w' where r: "flushDataToServer1 demo_ops1 (demo_net1 (\<lambda>_. 2000) [] 0) ?s
      demo_packet empty_world = (s', p', w')"
    by (metis prod_cases3)
  have "\<forall>N' q v. \<not> fault_free (snd (snd (flushDataToServer1 demo_ops1 N' s' q v)))"
    using partial_send_faults [OF inv _ _ _ _ _ _ r, of 2000] len by simp
  with inv len r show ?thesis by (intro exI [of _ ?s]) simp
qed

section \<open>The wrap-around of the sequence numbers\<close>

text \<open>
  C10. The pointer arithmetic does not wrap where the sequence numbers do. When the client's
  sequence numbers pass \<open>2 ^ 32\<close> while the base of the buffer is still below it, the
  advertised room is still computed correctly, but an in-order segment that fits in it is
  copied to an address about 4 GiB before the buffer.
\<close>

theorem sequence_wrap_faults:
  assumes "payload_laws1 P" and "state s = ESTABLISHED" and "\<not> clientReadFinished s"
    and "\<not> isSyn P p" and "\<not> isReset P p" and "isAck P p"
    and "getSequenceNumber P p = receiveNext s"
    and "receiveNext s < receiveSequence s"
    and "unat (receiveNext s - receiveSequence s) + length (payload P p) \<le> 16384"
    and "receiveFromClient1 P N s p w = (s', p', w')"
  shows "unat (getReceiveAvailable s) = 16384 - unat (receiveNext s - receiveSequence s) \<and>
    length (payload P p) \<le> unat (getReceiveAvailable s) \<and> \<not> fault_free w'"
proof -
  let ?d = "receiveNext s - receiveSequence s"
  let ?s1 = "s\<lparr>sendUnacknowledged := max (sendUnacknowledged s) (getAcknowledgmentNumber P p),
               retryCount := 0\<rparr>"
  have av: "getReceiveAvailable s = RECEIVE_BUFFER_SIZE - ?d"
    by (simp add: getReceiveAvailable_def)
  have "?d \<le> RECEIVE_BUFFER_SIZE" using assms(9) by (simp add: word_le_nat_alt)
  then have room: "unat (getReceiveAvailable s) = 16384 - unat ?d" by (simp add: av unat_sub)
  have fits: "length (payload P p) \<le> unat (getReceiveAvailable s)" using room assms(9) by simp
  then have "\<not> getDataLength P p > getReceiveAvailable s"
    by (simp add: word_less_nat_alt unat_getDataLength [OF assms(1)])
  then have mr: "makeRoom1 P N (getDataLength P p) ?s1 p w = (?s1, p, w)"
    by (simp add: makeRoom1_def getReceiveAvailable_def)
  obtain s3 w3 where st: "storeSegment1 P (getDataLength P p) ?s1 p w = (s3, w3)" by fastforce
  obtain s4 p4 w4 where fl: "flushDataToServer1 P N s3 p w3 = (s4, p4, w4)" by (metis prod_cases3)
  have "\<not> 0 \<le> ptr_off (receiveNext s) (receiveSequence s)"
    using ptr_off_neg [OF assms(8)] by simp
  then have w3: "\<not> fault_free w3" using st by (auto simp: storeSegment1_def Let_def)
  then have w4: "\<not> fault_free w4" using flush_fault [of P N s3 p w3] fl by auto
  have "(if state s4 = CLOSED then (s4, p4, w4)
      else completeOrAcknowledge1 P N s4 p4 w4) = (s', p', w')"
    using assms(2-7,10) mr st fl by (simp add: receiveFromClient1_def receiveEstablished1_def Let_def)
  then have "\<not> fault_free w'"
    using w4 completeOrAcknowledge_up(1) [of P N s4 p4 w4 s' p' w'] by (auto split: if_splits)
  with room fits show ?thesis by simp
qed

theorem sequence_wrap_faults_witness:
  "\<not> fault_free (snd (snd (receiveFromClient1 demo_ops1 all_net1
     (demo_session1\<lparr>receiveSequence := - 4, receiveUser := - 4, receiveNext := 2\<rparr>)
     (demo_segment1 2 [65]) empty_world)))"
proof -
  let ?s = "demo_session1\<lparr>receiveSequence := - 4, receiveUser := - 4, receiveNext := 2\<rparr>"
  obtain s' p' w' where r: "receiveFromClient1 demo_ops1 all_net1 ?s (demo_segment1 2 [65]) empty_world
      = (s', p', w')"
    by (metis prod_cases3)
  have "\<not> fault_free w'"
    using sequence_wrap_faults [OF demo_laws1(2) _ _ _ _ _ _ _ _ r] by simp
  with r show ?thesis by simp
qed

section \<open>A FIN without data\<close>

text \<open>
  A FIN without data is not passed on. When the client closes its half in a segment of
  its own (the usual case) and everything before it was flushed, the session records
  the FIN but the test of \<open>isUpStreamComplete\<close>, which is already true, returns before the branch that would
  shut down the server's socket, and the delayed acknowledgment returns for the same
  reason: nothing is sent to the server and nothing to the client.
\<close>

theorem bare_fin_not_forwarded:
  assumes "payload_laws1 P" and "up_inv s" and "state s = ESTABLISHED"
    and "\<not> clientReadFinished s" and "receiveUser s = receiveNext s"
    and "\<not> serverReadFinished s"
    and "\<not> isSyn P p" and "\<not> isReset P p" and "isAck P p" and "isFin P p"
    and "payload P p = []" and "getSequenceNumber P p = receiveNext s"
    and "unat (receiveNext s) + 1 < 2 ^ 32"
    and "receiveFromClient1 P N s p w = (s', p', w')"
  shows "state s' = ESTABLISHED \<and> clientReadFinished s' \<and>
    receiveNext s' = receiveNext s + 1 \<and> w' = w"
proof -
  let ?s1 = "s\<lparr>sendUnacknowledged := max (sendUnacknowledged s) (getAcknowledgmentNumber P p),
               retryCount := 0\<rparr>"
  have L: "getDataLength P p = 0" using assms(11) by (simp add: payload_laws1D [OF assms(1)])
  have mr: "makeRoom1 P N 0 ?s1 p w = (?s1, p, w)" by (simp add: makeRoom1_def)
  obtain s3 w3 where st: "storeSegment1 P 0 ?s1 p w = (s3, w3)" by fastforce
  have i1: "up_inv ?s1" "\<not> clientReadFinished ?s1" using assms(2,4)
    by (simp_all add: up_inv_def finUp_def)
  have nw: "unat (receiveNext ?s1) + length (payload P p) + 1 < 2 ^ 32"
    using assms(11,13) by simp
  have bound: "receiveSequence ?s1 \<le> receiveNext ?s1"
    "unat (receiveNext ?s1) - unat (receiveSequence ?s1) \<le> 16384"
    using up_invD [OF assms(2)] assms(4) by (auto simp: word_le_nat_alt finUp_def)
  have w3: "w3 = w" using storeSegment_in_bounds [OF bound assms(1), of 0 p w] st by simp
  have cd: "copyDataTo P n p = []" for n using assms(11) by (simp add: payload_laws1D [OF assms(1)])
  have s3_eq: "s3 = fst (storeSegment1 P 0 ?s1 p w)" using st by simp
  have s3: "state s3 = ESTABLISHED" "clientReadFinished s3" "receiveNext s3 = receiveNext s + 1"
    "receiveUser s3 = receiveNext s" "\<not> serverReadFinished s3"
    unfolding s3_eq storeSegment1_def Let_def fst_conv cd using assms L by simp_all
  then have up: "isUpStreamComplete s3" by (simp add: isUpStreamComplete_def)
  then have fl: "flushDataToServer1 P N s3 p w3 = (s3, p, w3)" by (simp add: flushDataToServer1_def)
  have "completeOrAcknowledge1 P N s3 p w3 = (s3, p, w3)"
    using up s3(5)
    by (simp add: completeOrAcknowledge1_def isDownStreamComplete_def acknowledgeDelayed1_def)
  then have "s' = s3 \<and> w' = w"
    using assms(3,4,7,8,9,12,14) L mr st fl s3(1) w3
    by (simp add: receiveFromClient1_def receiveEstablished1_def Let_def)
  with s3 show ?thesis by simp
qed

theorem bare_fin_not_forwarded_witness:
  "snd (snd (receiveFromClient1 demo_ops1 all_net1 demo_session1
     ((demo_segment1 101 [])\<lparr>dp_fin := True\<rparr>) empty_world)) = empty_world"
proof -
  let ?p = "(demo_segment1 101 [])\<lparr>dp_fin := True\<rparr>"
  obtain s' p' w' where r: "receiveFromClient1 demo_ops1 all_net1 demo_session1 ?p empty_world
      = (s', p', w')"
    by (metis prod_cases3)
  have "w' = empty_world"
    using bare_fin_not_forwarded [OF demo_laws1(2) demo_session1_up(1) _ _ _ _ _ _ _ _ _ _ _ r] by simp
  with r show ?thesis by simp
qed

end
