(* ===== verification/SessionV1_Down.thy ===== *)
theory SessionV1_Down
  imports SessionV1_Demo
begin

text \<open>
  The server-to-client half of the session: what the send loop puts on the wire, when it
  returns, and how the send buffer refines the byte stream received from the server. The
  reference for the loop is \<open>split_stream\<close>, which cuts a byte stream into segments.
\<close>

section \<open>What is assumed of the outside\<close>

definition send_laws1 :: "('p, 'x) packet_ops1_scheme \<Rightarrow> bool" where
  "send_laws1 P \<longleftrightarrow> header_laws P \<and>
    (\<forall>p. payload P (clearData P p) = [] \<and>
         payloadCapacity P (clearData P p) = payloadCapacity P p \<and>
         isFin P (clearData P p) = isFin P p \<and>
         getSequenceNumber P (clearData P p) = getSequenceNumber P p \<and>
         getAcknowledgmentNumber P (clearData P p) = getAcknowledgmentNumber P p \<and>
         getSource P (clearData P p) = getSource P p \<and>
         getDestination P (clearData P p) = getDestination P p) \<and>
    (\<forall>bs p. length (payload P p) + length bs \<le> payloadCapacity P p \<longrightarrow>
         payload P (appendData P bs p) = payload P p @ bs) \<and>
    (\<forall>bs p. isFin P (appendData P bs p) = isFin P p \<and>
         getSequenceNumber P (appendData P bs p) = getSequenceNumber P p \<and>
         getAcknowledgmentNumber P (appendData P bs p) = getAcknowledgmentNumber P p \<and>
         getSource P (appendData P bs p) = getSource P p \<and>
         getDestination P (appendData P bs p) = getDestination P p) \<and>
    (\<forall>a b p. getSource P (setEnds P a b p) = a \<and> getDestination P (setEnds P a b p) = b)"

lemma send_laws1_header: "send_laws1 P \<Longrightarrow> header_laws P"
  by (simp add: send_laws1_def)

lemma clearData_laws [ext_laws]:
  "send_laws1 P \<Longrightarrow> payload P (clearData P p) = []"
  "send_laws1 P \<Longrightarrow> payloadCapacity P (clearData P p) = payloadCapacity P p"
  "send_laws1 P \<Longrightarrow> isFin P (clearData P p) = isFin P p"
  "send_laws1 P \<Longrightarrow> getSequenceNumber P (clearData P p) = getSequenceNumber P p"
  "send_laws1 P \<Longrightarrow> getAcknowledgmentNumber P (clearData P p) = getAcknowledgmentNumber P p"
  "send_laws1 P \<Longrightarrow> getSource P (clearData P p) = getSource P p"
  "send_laws1 P \<Longrightarrow> getDestination P (clearData P p) = getDestination P p"
  by (simp_all add: send_laws1_def)

lemma appendData_laws [ext_laws]:
  "send_laws1 P \<Longrightarrow> length (payload P p) + length bs \<le> payloadCapacity P p \<Longrightarrow>
   payload P (appendData P bs p) = payload P p @ bs"
  "send_laws1 P \<Longrightarrow> isFin P (appendData P bs p) = isFin P p"
  "send_laws1 P \<Longrightarrow> getSequenceNumber P (appendData P bs p) = getSequenceNumber P p"
  "send_laws1 P \<Longrightarrow> getAcknowledgmentNumber P (appendData P bs p) = getAcknowledgmentNumber P p"
  "send_laws1 P \<Longrightarrow> getSource P (appendData P bs p) = getSource P p"
  "send_laws1 P \<Longrightarrow> getDestination P (appendData P bs p) = getDestination P p"
  by (simp_all add: send_laws1_def)

lemma setEnds_laws [ext_laws]:
  "send_laws1 P \<Longrightarrow> getSource P (setEnds P a b p) = a"
  "send_laws1 P \<Longrightarrow> getDestination P (setEnds P a b p) = b"
  unfolding send_laws1_def by blast+

section \<open>The reference: cutting a stream into segments\<close>

text \<open>\<open>split_stream m f bs\<close>: segments of at most \<open>m\<close> bytes, the last one marked when \<open>f\<close>.\<close>

function split_stream :: "nat \<Rightarrow> bool \<Rightarrow> byte list \<Rightarrow> (byte list \<times> bool) list" where
  "split_stream m f bs =
    (if m = 0 \<or> bs = [] then (if f then [([], True)] else [])
     else if length bs \<le> m then [(bs, f)]
     else (take m bs, False) # split_stream m f (drop m bs))"
  by pat_completeness auto
termination by (relation "measure (\<lambda>(m, f, bs). length bs)") auto

declare split_stream.simps [simp del]

lemma split_stream_concat: "0 < m \<Longrightarrow> concat (map fst (split_stream m f bs)) = bs"
  by (induction m f bs rule: split_stream.induct)
    (subst split_stream.simps, simp)

lemma split_stream_bound: "x \<in> set (split_stream m f bs) \<Longrightarrow> length (fst x) \<le> m"
proof (induction m f bs rule: split_stream.induct)
  case (1 m f bs)
  then show ?case
    by (subst (asm) (2) split_stream.simps) (auto split: if_splits)
qed

lemma split_stream_Nil: "split_stream m f bs = [] \<longleftrightarrow> \<not> f \<and> (m = 0 \<or> bs = [])"
  by (subst split_stream.simps) simp

lemma split_stream_fin_only_last: "x \<in> set (butlast (split_stream m f bs)) \<Longrightarrow> \<not> snd x"
proof (induction m f bs rule: split_stream.induct)
  case (1 m f bs)
  show ?case
  proof (cases "m = 0 \<or> bs = [] \<or> length bs \<le> m")
    case True
    then have "butlast (split_stream m f bs) = []" by (subst split_stream.simps) auto
    with 1(2) show ?thesis by simp
  next
    case False
    then have "split_stream m f bs = (take m bs, False) # split_stream m f (drop m bs)"
      by (subst split_stream.simps) auto
    with 1 False show ?thesis by (auto split: if_splits)
  qed
qed

lemma split_stream_fin_last:
  "split_stream m f bs \<noteq> [] \<Longrightarrow> snd (last (split_stream m f bs)) = f"
proof (induction m f bs rule: split_stream.induct)
  case (1 m f bs)
  then show ?case
    by (subst split_stream.simps) (auto simp: split_stream_Nil)
qed

section \<open>The invariant of the send side\<close>

definition finDown :: "session1 \<Rightarrow> nat" where
  "finDown s = (if serverReadFinished s then 1 else 0)"

definition down_inv :: "session1 \<Rightarrow> bool" where
  "down_inv s \<longleftrightarrow> sendBuffer s \<noteq> None \<and>
     sendSequence s \<le> sendUnacknowledged s \<and> sendUnacknowledged s \<le> sendNext s \<and>
     sendNext s \<le> sendNewDataSequence s \<and>
     unat (sendSequence s) + finDown s \<le> unat (sendNewDataSequence s) \<and>
     unat (sendNewDataSequence s) \<le> unat (sendSequence s) + unat (sendLength s) + finDown s \<and>
     unat (sendLength s) < 2 ^ 31"

definition sendMem :: "session1 \<Rightarrow> mem" where
  "sendMem s = (case sendBuffer s of None \<Rightarrow> (\<lambda>_. 0) | Some m \<Rightarrow> m)"

text \<open>The server's bytes from sequence number \<open>q\<close> on, without the place of the FIN.\<close>

definition bytesFrom :: "session1 \<Rightarrow> u32 \<Rightarrow> byte list" where
  "bytesFrom s q = mem_read (sendMem s) (unat q - unat (sendSequence s))
                     (unat (sendNewDataSequence s) - unat q - finDown s)"

definition pendingDown :: "session1 \<Rightarrow> byte list" where
  "pendingDown s = bytesFrom s (sendUnacknowledged s)"

lemma down_invD:
  assumes "down_inv s"
  shows "unat (sendSequence s) \<le> unat (sendUnacknowledged s)"
    and "unat (sendUnacknowledged s) \<le> unat (sendNext s)"
    and "unat (sendNext s) \<le> unat (sendNewDataSequence s)"
    and "unat (sendSequence s) + finDown s \<le> unat (sendNewDataSequence s)"
    and "unat (sendNewDataSequence s) \<le> unat (sendSequence s) + unat (sendLength s) + finDown s"
    and "unat (sendLength s) < 2 ^ 31"
  using assms by (auto simp: down_inv_def word_le_nat_alt)

text \<open>The same without the order of the three pointers: what the send loop needs.\<close>

definition send_window :: "session1 \<Rightarrow> u32 \<Rightarrow> bool" where
  "send_window s q \<longleftrightarrow> sendBuffer s \<noteq> None \<and> sendSequence s \<le> q \<and>
     unat (sendNewDataSequence s) \<le> unat (sendSequence s) + unat (sendLength s) + finDown s"

lemma down_inv_window:
  "down_inv s \<Longrightarrow> sendUnacknowledged s \<le> q \<Longrightarrow> send_window s q"
  by (auto simp: down_inv_def send_window_def)

section \<open>The send loop\<close>

lemma unat_remaining:
  assumes "q < sendNewDataSequence s"
  shows "unat (sendNewDataSequence s - q - (if serverReadFinished s then 1 else 0)) =
    unat (sendNewDataSequence s) - unat q - finDown s"
  using assms
  by (simp add: finDown_def unat_minus_1 unat_diff_le less_imp_le word_less_nat_alt)

lemma bound_aux:
  assumes win: "send_window s q" and lt: "q < sendNewDataSequence s"
    and len: "n \<le> unat (sendNewDataSequence s) - unat q - finDown s"
  shows "0 \<le> ptr_off q (sendSequence s) \<and>
      ptr_off q (sendSequence s) + int n \<le> int (unat (sendLength s)) \<and> sendBuffer s \<noteq> None"
proof -
  have le: "sendSequence s \<le> q" using win by (simp add: send_window_def)
  have "unat q < unat (sendNewDataSequence s)" using lt by (simp add: word_less_nat_alt)
  moreover have "finDown s \<le> 1" by (simp add: finDown_def)
  ultimately have "unat q - unat (sendSequence s) + n \<le> unat (sendLength s)"
    using win len le unfolding send_window_def word_le_nat_alt by linarith
  from ptr_off_bound [OF le this] win show ?thesis by (simp add: send_window_def)
qed

lemma nextSegment_spec:
  assumes laws: "send_laws1 P" and cap: "unat (mss s) \<le> payloadCapacity P p"
    and win: "send_window s q" and lt: "q < sendNewDataSequence s"
    and r: "nextSegment1 P s q p w = (q', p', w')"
  shows "w' = writePacket p' w" and "payload P p' = take (unat (mss s)) (bytesFrom s q)"
    and "isFin P p' = (serverReadFinished s \<and> length (bytesFrom s q) \<le> unat (mss s))"
    and "getSequenceNumber P p' = q" and "getAcknowledgmentNumber P p' = receiveNext s"
    and "getSource P p' = getSource P p" and "getDestination P p' = getDestination P p"
    and "unat q' = unat q + length (payload P p') + (if isFin P p' then 1 else 0)"
    and "q \<le> q' \<and> q' \<le> sendNewDataSequence s"
proof -
  note H = send_laws1_header [OF laws]
  let ?fin = "if serverReadFinished s then 1 else 0 :: u32"
  let ?n = "unat (sendNewDataSequence s) - unat q - finDown s"
  let ?len = "min (sendNewDataSequence s - q - ?fin) (ucast (mss s))"
  have n: "unat (sendNewDataSequence s - q - ?fin) = ?n" by (rule unat_remaining [OF lt])
  have ltn: "unat q < unat (sendNewDataSequence s)" using lt by (simp add: word_less_nat_alt)
  have ld: "length (bytesFrom s q) = ?n" by (simp add: bytesFrom_def)
  have len: "unat ?len = min ?n (unat (mss s))"
    using n by (auto simp: min_def word_le_nat_alt)
  have le: "sendSequence s \<le> q" using win by (simp add: send_window_def)
  have bytes: "mem_read (sendMem s) (nat (ptr_off q (sendSequence s))) (unat ?len) =
      take (unat (mss s)) (bytesFrom s q)"
    using len by (auto simp: bytesFrom_def take_mem_read ptr_off_nat [OF le] min_def)
  have sum: "unat (q + ?len) = unat q + min ?n (unat (mss s))"
    using len ltn u32_less [of "sendNewDataSequence s"]
    by (subst unat_add_small') auto
  have last: "serverReadFinished s \<and> q + ?len = sendNewDataSequence s - 1 \<longleftrightarrow>
      serverReadFinished s \<and> ?n \<le> unat (mss s)"
  proof (cases "serverReadFinished s")
    case True
    then have "q + ?len = sendNewDataSequence s - 1 \<longleftrightarrow>
        unat q + min ?n (unat (mss s)) = unat (sendNewDataSequence s) - 1"
      using sum ltn by (metis (no_types, lifting) unat_minus_1 word_unat_eq_iff gr_implies_not0 neq0_conv)
    also have "\<dots> \<longleftrightarrow> ?n \<le> unat (mss s)" using True ltn by (auto simp: finDown_def min_def)
    finally show ?thesis by simp
  qed simp
  have bound: "0 \<le> ptr_off q (sendSequence s) \<and>
      ptr_off q (sendSequence s) + int (unat ?len) \<le> int (unat (sendLength s)) \<and> sendBuffer s \<noteq> None"
    by (rule bound_aux [OF win lt]) (simp only: len min.cobounded1)
  have lp: "length (take (unat (mss s)) (bytesFrom s q)) = min ?n (unat (mss s))"
    by (simp add: ld min.commute)
  define p4 where "p4 = appendData P (take (unat (mss s)) (bytesFrom s q))
    (clearData P (setWindowSize P (ucast (getReceiveAvailable s)) (makeNormal P q (receiveNext s) p)))"
  have p4: "payload P p4 = take (unat (mss s)) (bytesFrom s q)" "\<not> isFin P p4"
    "getSequenceNumber P p4 = q" "getAcknowledgmentNumber P p4 = receiveNext s"
    "getSource P p4 = getSource P p" "getDestination P p4 = getDestination P p"
    using cap by (simp_all add: p4_def ext_laws laws H)
  let ?last = "serverReadFinished s \<and> ?n \<le> unat (mss s)"
  have e: "q' = (if ?last then q + ?len + 1 else q + ?len)"
    "p' = (if ?last then setFinFlag P True p4 else p4)" "w' = writePacket p' w"
    using r unfolding nextSegment1_def Let_def bytes [unfolded sendMem_def] last
      p4_def [symmetric] check_bounds_def if_P [OF bound] by auto
  show "w' = writePacket p' w" by (rule e(3))
  show pl: "payload P p' = take (unat (mss s)) (bytesFrom s q)"
    using p4(1) by (simp add: e(2) ext_laws H)
  show fin: "isFin P p' = (serverReadFinished s \<and> length (bytesFrom s q) \<le> unat (mss s))"
    using p4(2) by (simp add: e(2) ext_laws H ld)
  show "getSequenceNumber P p' = q" "getAcknowledgmentNumber P p' = receiveNext s"
    "getSource P p' = getSource P p" "getDestination P p' = getDestination P p"
    using p4(3-6) by (simp_all add: e(2) ext_laws H)
  have sum1: "unat (q + ?len + 1) = unat q + ?n + 1" if ?last
    using that sum ltn u32_less [of "sendNewDataSequence s"]
    by (subst unat_add_small') (auto simp: finDown_def)
  show u: "unat q' = unat q + length (payload P p') + (if isFin P p' then 1 else 0)"
    using sum sum1 pl lp by (auto simp: e(1) fin ld)
  show "q \<le> q' \<and> q' \<le> sendNewDataSequence s"
    using u pl lp ltn by (auto simp: fin ld word_le_nat_alt finDown_def)
qed

lemma fold_writePacket [simp]:
  "written (log (fold writePacket ps w)) = written (log w) @ ps"
  "accepted f (log (fold writePacket ps w)) = accepted f (log w)"
  "fault_free (fold writePacket ps w) = fault_free w"
  "receiveSet (fold writePacket ps w) = receiveSet w"
  "length (log (fold writePacket ps w)) = length (log w) + length ps"
  by (induction ps arbitrary: w) (simp_all add: writePacket_def)

text \<open>The segments the loop writes, as a relation to the start of the stream.\<close>

definition segments_of ::
  "('p, 'x) packet_ops1_scheme \<Rightarrow> session1 \<Rightarrow> u32 \<Rightarrow> 'p \<Rightarrow> 'p list \<Rightarrow> bool" where
  "segments_of P s q p ps \<longleftrightarrow>
    map (\<lambda>x. (payload P x, isFin P x)) ps =
      (if q < sendNewDataSequence s
       then split_stream (unat (mss s)) (serverReadFinished s) (bytesFrom s q) else []) \<and>
    (\<forall>i < length ps. getSequenceNumber P (ps ! i) =
       q + word_of_nat (length (concat (map (payload P) (take i ps))))) \<and>
    (\<forall>x \<in> set ps. getAcknowledgmentNumber P x = receiveNext s \<and>
       getSource P x = getSource P p \<and> getDestination P x = getDestination P p)"

lemma segments_of_done: "\<not> q < sendNewDataSequence s \<Longrightarrow> segments_of P s q p []"
  by (simp add: segments_of_def)

lemma drop_bytesFrom:
  assumes "sendSequence s \<le> q" and "unat q' = unat q + k"
  shows "bytesFrom s q' = drop k (bytesFrom s q)"
proof -
  have "unat q + k - unat (sendSequence s) = unat q - unat (sendSequence s) + k"
    using assms(1) by (simp add: word_le_nat_alt)
  then show ?thesis using assms(2) by (simp add: bytesFrom_def drop_mem_read ac_simps)
qed

lemma segments_of_step:
  assumes laws: "send_laws1 P" and cap: "unat (mss s) \<le> payloadCapacity P p"
    and win: "send_window s q" and lt: "q < sendNewDataSequence s" and m: "0 < mss s"
    and r: "nextSegment1 P s q p w = (q', p', w')" and ps: "segments_of P s q' p' ps"
  shows "segments_of P s q p (p' # ps)"
proof -
  note n = nextSegment_spec [OF laws cap win lt r]
  let ?m = "unat (mss s)" and ?d = "bytesFrom s q"
  have le: "sendSequence s \<le> q" using win by (simp add: send_window_def)
  have m0: "0 < ?m" using m by (simp add: word_gt_0 unat_gt_0)
  have ltn: "unat q < unat (sendNewDataSequence s)" using lt by (simp add: word_less_nat_alt)
  have ld: "length ?d = unat (sendNewDataSequence s) - unat q - finDown s"
    by (simp add: bytesFrom_def)
  have lp: "length (payload P p') = min (length ?d) ?m" using n(2) by (simp add: min.commute)
  have split: "map (\<lambda>x. (payload P x, isFin P x)) (p' # ps) =
      split_stream ?m (serverReadFinished s) ?d"
  proof (cases "length ?d \<le> ?m")
    case True
    then have "unat q' = unat (sendNewDataSequence s)"
      using n(8) n(3) lp ld ltn by (auto simp: finDown_def)
    then have "ps = []" using ps by (simp add: segments_of_def word_less_nat_alt)
    moreover have "serverReadFinished s \<or> ?d \<noteq> []"
      using ld ltn by (auto simp: finDown_def)
    ultimately show ?thesis using True n(2,3) m0
      by (subst split_stream.simps) auto
  next
    case False
    then have q': "unat q' = unat q + ?m" using n(3,8) lp by simp
    have "q' < sendNewDataSequence s"
      using q' False ld by (simp add: word_less_nat_alt)
    then have "map (\<lambda>x. (payload P x, isFin P x)) ps =
        split_stream ?m (serverReadFinished s) (drop ?m ?d)"
      using ps drop_bytesFrom [OF le q'] by (simp add: segments_of_def)
    moreover have "split_stream ?m (serverReadFinished s) ?d =
        (take ?m ?d, False) # split_stream ?m (serverReadFinished s) (drop ?m ?d)"
      using False m0 by (subst split_stream.simps) auto
    ultimately show ?thesis using False n(2,3) by simp
  qed
  have seq: "getSequenceNumber P ((p' # ps) ! i) =
      q + word_of_nat (length (concat (map (payload P) (take i (p' # ps)))))"
    if i: "i < length (p' # ps)" for i
  proof (cases i)
    case 0
    then show ?thesis using n(4) by simp
  next
    case (Suc j)
    then have j: "j < length ps" using i by simp
    then have "ps \<noteq> []" by auto
    then have "q' < sendNewDataSequence s" using ps by (auto simp: segments_of_def split: if_splits)
    then have "\<not> isFin P p'" using n(3,8) lp ld ltn by (auto simp: word_less_nat_alt finDown_def)
    then have "unat q' = unat q + length (payload P p')" using n(8) by simp
    then have "q' = q + word_of_nat (length (payload P p'))"
      by (metis of_nat_add of_nat_unat ucast_id)
    moreover have "getSequenceNumber P (ps ! j) =
        q' + word_of_nat (length (concat (map (payload P) (take j ps))))"
      using ps j by (simp add: segments_of_def)
    ultimately show ?thesis using Suc by (simp add: add.assoc)
  qed
  show ?thesis
    using split seq lt n(5-7) ps unfolding segments_of_def by auto
qed

lemma send_loop:
  assumes laws: "send_laws1 P" and cap: "\<And>p. unat (mss s) \<le> payloadCapacity P p"
    and m: "0 < mss s" and win: "send_window s q"
  shows "\<exists>p' ps. sendDataStartingFrom1 P s q p w = Some (p', fold writePacket ps w) \<and>
    segments_of P s q p ps"
  using win
proof (induction "unat (sendNewDataSequence s) - unat q" arbitrary: q p w rule: less_induct)
  case less
  show ?case
  proof (cases "q < sendNewDataSequence s")
    case False
    then show ?thesis
      by (subst sendDataStartingFrom1.simps) (auto intro!: exI [of _ "[]"] segments_of_done)
  next
    case True
    obtain q' p' w' where r: "nextSegment1 P s q p w = (q', p', w')" by (metis prod_cases3)
    note n = nextSegment_spec [OF laws cap less.prems True r]
    have "0 < length (payload P p') + (if isFin P p' then 1 else 0)"
      using n(2,3) m True by (auto simp: bytesFrom_def finDown_def word_less_nat_alt word_gt_0)
    then have qq: "unat q < unat q'" using n(8) by linarith
    moreover have "unat q < unat (sendNewDataSequence s)" using True by (simp add: word_less_nat_alt)
    ultimately have d: "unat (sendNewDataSequence s) - unat q' < unat (sendNewDataSequence s) - unat q"
      by linarith
    have win': "send_window s q'" using less.prems n(9) by (auto simp: send_window_def)
    obtain p2 ps where ih: "sendDataStartingFrom1 P s q' p' w' = Some (p2, fold writePacket ps w')"
      "segments_of P s q' p' ps"
      using less.hyps [OF d win'] by blast
    have "sendDataStartingFrom1 P s q p w = Some (p2, fold writePacket (p' # ps) w)"
      using True r ih(1) n(1) by (subst sendDataStartingFrom1.simps) simp
    with segments_of_step [OF laws cap less.prems True m r ih(2)] show ?thesis by blast
  qed
qed

section \<open>The flush to the client\<close>

text \<open>
  Where a flush starts sending: at the first unacknowledged byte after a timeout, at the first unsent byte
  when a segment is full or the server has finished, nowhere otherwise.
\<close>

definition flushStart1 :: "session1 \<Rightarrow> int \<Rightarrow> u32 option" where
  "flushStart1 s now =
    (if isDownStreamComplete s then None
     else if sendUnacknowledged s < sendNewDataSequence s \<and> (now - lastSendTime s) sdiv 4 > rtt s
     then if retryCount s = SEND_MAX_RETRIES then None else Some (sendUnacknowledged s)
     else if serverReadFinished s \<and> sendNext s < sendNewDataSequence s \<or>
             sendNewDataSequence s - sendNext s > ucast (mss s)
     then Some (sendNext s)
     else None)"

lemma bytesFrom_cong:
  "sendBuffer s = sendBuffer t \<Longrightarrow> sendSequence s = sendSequence t \<Longrightarrow>
   sendNewDataSequence s = sendNewDataSequence t \<Longrightarrow> serverReadFinished s = serverReadFinished t \<Longrightarrow>
   bytesFrom s q = bytesFrom t q"
  by (simp add: bytesFrom_def finDown_def sendMem_def)

lemma segments_of_cong:
  "sendBuffer s = sendBuffer t \<Longrightarrow> sendSequence s = sendSequence t \<Longrightarrow>
   sendNewDataSequence s = sendNewDataSequence t \<Longrightarrow> serverReadFinished s = serverReadFinished t \<Longrightarrow>
   mss s = mss t \<Longrightarrow> receiveNext s = receiveNext t \<Longrightarrow> segments_of P s q p = segments_of P t q p"
  by (rule ext) (simp add: segments_of_def bytesFrom_cong [of s t])

text \<open>The half of the session that a flush to the client never touches, and what it keeps.\<close>

definition up_view where
  "up_view s = (clientReadFinished s, mSock s, source s, destination s, mss s, receiveBuffer s,
     receiveSequence s, receiveUser s, receiveNext s, receivePushSequence s)"

definition down_kept where
  "down_kept s = (serverReadFinished s, sendBuffer s, sendLength s, sendSequence s,
     sendUnacknowledged s, sendNewDataSequence s)"

lemma closeIfUpStreamComplete_simps:
  "fst (closeIfUpStreamComplete1 s p w) =
     (if isUpStreamComplete s then s\<lparr>state := CLOSED\<rparr> else s)"
  "fst (snd (closeIfUpStreamComplete1 s p w)) = p"
  "written (log (snd (snd (closeIfUpStreamComplete1 s p w)))) = written (log w)"
  "accepted f (log (snd (snd (closeIfUpStreamComplete1 s p w)))) = accepted f (log w)"
  "fault_free (snd (snd (closeIfUpStreamComplete1 s p w))) = fault_free w"
  "receiveSet (snd (snd (closeIfUpStreamComplete1 s p w))) \<subseteq> receiveSet w"
  by (simp_all add: closeIfUpStreamComplete1_def Let_def closeSession1_def case_prod_unfold
      fault_free_def)

lemma sendFrom_spec:
  assumes laws: "send_laws1 P" and cap: "\<And>p. unat (mss s) \<le> payloadCapacity P p"
    and m: "0 < mss s" and win: "send_window s q"
  shows "\<exists>s' p' w' ps. sendFrom1 P s q now p w = Some (s', p', w') \<and>
    segments_of P s q (setEnds P (destination s) (source s) p) ps \<and>
    written (log w') = written (log w) @ ps \<and> accepted f (log w') = accepted f (log w) \<and>
    fault_free w' = fault_free w \<and> receiveSet w' \<subseteq> receiveSet w \<and>
    state s' = (if isUpStreamComplete s then CLOSED else state s) \<and>
    up_view s' = up_view s \<and> down_kept s' = down_kept s \<and> retryCount s' = retryCount s \<and>
    sendNext s' = sendNewDataSequence s"
proof -
  obtain p2 ps where l: "sendDataStartingFrom1 P s q (setEnds P (destination s) (source s) p) w =
      Some (p2, fold writePacket ps w)"
    "segments_of P s q (setEnds P (destination s) (source s) p) ps"
    using send_loop [OF laws cap m win] by blast
  let ?t = "s\<lparr>sendNext := sendNewDataSequence s, lastTimeAcknowledgmentAccepted := now,
               lastSendTime := now\<rparr>"
  define c where "c = closeIfUpStreamComplete1 ?t p2 (fold writePacket ps w)"
  have u: "isUpStreamComplete ?t = isUpStreamComplete s" by (simp add: isUpStreamComplete_def)
  have "sendFrom1 P s q now p w = Some c" using l(1) by (simp add: sendFrom1_def c_def)
  moreover have "up_view (fst c) = up_view s" "down_kept (fst c) = down_kept s"
    "retryCount (fst c) = retryCount s" "sendNext (fst c) = sendNewDataSequence s"
    "state (fst c) = (if isUpStreamComplete s then CLOSED else state s)"
    "written (log (snd (snd c))) = written (log w) @ ps"
    "accepted f (log (snd (snd c))) = accepted f (log w)"
    "fault_free (snd (snd c)) = fault_free w"
    by (simp_all add: c_def closeIfUpStreamComplete_simps u up_view_def down_kept_def)
  moreover have "receiveSet (snd (snd c)) \<subseteq> receiveSet w"
    using closeIfUpStreamComplete_simps(6) [of ?t p2 "fold writePacket ps w"] by (simp add: c_def)
  ultimately show ?thesis
    using l(2) by (cases c) auto
qed

lemma down_inv_cong:
  "down_kept s = down_kept t \<Longrightarrow> sendUnacknowledged s \<le> sendNext s \<Longrightarrow>
   sendNext s \<le> sendNewDataSequence s \<Longrightarrow> down_inv t \<Longrightarrow> down_inv s"
  by (auto simp: down_kept_def down_inv_def finDown_def)

lemma pendingDown_cong: "down_kept s = down_kept t \<Longrightarrow> pendingDown s = pendingDown t"
  by (simp add: down_kept_def pendingDown_def bytesFrom_def finDown_def sendMem_def)

lemma down_inv_sent: "down_inv s \<Longrightarrow> down_kept s' = down_kept s \<Longrightarrow>
  sendNext s' = sendNext s \<or> sendNext s' = sendNewDataSequence s \<Longrightarrow> down_inv s'"
  by (rule down_inv_cong [of s' s]) (auto simp: down_kept_def down_inv_def word_le_nat_alt)

lemma flush_client_spec:
  assumes laws: "send_laws1 P" and cap: "\<And>p. unat (mss s) \<le> payloadCapacity P p"
    and m: "0 < mss s" and inv: "down_inv s" and est: "state s = ESTABLISHED"
  shows "\<exists>s' p' w' ps. flushDataToClient1 P N s p w = Some (s', p', w') \<and>
    (case flushStart1 s (clock_now N (log w)) of None \<Rightarrow> ps = []
     | Some q \<Rightarrow> segments_of P s q (setEnds P (destination s) (source s) p) ps) \<and>
    written (log w') = written (log w) @ ps \<and> accepted f (log w') = accepted f (log w) \<and>
    fault_free w' = fault_free w \<and> (state s' = ESTABLISHED \<or> state s' = CLOSED) \<and>
    up_view s' = up_view s \<and> down_kept s' = down_kept s \<and> down_inv s' \<and>
    receiveSet w' \<subseteq> receiveSet w \<and>
    (retryCount s' = retryCount s \<or> retryCount s \<noteq> 3 \<and> retryCount s' = retryCount s + 1)"
proof -
  let ?now = "clock_now N (log w)"
  let ?w1 = "emit EvNow w"
  note H = send_laws1_header [OF laws]
  define s1 where "s1 = (if sendUnacknowledged s < sendNext s
    then s\<lparr>retryCount := retryCount s + 1\<rparr> else s)"
  have s1: "sendUnacknowledged s1 = sendUnacknowledged s" "state s1 = state s" "mss s1 = mss s"
    "isUpStreamComplete s1 = isUpStreamComplete s" "up_view s1 = up_view s"
    "down_kept s1 = down_kept s" "sendNewDataSequence s1 = sendNewDataSequence s"
    "destination s1 = destination s" "source s1 = source s"
    by (auto simp: s1_def up_view_def down_kept_def isUpStreamComplete_def)
  have rc1: "retryCount s1 = retryCount s \<or> retryCount s1 = retryCount s + 1"
    by (simp add: s1_def)
  have seg1: "segments_of P s1 a b = segments_of P s a b" for a b
    by (rule segments_of_cong) (simp_all add: s1_def)
  have win: "send_window s (sendUnacknowledged s)" "send_window s (sendNext s)"
    using inv by (auto intro: down_inv_window simp: down_inv_def)
  have win1: "send_window s1 (sendUnacknowledged s)"
    using win(1) s1(6) by (simp add: send_window_def down_kept_def finDown_def)
  show ?thesis
  proof (cases "flushStart1 s ?now")
    case None
    consider (a) "flushDataToClient1 P N s p w = Some (s, p, ?w1)"
      | (b) "flushDataToClient1 P N s p w =
          Some (fst (closeSession1 s ?w1), p, snd (closeSession1 s ?w1))"
      | (c) "flushDataToClient1 P N s p w = Some (closeIfUpStreamComplete1 s p ?w1)"
      using None est by (auto simp: flushDataToClient1_def flushStart1_def Let_def case_prod_unfold
          split: if_splits)
    then show ?thesis
    proof cases
      case a
      then show ?thesis using None est inv by simp
    next
      case b
      have "down_inv (s\<lparr>state := CLOSED\<rparr>)"
        using inv by (rule down_inv_sent) (simp_all add: down_kept_def)
      then show ?thesis using None b by (auto simp: up_view_def down_kept_def)
    next
      case c
      have "down_inv (s\<lparr>state := CLOSED\<rparr>)"
        using inv by (rule down_inv_sent) (simp_all add: down_kept_def)
      then show ?thesis using None c est inv
        by (cases "closeIfUpStreamComplete1 s p ?w1")
          (use closeIfUpStreamComplete_simps [where s = s and p = p and w = ?w1]
              closeIfUpStreamComplete_simps(6) [where s = s and p = p and w = ?w1] in
            \<open>auto simp: up_view_def down_kept_def\<close>)
    qed
  next
    case (Some q)
    have "flushDataToClient1 P N s p w = sendFrom1 P s1 q ?now p ?w1 \<and> q = sendUnacknowledged s \<and>
          retryCount s \<noteq> 3 \<or>
        flushDataToClient1 P N s p w = sendFrom1 P s q ?now p ?w1 \<and> q = sendNext s"
      using Some est s1(1) unfolding s1_def
      by (auto simp: flushDataToClient1_def flushStart1_def Let_def SEND_MAX_RETRIES_def
          split: if_splits)
    then show ?thesis
    proof
      assume a: "flushDataToClient1 P N s p w = sendFrom1 P s1 q ?now p ?w1 \<and>
        q = sendUnacknowledged s \<and> retryCount s \<noteq> 3"
      show ?thesis
        using sendFrom_spec [OF laws, where s = s1 and q = q and now = ?now and p = p and w = ?w1 and f = f] cap m win1 s1 rc1 a Some est
          down_inv_sent [OF inv]
        by (fastforce simp: s1 seg1)
    next
      assume a: "flushDataToClient1 P N s p w = sendFrom1 P s q ?now p ?w1 \<and> q = sendNext s"
      show ?thesis
        using sendFrom_spec [OF laws, where s = s and q = q and now = ?now and p = p and w = ?w1 and f = f] cap m win a Some est
          down_inv_sent [OF inv]
        by fastforce
    qed
  qed
qed

lemma flushStart_below:
  assumes "down_inv s" and "flushStart1 s now = Some q"
  shows "q < sendNewDataSequence s"
proof (cases "q = sendNext s \<and> sendNext s = sendNewDataSequence s")
  case True
  then show ?thesis using assms(2) by (simp add: flushStart1_def split: if_splits)
next
  case False
  moreover have "sendNext s \<le> sendNewDataSequence s" using assms(1) by (simp add: down_inv_def)
  moreover have "q = sendNext s \<or> q = sendUnacknowledged s \<and> q < sendNewDataSequence s"
    using assms(2) by (simp add: flushStart1_def split: if_splits)
  ultimately show ?thesis by (auto simp: order.strict_iff_order)
qed

text \<open>What the segments of a flush from \<open>q\<close> are.\<close>

lemma segments_shape:
  assumes "send_laws1 P" and "0 < mss s" and "q < sendNewDataSequence s"
    and so: "segments_of P s q (setEnds P (destination s) (source s) p) ps"
  shows "concat (map (payload P) ps) = bytesFrom s q \<and> ps \<noteq> [] \<and>
    isFin P (last ps) = serverReadFinished s \<and>
    (\<forall>x \<in> set (butlast ps). \<not> isFin P x) \<and>
    (\<forall>x \<in> set ps. length (payload P x) \<le> unat (mss s) \<and>
       getAcknowledgmentNumber P x = receiveNext s \<and>
       getSource P x = destination s \<and> getDestination P x = source s) \<and>
    (\<forall>i < length ps. getSequenceNumber P (ps ! i) =
       q + word_of_nat (length (concat (map (payload P) (take i ps)))))"
proof -
  let ?S = "split_stream (unat (mss s)) (serverReadFinished s) (bytesFrom s q)"
  have m: "0 < unat (mss s)" using assms(2) by (simp add: word_gt_0 unat_gt_0)
  have map: "map (\<lambda>x. (payload P x, isFin P x)) ps = ?S"
    using so assms(3) by (simp add: segments_of_def)
  have "map fst ?S = map (payload P) ps" using map [symmetric] by simp
  then have "concat (map (payload P) ps) = bytesFrom s q"
    using split_stream_concat [OF m, of "serverReadFinished s" "bytesFrom s q"] by simp
  moreover have "bytesFrom s q \<noteq> [] \<or> serverReadFinished s"
    using assms(3) by (auto simp: bytesFrom_def finDown_def word_less_nat_alt simp flip: length_0_conv)
  then have ne: "?S \<noteq> []" using m by (auto simp: split_stream_Nil)
  then have "ps \<noteq> []" using map by auto
  moreover have "isFin P (last ps) = serverReadFinished s"
    using split_stream_fin_last [OF ne] map \<open>ps \<noteq> []\<close> by (metis last_map snd_conv)
  moreover have "\<not> isFin P x" if "x \<in> set (butlast ps)" for x
    using split_stream_fin_only_last [of "(payload P x, isFin P x)" "unat (mss s)"
        "serverReadFinished s" "bytesFrom s q"] that
    by (auto simp: map_butlast [symmetric] simp flip: map)
  moreover have "length (payload P x) \<le> unat (mss s)" if "x \<in> set ps" for x
    using split_stream_bound [of "(payload P x, isFin P x)" "unat (mss s)"
        "serverReadFinished s" "bytesFrom s q"] that
    by (auto simp flip: map)
  ultimately show ?thesis
    using so by (auto simp: segments_of_def setEnds_laws [OF assms(1)])
qed

text \<open>
  C2. What a flush to the client sends. With a positive segment size and a send buffer in order, the flush
  returns. If it starts at sequence number q, the payloads of the packets it writes, one after the
  other, are exactly the buffered bytes of the server from q on; no packet is longer than the
  client's segment size; each carries the sequence number of its first byte, acknowledges
  all that was received and goes from the server's address to the client's; only the last one may carry
  the FIN, and does exactly when the server has finished. Otherwise nothing is written. The
  unacknowledged bytes stay in the buffer, and no access leaves it.
\<close>

theorem downstream_segments:
  assumes "send_laws1 P" and "\<forall>q. unat (mss s) \<le> payloadCapacity P q"
    and "0 < mss s" and "down_inv s" and "state s = ESTABLISHED"
  shows "\<exists>s' p' w' ps. flushDataToClient1 P N s p w = Some (s', p', w') \<and>
    written (log w') = written (log w) @ ps \<and> fault_free w' = fault_free w \<and>
    down_inv s' \<and> pendingDown s' = pendingDown s \<and>
    (case flushStart1 s (clock_now N (log w)) of None \<Rightarrow> ps = []
     | Some q \<Rightarrow> concat (map (payload P) ps) = bytesFrom s q \<and> ps \<noteq> [] \<and>
         isFin P (last ps) = serverReadFinished s \<and>
         (\<forall>x \<in> set (butlast ps). \<not> isFin P x) \<and>
         (\<forall>x \<in> set ps. length (payload P x) \<le> unat (mss s) \<and>
            getAcknowledgmentNumber P x = receiveNext s \<and>
            getSource P x = destination s \<and> getDestination P x = source s) \<and>
         (\<forall>i < length ps. getSequenceNumber P (ps ! i) =
            q + word_of_nat (length (concat (map (payload P) (take i ps))))))"
proof -
  obtain s' p' w' ps where f: "flushDataToClient1 P N s p w = Some (s', p', w')"
    "case flushStart1 s (clock_now N (log w)) of None \<Rightarrow> ps = []
     | Some q \<Rightarrow> segments_of P s q (setEnds P (destination s) (source s) p) ps"
    "written (log w') = written (log w) @ ps" "fault_free w' = fault_free w"
    "down_kept s' = down_kept s" "down_inv s'"
    using flush_client_spec [OF assms(1) _ assms(3-5), where p = p and N = N and w = w and f = 0] assms(2) by blast
  have "segments_of P s q (setEnds P (destination s) (source s) p) ps \<and> q < sendNewDataSequence s"
    if "flushStart1 s (clock_now N (log w)) = Some q" for q
    using f(2) that flushStart_below [OF assms(4) that] by simp
  note shape = segments_shape [OF assms(1,3) conjunct2 [OF this] conjunct1 [OF this]]
  have "pendingDown s' = pendingDown s" by (rule pendingDown_cong [OF f(5)])
  then show ?thesis
    using f(1-4,6) shape
    by (intro exI [of _ s'] exI [of _ p'] exI [of _ w'] exI [of _ ps])
      (auto split: option.splits)
qed

text \<open>A connection on which 3000 bytes of the server are waiting, longer than two segments.\<close>

definition demo_down :: session1 where
  "demo_down = demo_session1\<lparr>sendNewDataSequence := 3031, serverReadFinished := False\<rparr>"

lemma demo_down_simps [simp]:
  "state demo_down = ESTABLISHED" "mss demo_down = 1460" "sendSequence demo_down = 31"
  "sendUnacknowledged demo_down = 31" "sendNext demo_down = 31"
  "sendNewDataSequence demo_down = 3031" "serverReadFinished demo_down = False"
  "clientReadFinished demo_down = False" "retryCount demo_down = 0" "rtt demo_down = 0"
  "lastSendTime demo_down = 0" "destination demo_down = (2, 2)" "source demo_down = (1, 1)"
  "sendBuffer demo_down = Some (\<lambda>_. 0)" "sendLength demo_down = 131070" "mSock demo_down = 7"
  by (simp_all add: demo_down_def)

lemma demo_down_inv: "down_inv demo_down"
  by (simp add: down_inv_def finDown_def)

lemma demo_send_laws: "send_laws1 demo_ops1"
  by (simp add: send_laws1_def demo_laws1)

theorem downstream_segments_witness:
  "\<exists>s' p' w' ps. flushDataToClient1 demo_ops1 all_net1 demo_down demo_packet empty_world =
      Some (s', p', w') \<and> written (log w') = ps \<and>
    length (concat (map (payload demo_ops1) ps)) = 3000 \<and> \<not> isFin demo_ops1 (last ps)"
proof -
  have q: "flushStart1 demo_down (clock_now all_net1 (log (empty_world :: demo_packet world))) = Some 31"
    by (simp add: flushStart1_def isDownStreamComplete_def)
  have len: "length (bytesFrom demo_down 31) = 3000" by (simp add: bytesFrom_def finDown_def)
  have cap: "\<forall>q. unat (mss demo_down) \<le> payloadCapacity demo_ops1 q" by simp
  obtain s' p' w' ps where "flushDataToClient1 demo_ops1 all_net1 demo_down demo_packet empty_world =
      Some (s', p', w')" "written (log w') = ps" "concat (map (payload demo_ops1) ps) = bytesFrom demo_down 31"
    "isFin demo_ops1 (last ps) = serverReadFinished demo_down"
    using downstream_segments [OF demo_send_laws cap _ demo_down_inv, of all_net1 demo_packet empty_world] q
    by auto
  with len show ?thesis by auto
qed

text \<open>
  The send loop does not return when the client announced a segment size of 0 (which
  the handshake accepts): with a byte to send the loop writes empty packets for ever.
\<close>

theorem zero_mss_diverges:
  assumes "mss s = 0" and "q < sendNewDataSequence s"
    and "\<not> (serverReadFinished s \<and> q = sendNewDataSequence s - 1)"
  shows "sendDataStartingFrom1 P s q p w = None"
proof -
  have seg: "fst (nextSegment1 P' s q p' w') = q"
    for P' :: "('a, 'b) packet_ops1_scheme" and p' w'
    using assms by (auto simp: nextSegment1_def Let_def)
  have never: False if ret: "sendDataStartingFrom1 P s q p w = Some r" for r
  proof -
    let ?Q = "\<lambda>((((P' :: ('a, 'b) packet_ops1_scheme, t), a), p' :: 'a), w' :: 'a world).
      \<lambda>r :: 'a \<times> 'a world. \<not> (t = s \<and> a = q)"
    have "?Q ((((P, s), q), p), w) r"
    proof (rule sendDataStartingFrom1.raw_induct [where Pa = ?Q, OF _ ret])
      fix f :: "('a, 'b) packet_ops1_scheme \<Rightarrow> session1 \<Rightarrow> u32 \<Rightarrow> 'a \<Rightarrow> 'a world \<Rightarrow> ('a \<times> 'a world) option"
        and P' t a p' w' r
      assume IH: "\<And>P t a p w r. f P t a p w = Some r \<Longrightarrow> ?Q ((((P, t), a), p), w) r"
        and eq: "(if a < sendNewDataSequence t
          then let (seq', p', w') = nextSegment1 P' t a p' w' in f P' t seq' p' w'
          else Some (p', w')) = Some r"
      have "\<not> (t = s \<and> a = q)"
      proof
        assume ta: "t = s \<and> a = q"
        obtain p2 w2 where "nextSegment1 P' s q p' w' = (q, p2, w2)"
          using seg [of P' p' w'] by (metis prod.collapse)
        then have "f P' s q p2 w2 = Some r" using eq ta assms(2) by simp
        from IH [OF this] show False by simp
      qed
      then show "?Q ((((P', t), a), p'), w') r" by simp
    qed
    then show False by simp
  qed
  then show ?thesis by (meson not_None_eq)
qed

theorem zero_mss_diverges_witness:
  "flushDataToClient1 demo_ops1 all_net1 (demo_down\<lparr>mss := 0\<rparr>) demo_packet empty_world = None"
proof -
  have "sendDataStartingFrom1 demo_ops1 (demo_down\<lparr>mss := 0\<rparr>) 31
      (setEnds demo_ops1 (2, 2) (1, 1) demo_packet) (emit EvNow empty_world) = None"
    by (rule zero_mss_diverges) simp_all
  then show ?thesis
    by (simp add: flushDataToClient1_def isDownStreamComplete_def sendFrom1_def)
qed

end
