(* ===== verification/SessionV1_Server.thy ===== *)
theory SessionV1_Server
  imports SessionV1_Down
begin

text \<open>
  The bytes of the server on their way to the client: how \<open>receiveFromServer\<close> moves the
  window of the send buffer, and when a flush closes the session.
\<close>

section \<open>What is assumed of the outside\<close>

text \<open>\<open>tryReceive\<close> answers \<open>- 1\<close> or the number of bytes it stored; \<open>shiftElements\<close> moves a block down.\<close>

definition recv_laws1 :: "'p net1 \<Rightarrow> bool" where
  "recv_laws1 N \<longleftrightarrow>
    (\<forall>h f n. fst (sock_receive N h f n) = - 1 \<and> snd (sock_receive N h f n) = [] \<or>
       fst (sock_receive N h f n) = int (length (snd (sock_receive N h f n))) \<and>
       length (snd (sock_receive N h f n)) \<le> n) \<and>
    (\<forall>m i n k. k \<le> i \<longrightarrow>
       mem_read (shift_elements N m i n (- int k)) (i - k) n = mem_read m i n)"

lemma recv_laws1_receive:
  assumes "recv_laws1 N" and "sock_receive N h f n = (t, bs)"
  shows "t = - 1 \<and> bs = [] \<or> t = int (length bs) \<and> length bs \<le> n"
  using assms unfolding recv_laws1_def by (metis fst_conv snd_conv)

lemma recv_laws1_shift:
  "recv_laws1 N \<Longrightarrow> mem_read (shift_elements N m k n (- int k)) 0 n = mem_read m k n"
  unfolding recv_laws1_def by (metis diff_self_eq_0 le_refl)

section \<open>Trimming the send buffer\<close>

lemma getSendAvailable_exact:
  assumes "down_inv s" and "\<not> serverReadFinished s"
  shows "unat (getSendAvailable s) =
    unat (sendLength s) - (unat (sendNewDataSequence s) - unat (sendSequence s))"
proof -
  let ?d = "sendNewDataSequence s - sendSequence s"
  have le: "sendSequence s \<le> sendNewDataSequence s"
    using down_invD [OF assms(1)] by (simp add: word_le_nat_alt)
  have d: "unat ?d = unat (sendNewDataSequence s) - unat (sendSequence s)"
    by (rule unat_diff_le [OF le])
  have "getSendAvailable s = sendLength s - ?d" by (simp add: getSendAvailable_def)
  moreover have "?d \<le> sendLength s"
    using down_invD(5) [OF assms(1)] assms(2) d le by (simp add: word_le_nat_alt finDown_def)
  ultimately show ?thesis by (simp add: unat_sub d)
qed

lemma trimSend_spec:
  assumes laws: "recv_laws1 N" and inv: "down_inv s" and nofin: "\<not> serverReadFinished s"
    and r: "trimSendBuffer N s w = (s1, w1)"
  shows "w1 = w" and "down_inv s1" and "pendingDown s1 = pendingDown s"
    and "sendNewDataSequence s1 = sendNewDataSequence s" and "sendLength s1 = sendLength s"
    and "state s1 = state s" and "serverReadFinished s1 = serverReadFinished s"
    and "up_view s1 = up_view s" and "sendUnacknowledged s1 = sendUnacknowledged s"
    and "retryCount s1 = retryCount s"
proof -
  let ?sp = "sendUnacknowledged s - sendSequence s"
  let ?len = "sendNewDataSequence s - sendUnacknowledged s"
  note D = down_invD [OF inv]
  have le: "sendSequence s \<le> sendUnacknowledged s" "sendUnacknowledged s \<le> sendNewDataSequence s"
    using D by (simp_all add: word_le_nat_alt)
  have u: "unat ?sp = unat (sendUnacknowledged s) - unat (sendSequence s)"
    "unat ?len = unat (sendNewDataSequence s) - unat (sendUnacknowledged s)"
    by (simp_all add: unat_diff_le le)
  have fd: "finDown s = 0" using nofin by (simp add: finDown_def)
  have b: "unat ?sp + unat ?len \<le> unat (sendLength s)"
    using D u fd by linarith
  have "unat ?sp < 2 ^ 31" using b D(6) by linarith
  then have si: "sint ?sp = int (unat ?sp)" by (simp only: sint_small uint_nat)
  obtain m where m: "sendBuffer s = Some m" using inv by (auto simp: down_inv_def)
  let ?m' = "shift_elements N m (unat ?sp) (unat ?len) (- sint ?sp)"
  let ?t = "s\<lparr>sendBuffer := Some ?m', sendSequence := sendUnacknowledged s\<rparr>"
  have sh: "mem_read ?m' 0 (unat ?len) = mem_read m (unat ?sp) (unat ?len)"
    unfolding si by (rule recv_laws1_shift [OF laws])
  have "(s1, w1) = (s, w) \<or> (s1, w1) = (?t, w)"
    using r b m by (auto simp: trimSendBuffer_def Let_def split: if_splits)
  moreover have "down_inv ?t"
    using inv D fd by (simp add: down_inv_def finDown_def nofin)
  moreover have "pendingDown ?t = pendingDown s"
    using sh m u by (simp add: pendingDown_def bytesFrom_def sendMem_def finDown_def nofin)
  moreover have "up_view ?t = up_view s" by (simp add: up_view_def)
  ultimately show "w1 = w" and "down_inv s1" and "pendingDown s1 = pendingDown s"
    and "sendNewDataSequence s1 = sendNewDataSequence s" and "sendLength s1 = sendLength s"
    and "state s1 = state s" and "serverReadFinished s1 = serverReadFinished s"
    and "up_view s1 = up_view s" and "sendUnacknowledged s1 = sendUnacknowledged s"
    and "retryCount s1 = retryCount s"
    using inv by auto
qed

section \<open>A read from the server\<close>

lemma store_received:
  assumes inv: "down_inv s" and nofin: "\<not> serverReadFinished s"
    and fits: "length bs \<le> unat (getSendAvailable s)"
    and nowrap: "unat (sendNewDataSequence s) + length bs < 2 ^ 32"
  shows "down_inv (s\<lparr>sendBuffer := map_option (\<lambda>m. mem_write m
      (nat (ptr_off (sendNewDataSequence s) (sendSequence s))) bs) (sendBuffer s),
      sendNewDataSequence := sendNewDataSequence s + word_of_int (int (length bs))\<rparr>)"
    and "pendingDown (s\<lparr>sendBuffer := map_option (\<lambda>m. mem_write m
      (nat (ptr_off (sendNewDataSequence s) (sendSequence s))) bs) (sendBuffer s),
      sendNewDataSequence := sendNewDataSequence s + word_of_int (int (length bs))\<rparr>) =
      pendingDown s @ bs"
    and "0 \<le> ptr_off (sendNewDataSequence s) (sendSequence s) \<and>
      ptr_off (sendNewDataSequence s) (sendSequence s) + int (length bs) \<le> int (unat (sendLength s))"
proof -
  note D = down_invD [OF inv]
  let ?a = "unat (sendSequence s)" and ?u = "unat (sendUnacknowledged s)"
    and ?n = "unat (sendNewDataSequence s)"
  have fd: "finDown s = 0" using nofin by (simp add: finDown_def)
  have le: "sendSequence s \<le> sendNewDataSequence s" using D by (simp add: word_le_nat_alt)
  have room: "?n - ?a + length bs \<le> unat (sendLength s)"
    using fits getSendAvailable_exact [OF inv nofin] D(4,5) fd by linarith
  have n': "unat (sendNewDataSequence s + word_of_nat (length bs)) = ?n + length bs"
    using nowrap by (intro unat_add_small) simp
  obtain m where m: "sendBuffer s = Some m" using inv by (auto simp: down_inv_def)
  show "0 \<le> ptr_off (sendNewDataSequence s) (sendSequence s) \<and>
      ptr_off (sendNewDataSequence s) (sendSequence s) + int (length bs) \<le> int (unat (sendLength s))"
    by (rule ptr_off_bound [OF le room])
  show "down_inv (s\<lparr>sendBuffer := map_option (\<lambda>m. mem_write m
      (nat (ptr_off (sendNewDataSequence s) (sendSequence s))) bs) (sendBuffer s),
      sendNewDataSequence := sendNewDataSequence s + word_of_int (int (length bs))\<rparr>)"
    using inv D room n' fd by (simp add: down_inv_def m finDown_def nofin word_le_nat_alt)
  have "?n - ?a = (?u - ?a) + (?n - ?u)" "?n + length bs - ?u = (?n - ?u) + length bs"
    using D by linarith+
  then show "pendingDown (s\<lparr>sendBuffer := map_option (\<lambda>m. mem_write m
      (nat (ptr_off (sendNewDataSequence s) (sendSequence s))) bs) (sendBuffer s),
      sendNewDataSequence := sendNewDataSequence s + word_of_int (int (length bs))\<rparr>) =
      pendingDown s @ bs"
    using n' by (simp add: pendingDown_def bytesFrom_def sendMem_def m finDown_def nofin
        ptr_off_nat [OF le] mem_read_write_end)
qed

text \<open>The counter moves by at most one, and not past the limit.\<close>

lemma retry_bound:
  assumes "(y :: u32) = x \<or> x \<noteq> 3 \<and> y = x + 1" and "unat x \<le> 3"
  shows "unat y \<le> 3"
proof (cases "y = x")
  case False
  then have y: "x \<noteq> 3" "y = x + 1" using assms(1) by auto
  then have "unat x \<noteq> 3" using word_unat_eq_iff [of x 3] by simp
  with assms(2) have "unat x < 3" by linarith
  then have "unat (x + 1) = unat x + 1" by (subst unat_add_small') simp_all
  with \<open>unat x < 3\<close> y(2) show ?thesis by simp
qed (use assms(2) in simp)

lemma store_end:
  assumes inv: "down_inv s" and nofin: "\<not> serverReadFinished s"
    and nowrap: "unat (sendNewDataSequence s) + 1 < 2 ^ 32"
  shows "down_inv (s\<lparr>sendNewDataSequence := sendNewDataSequence s + 1, serverReadFinished := True\<rparr>)"
    and "pendingDown (s\<lparr>sendNewDataSequence := sendNewDataSequence s + 1,
      serverReadFinished := True\<rparr>) = pendingDown s"
proof -
  have n': "unat (sendNewDataSequence s + 1) = unat (sendNewDataSequence s) + 1"
    using nowrap by (subst unat_add_small') simp_all
  show "down_inv (s\<lparr>sendNewDataSequence := sendNewDataSequence s + 1, serverReadFinished := True\<rparr>)"
    using inv down_invD [OF inv] n' nofin by (auto simp: down_inv_def finDown_def word_le_nat_alt)
  show "pendingDown (s\<lparr>sendNewDataSequence := sendNewDataSequence s + 1,
      serverReadFinished := True\<rparr>) = pendingDown s"
    using n' nofin by (simp add: pendingDown_def bytesFrom_def sendMem_def finDown_def)
qed

lemma getSendAvailable_le:
  "down_inv s \<Longrightarrow> \<not> serverReadFinished s \<Longrightarrow> unat (getSendAvailable s) \<le> unat (sendLength s)"
  by (simp add: getSendAvailable_exact)

text \<open>The state after the socket answered, before the flush.\<close>

definition readServer1 :: "session1 \<Rightarrow> int \<Rightarrow> byte list \<Rightarrow> bool \<Rightarrow> session1" where
  "readServer1 s t bs wb =
    (if t \<noteq> - 1 \<and> t \<noteq> 0
     then s\<lparr>sendBuffer := map_option (\<lambda>m. mem_write m
              (nat (ptr_off (sendNewDataSequence s) (sendSequence s))) bs) (sendBuffer s),
            sendNewDataSequence := sendNewDataSequence s + word_of_int t\<rparr>
     else if \<not> wb \<and> \<not> serverReadFinished s
     then s\<lparr>sendNewDataSequence := sendNewDataSequence s + 1, serverReadFinished := True\<rparr>
     else s)"

lemma readServer_spec:
  assumes inv: "down_inv s" and nofin: "\<not> serverReadFinished s"
    and ans: "t = - 1 \<and> bs = [] \<or> t = int (length bs) \<and> length bs \<le> unat (getSendAvailable s)"
    and nowrap: "unat (sendNewDataSequence s) + unat (sendLength s) + 1 < 2 ^ 32"
  shows "down_inv (readServer1 s t bs wb)" and "pendingDown (readServer1 s t bs wb) = pendingDown s @ bs"
    and "serverReadFinished (readServer1 s t bs wb) = (t \<le> 0 \<and> \<not> wb)"
    and "up_view (readServer1 s t bs wb) = up_view s" and "state (readServer1 s t bs wb) = state s"
proof -
  have fits: "length bs \<le> unat (getSendAvailable s)" using ans by auto
  have nw: "unat (sendNewDataSequence s) + length bs < 2 ^ 32"
    "unat (sendNewDataSequence s) + 1 < 2 ^ 32"
    using fits getSendAvailable_le [OF inv nofin] nowrap by linarith+
  note st = store_received [OF inv nofin fits nw(1)] and en = store_end [OF inv nofin nw(2)]
  have tb: "t \<noteq> - 1 \<and> t \<noteq> 0 \<longleftrightarrow> t = int (length bs) \<and> bs \<noteq> []" "t \<le> 0 \<longleftrightarrow> bs = []"
    using ans by auto
  show "down_inv (readServer1 s t bs wb)" and "pendingDown (readServer1 s t bs wb) = pendingDown s @ bs"
    using st(1,2) en inv ans tb by (auto simp: readServer1_def)
  show "serverReadFinished (readServer1 s t bs wb) = (t \<le> 0 \<and> \<not> wb)"
    using ans tb nofin by (auto simp: readServer1_def)
  show "up_view (readServer1 s t bs wb) = up_view s" "state (readServer1 s t bs wb) = state s"
    by (simp_all add: readServer1_def up_view_def)
qed

lemma receiveFromServer_spec:
  assumes "send_laws1 P" and "recv_laws1 N" and "\<forall>q. unat (mss s) \<le> payloadCapacity P q"
    and "0 < mss s" and "down_inv s" and "state s = ESTABLISHED" and "\<not> serverReadFinished s"
    and "unat (sendNewDataSequence s) + unat (sendLength s) + 1 < 2 ^ 32"
    and "n = unat (getSendAvailable (fst (trimSendBuffer N s w)))"
    and "sock_receive N (log w) (mSock s) n = (t, bs)"
  shows "\<exists>more s' p' w'. receiveFromServer1 P N s p w = Some (more, s', p', w') \<and>
    fault_free w' = fault_free w \<and> down_inv s' \<and>
    pendingDown s' = pendingDown s @ (if n = 0 then [] else bs) \<and>
    serverReadFinished s' =
      (n \<noteq> 0 \<and> t \<le> 0 \<and> \<not> would_block N (log w @ [EvReceive (mSock s) n])) \<and>
    up_view s' = up_view s \<and> (state s' = ESTABLISHED \<or> state s' = CLOSED) \<and>
    sendLength s' = sendLength s \<and> (unat (retryCount s) \<le> 3 \<longrightarrow> unat (retryCount s') \<le> 3) \<and>
    receiveSet w' \<subseteq> receiveSet w \<and> (serverReadFinished s' \<longrightarrow> mSock s' \<notin> receiveSet w') \<and>
    accepted f (log w') = accepted f (log w)"
proof -
  obtain s1 w1 where tr: "trimSendBuffer N s w = (s1, w1)" by fastforce
  note t = trimSend_spec [OF assms(2,5,7) tr]
  have n: "n = unat (getSendAvailable s1)" using assms(9) tr by simp
  have est: "state s \<noteq> ESTABLISHED \<longleftrightarrow> False" using assms(6) by simp
  show ?thesis
  proof (cases "n = 0")
    case True
    then have "receiveFromServer1 P N s p w = Some (False, s1, p, w)"
      using n tr t(1) assms(6) by (simp add: receiveFromServer1_def unat_eq_zero)
    then show ?thesis using t True assms(6,7)
      by (intro exI [of _ False] exI [of _ s1] exI [of _ p] exI [of _ w]) simp
  next
    case False
    have mso: "mSock s1 = mSock s" "mss s1 = mss s" using t(8) by (simp_all add: up_view_def)
    have amt: "getSendAvailable s1 \<noteq> 0" using False n by (simp add: unat_eq_zero)
    have ans: "t = - 1 \<and> bs = [] \<or> t = int (length bs) \<and> length bs \<le> unat (getSendAvailable s1)"
      using recv_laws1_receive [OF assms(2,10)] n by simp
    have nofin1: "\<not> serverReadFinished s1" using t(7) assms(7) by simp
    have nw: "unat (sendNewDataSequence s1) + unat (sendLength s1) + 1 < 2 ^ 32"
      using t(4,5) assms(8) by simp
    let ?wb = "would_block N (log w @ [EvReceive (mSock s) n])"
    let ?e = "emit (EvReceive (mSock s) n) w"
    let ?s2 = "readServer1 s1 t bs ?wb"
    note rs = readServer_spec [OF t(2) nofin1 ans nw, where wb = ?wb]
    have "length bs \<le> unat (getSendAvailable s1)" using ans by auto
    moreover from this have "unat (sendNewDataSequence s1) + length bs < 2 ^ 32"
      using nw getSendAvailable_le [OF t(2) nofin1] by linarith
    ultimately have inb: "0 \<le> ptr_off (sendNewDataSequence s1) (sendSequence s1) \<and>
        ptr_off (sendNewDataSequence s1) (sendSequence s1) + int (length bs)
          \<le> int (unat (sendLength s1)) \<and> sendBuffer s1 \<noteq> None"
      using store_received(3) [OF t(2) nofin1] t(2) by (simp add: down_inv_def)
    obtain w3 where w3: "fault_free w3 = fault_free w"
      and sets: "receiveSet w3 \<subseteq> receiveSet w" "t \<le> 0 \<and> \<not> ?wb \<longrightarrow> mSock s \<notin> receiveSet w3"
      and acc: "accepted f (log w3) = accepted f (log w)"
      and run: "receiveFromServer1 P N s p w =
        (case flushDataToClient1 P N ?s2 p w3 of None \<Rightarrow> None
         | Some (s3, p3, w4) \<Rightarrow> Some (getSendAvailable s3 > 0, s3, p3, w4))"
    proof
      let ?w3 = "if t \<noteq> - 1 \<and> t \<noteq> 0 then ?e
        else if \<not> ?wb \<and> \<not> serverReadFinished s1
        then ?e\<lparr>receiveSet := receiveSet ?e - {mSock s}\<rparr> else ?e"
      show "fault_free ?w3 = fault_free w" by simp
      show "receiveSet ?w3 \<subseteq> receiveSet w" by auto
      show "accepted f (log ?w3) = accepted f (log w)" by simp
      show "t \<le> 0 \<and> \<not> ?wb \<longrightarrow> mSock s \<notin> receiveSet ?w3" using ans nofin1 by auto
      show "receiveFromServer1 P N s p w =
        (case flushDataToClient1 P N ?s2 p ?w3 of None \<Rightarrow> None
         | Some (s3, p3, w4) \<Rightarrow> Some (getSendAvailable s3 > 0, s3, p3, w4))"
        unfolding receiveFromServer1_def est if_False tr Let_def case_prod_conv if_not_P [OF amt]
          t(1) mso n [symmetric] assms(10) check_bounds_def if_P [OF inb]
        by (simp add: readServer1_def mso)
    qed
    have cap: "\<And>q. unat (mss ?s2) \<le> payloadCapacity P q" and m: "0 < mss ?s2"
      using assms(3,4) rs(4) t(8) by (simp_all add: up_view_def)
    have est2: "state ?s2 = ESTABLISHED" using rs(5) t(6) assms(6) by simp
    obtain s3 p3 w4 where f: "flushDataToClient1 P N ?s2 p w3 = Some (s3, p3, w4)"
      "fault_free w4 = fault_free w3" "state s3 = ESTABLISHED \<or> state s3 = CLOSED"
      "up_view s3 = up_view ?s2" "down_kept s3 = down_kept ?s2" "down_inv s3"
      "receiveSet w4 \<subseteq> receiveSet w3" "accepted f (log w4) = accepted f (log w3)"
      "retryCount s3 = retryCount ?s2 \<or> retryCount ?s2 \<noteq> 3 \<and> retryCount s3 = retryCount ?s2 + 1"
      using flush_client_spec [OF assms(1) cap m rs(1) est2, where p = p and N = N and w = w3 and f = f]
      by blast
    have "pendingDown s3 = pendingDown s @ bs"
      using pendingDown_cong [OF f(5)] rs(2) t(3) by simp
    moreover have "serverReadFinished s3 = (t \<le> 0 \<and> \<not> ?wb)"
      using f(5) rs(3) by (simp add: down_kept_def)
    moreover have "sendLength s3 = sendLength s"
      using f(5) t(5) by (simp add: down_kept_def readServer1_def)
    moreover have "retryCount ?s2 = retryCount s" using t(10) by (simp add: readServer1_def)
    then have "unat (retryCount s) \<le> 3 \<longrightarrow> unat (retryCount s3) \<le> 3"
      using retry_bound [OF f(9)] by simp
    moreover have "mSock s3 = mSock s" using f(4) rs(4) mso by (simp add: up_view_def)
    then have "serverReadFinished s3 \<longrightarrow> mSock s3 \<notin> receiveSet w4"
      using sets(2) f(7) calculation(2) by auto
    ultimately show ?thesis using run f(1-4,6,7,8) w3 acc sets(1) rs(4) t(8) False by auto
  qed
qed


lemma demo_recv_laws: "recv_laws1 (demo_net1 ans bs t)"
proof -
  have "mem_read (mem_write m (nat (int i - int k)) (mem_read m i n)) (i - k) n = mem_read m i n"
    if "k \<le> i" for m i n k
  proof -
    have "nat (int i - int k) = i - k" using that by simp
    then show ?thesis using mem_read_write_same [of m "i - k" "mem_read m i n"] by simp
  qed
  then show ?thesis by (simp add: recv_laws1_def)
qed


section \<open>Giving up on a client\<close>

text \<open>A flush is due: something is unacknowledged and four round trips have passed.\<close>

definition timed_out :: "'p net1 \<Rightarrow> session1 \<times> 'p \<times> 'p world \<Rightarrow> bool" where
  "timed_out N c = (case c of (s, p, w) \<Rightarrow>
     sendUnacknowledged s < sendNewDataSequence s \<and>
     (clock_now N (log w) - lastSendTime s) sdiv 4 > rtt s)"

definition flush_run ::
  "('p, 'x) packet_ops1_scheme \<Rightarrow> 'p net1 \<Rightarrow> 'p conf1 option \<Rightarrow> unit \<Rightarrow> 'p conf1 option" where
  "flush_run P N c u = (case c of None \<Rightarrow> None | Some (s, p, w) \<Rightarrow> flushDataToClient1 P N s p w)"

definition flush_due :: "'p net1 \<Rightarrow> 'p conf1 option \<Rightarrow> unit \<Rightarrow> bool" where
  "flush_due N c u = (case c of None \<Rightarrow> True
     | Some (s, p, w) \<Rightarrow> state s = ESTABLISHED \<longrightarrow> timed_out N (s, p, w))"

lemma sendFrom_fields:
  assumes "sendFrom1 P s q now p w = Some (s', p', w')"
  shows "state s' = CLOSED \<or> s' = s\<lparr>sendNext := sendNewDataSequence s,
    lastTimeAcknowledgmentAccepted := now, lastSendTime := now\<rparr>"
  using assms by (auto simp: sendFrom1_def closeIfUpStreamComplete1_def closeSession1_def Let_def
      split: option.splits if_splits)

lemma flush_timed_out:
  assumes est: "state s = ESTABLISHED" and due: "timed_out N (s, p, w)"
    and f: "flushDataToClient1 P N s p w = Some (s', p', w')"
  shows "state s' = CLOSED \<or> retryCount s \<noteq> 3 \<and> sendNext s' = sendNewDataSequence s' \<and>
    retryCount s' = retryCount s + (if sendUnacknowledged s < sendNext s then 1 else 0) \<and>
    state s' = ESTABLISHED"
proof -
  have nd: "\<not> isDownStreamComplete s" using due by (auto simp: timed_out_def isDownStreamComplete_def)
  let ?s1 = "if sendUnacknowledged s < sendNext s then s\<lparr>retryCount := retryCount s + 1\<rparr> else s"
  have split: "retryCount s = 3 \<and> state s' = CLOSED \<or> retryCount s \<noteq> 3 \<and>
      (\<exists>q now v. sendFrom1 P ?s1 q now p v = Some (s', p', w'))"
    using f est due nd
    by (auto simp: flushDataToClient1_def timed_out_def Let_def SEND_MAX_RETRIES_def
        closeSession1_def split: if_splits)
  show ?thesis
  proof (cases "retryCount s = 3")
    case True
    then show ?thesis using split by simp
  next
    case False
    then obtain q now v where "sendFrom1 P ?s1 q now p v = Some (s', p', w')" using split by auto
    from sendFrom_fields [OF this] est False show ?thesis by (auto split: if_splits)
  qed
qed

lemma flush_run_closed:
  "state s = CLOSED \<Longrightarrow> run_steps (flush_run P N) (Some (s, p, w)) us = Some (s, p, w)"
  by (induction us) (simp_all add: flush_run_def flushDataToClient1_def)

lemma flush_run_gives_up:
  assumes laws: "send_laws1 P"
  shows "\<lbrakk>\<And>q. unat (mss s) \<le> payloadCapacity P q; 0 < mss s; down_inv s; state s = ESTABLISHED;
    unat (retryCount s) \<le> 3; sendUnacknowledged s < sendNext s;
    run_ok (flush_run P N) (flush_due N) (Some (s, p, w)) us; 3 < length us + unat (retryCount s)\<rbrakk> \<Longrightarrow>
   \<exists>s' p' w'. run_steps (flush_run P N) (Some (s, p, w)) us = Some (s', p', w') \<and> state s' = CLOSED"
proof (induction us arbitrary: s p w)
  case Nil
  then show ?case by simp
next
  case (Cons u us)
  have due: "timed_out N (s, p, w)" using Cons.prems(4,7) by (simp add: flush_due_def)
  obtain s' p' w' where f: "flushDataToClient1 P N s p w = Some (s', p', w')"
    "up_view s' = up_view s" "down_kept s' = down_kept s" "down_inv s'"
    using flush_client_spec [OF laws Cons.prems(1-4), where p = p and N = N and w = w and f = 0]
    by blast
  have fr: "flush_run P N (Some (s, p, w)) () = Some (s', p', w')"
    using f(1) by (simp add: flush_run_def)
  have step: "run_steps (flush_run P N) (Some (s, p, w)) (u # us) =
      run_steps (flush_run P N) (Some (s', p', w')) us" by (simp add: fr)
  have ok: "run_ok (flush_run P N) (flush_due N) (Some (s', p', w')) us"
    using Cons.prems(7) by (simp add: fr)
  show ?case
  proof (cases "state s' = CLOSED")
    case True
    then show ?thesis using step flush_run_closed [OF True, of P N p' w' us] by simp
  next
    case False
    then have r: "retryCount s \<noteq> 3" "sendNext s' = sendNewDataSequence s'"
      "retryCount s' = retryCount s + 1" "state s' = ESTABLISHED"
      using flush_timed_out [OF Cons.prems(4) due f(1)] Cons.prems(6) by simp_all
    have "unat (retryCount s) \<noteq> 3" using r(1) word_unat_eq_iff [of "retryCount s" 3] by simp
    then have "unat (retryCount s) < 3" using Cons.prems(5) by linarith
    then have "unat (retryCount s') = unat (retryCount s) + 1"
      unfolding r(3) by (subst unat_add_small') simp_all
    moreover have "sendUnacknowledged s' < sendNext s'"
      using due f(3) r(2) by (auto simp: timed_out_def down_kept_def)
    moreover have "mss s' = mss s" using f(2) by (simp add: up_view_def)
    ultimately show ?thesis
      using Cons.IH [of s' p' w'] Cons.prems(1,2,5,8) f(4) r(4) ok step \<open>unat (retryCount s) < 3\<close>
      by auto
  qed
qed


text \<open>One byte on the wire, and a clock that moves with every event.\<close>

definition ticking_net1 :: "'p net1" where
  "ticking_net1 = (demo_net1 (\<lambda>_. 0) [] 0)\<lparr>clock_now := (\<lambda>h. 10 * int (length h) + 10)\<rparr>"

definition demo_sent :: "u32 \<Rightarrow> int \<Rightarrow> session1" where
  "demo_sent k t = demo_session1\<lparr>sendNext := 32, sendNewDataSequence := 32, retryCount := k,
     lastSendTime := t, lastTimeAcknowledgmentAccepted := t\<rparr>"

lemma demo_sent_simps [simp]:
  "state (demo_sent k t) = ESTABLISHED" "retryCount (demo_sent k t) = k"
  "lastSendTime (demo_sent k t) = t" "rtt (demo_sent k t) = 0" "sendNext (demo_sent k t) = 32"
  "sendNewDataSequence (demo_sent k t) = 32" "sendUnacknowledged (demo_sent k t) = 31"
  "sendSequence (demo_sent k t) = 31" "serverReadFinished (demo_sent k t) = False"
  "mss (demo_sent k t) = 1460" "sendBuffer (demo_sent k t) = Some (\<lambda>_. 0)"
  "sendLength (demo_sent k t) = 131070" "clientReadFinished (demo_sent k t) = False"
  "source (demo_sent k t) = (1, 1)" "destination (demo_sent k t) = (2, 2)"
  "(demo_sent k t)\<lparr>retryCount := k'\<rparr> = demo_sent k' t"
  "(demo_sent k t)\<lparr>sendNext := 32, lastTimeAcknowledgmentAccepted := t', lastSendTime := t'\<rparr> =
     demo_sent k t'"
  by (simp_all add: demo_sent_def)

lemma ticking_clock [simp]: "clock_now ticking_net1 h = 10 * int (length h) + 10"
  by (simp add: ticking_net1_def)

lemma demo_sent_flush:
  assumes "k \<noteq> 3" and "int (length (log w)) * 10 \<ge> t"
  shows "\<exists>p' w'. flushDataToClient1 demo_ops1 ticking_net1 (demo_sent k t) p w =
      Some (demo_sent (k + 1) (10 * int (length (log w)) + 10), p', w') \<and>
    length (log w) < length (log w')"
proof -
  let ?now = "10 * int (length (log w)) + 10"
  let ?s1 = "demo_sent (k + 1) t"
  have d: "(?now - t) sdiv 4 > 0" using assms(2) by (simp add: signed_divide_int_def)
  have win: "send_window ?s1 31" by (simp add: send_window_def finDown_def)
  obtain p2 ps where l: "sendDataStartingFrom1 demo_ops1 ?s1 31 (setEnds demo_ops1 (2, 2) (1, 1) p)
      (emit EvNow w) = Some (p2, fold writePacket ps (emit EvNow w))"
    using send_loop [OF demo_send_laws _ _ win] by (fastforce)
  have "sendFrom1 demo_ops1 ?s1 31 ?now p (emit EvNow w) =
      Some (demo_sent (k + 1) ?now, p2, fold writePacket ps (emit EvNow w))"
    using l unfolding sendFrom1_def
    by (simp add: closeIfUpStreamComplete1_def isUpStreamComplete_def)
  then have "flushDataToClient1 demo_ops1 ticking_net1 (demo_sent k t) p w =
      Some (demo_sent (k + 1) ?now, p2, fold writePacket ps (emit EvNow w))"
    using assms(1) d
    by (simp add: flushDataToClient1_def isDownStreamComplete_def SEND_MAX_RETRIES_def Let_def)
  then show ?thesis by simp
qed

lemma demo_sent_due:
  assumes "int (length (log w)) * 10 \<ge> t"
  shows "flush_due ticking_net1 (Some (demo_sent k t, p, w)) ()"
  using assms
  by (simp add: flush_due_def timed_out_def signed_divide_int_def)

lemma demo_sent_run:
  "\<lbrakk>unat k + length us \<le> 4; int (length (log w)) * 10 \<ge> t\<rbrakk> \<Longrightarrow>
   run_ok (flush_run demo_ops1 ticking_net1) (flush_due ticking_net1) (Some (demo_sent k t, p, w)) us"
proof (induction us arbitrary: k t p w)
  case Nil
  then show ?case by simp
next
  case (Cons u us)
  show ?case
  proof (cases "us = []")
    case True
    then show ?thesis using demo_sent_due [OF Cons.prems(2)] by simp
  next
    case False
    then have "length us > 0" by simp
    then have k: "unat k < 3" using Cons.prems(1) by (simp only: list.size)
    then have "k \<noteq> 3" by auto
    from demo_sent_flush [OF this Cons.prems(2), of p] obtain p' w' where
      f: "flush_run demo_ops1 ticking_net1 (Some (demo_sent k t, p, w)) () =
        Some (demo_sent (k + 1) (10 * int (length (log w)) + 10), p', w')"
      "length (log w) < length (log w')"
      by (auto simp: flush_run_def)
    have "unat (k + 1) = unat k + 1" using k by (subst unat_add_small') simp_all
    then have "run_ok (flush_run demo_ops1 ticking_net1) (flush_due ticking_net1)
        (Some (demo_sent (k + 1) (10 * int (length (log w)) + 10), p', w')) us"
      using Cons.prems(1) f(2) by (intro Cons.IH) auto
    then show ?thesis using demo_sent_due [OF Cons.prems(2)] f(1) by simp
  qed
qed


section \<open>A half-closed connection\<close>

text \<open>
  A half-closed connection loses the data of the server. Once the client's FIN has been passed on,
  every flush to the client that finds the downstream incomplete closes the session, whether or not
  the client acknowledged the data; if no flush is due, the buffered bytes were not even sent.
\<close>

theorem half_closed_flush_closes:
  assumes "send_laws1 P" and "\<forall>q. unat (mss s) \<le> payloadCapacity P q" and "0 < mss s"
    and "down_inv s" and "state s = ESTABLISHED" and "isUpStreamComplete s"
    and "\<not> isDownStreamComplete s"
  shows "\<exists>s' p' w'. flushDataToClient1 P N s p w = Some (s', p', w') \<and> state s' = CLOSED \<and>
    pendingDown s' = pendingDown s \<and>
    (flushStart1 s (clock_now N (log w)) = None \<longrightarrow> written (log w') = written (log w))"
proof -
  obtain s' p' w' ps where f: "flushDataToClient1 P N s p w = Some (s', p', w')"
    "case flushStart1 s (clock_now N (log w)) of None \<Rightarrow> ps = []
     | Some q \<Rightarrow> segments_of P s q (setEnds P (destination s) (source s) p) ps"
    "written (log w') = written (log w) @ ps" "down_kept s' = down_kept s"
    using flush_client_spec [OF assms(1) _ assms(3-5), where p = p and N = N and w = w and f = 0]
      assms(2) by blast
  have sf: "state a = CLOSED" if "isUpStreamComplete t" "sendFrom1 P t q now p v = Some (a, b, c)"
    for t q now v a b c
    using that by (auto simp: sendFrom1_def closeIfUpStreamComplete1_def closeSession1_def Let_def
        isUpStreamComplete_def split: option.splits)
  have up: "isUpStreamComplete (s\<lparr>retryCount := k\<rparr>)" for k
    using assms(6) by (simp add: isUpStreamComplete_def)
  have "state s' = CLOSED"
    using f(1) assms(5-7)
    by (auto dest: sf [OF up] sf [OF assms(6)] simp: flushDataToClient1_def closeIfUpStreamComplete1_def closeSession1_def Let_def
        split: if_splits)
  with f show ?thesis by (auto simp: pendingDown_cong [OF f(4)])
qed

theorem half_closed_flush_closes_witness:
  "\<exists>s' p' w'. flushDataToClient1 demo_ops1 all_net1
      (demo_down\<lparr>sendNewDataSequence := 33, clientReadFinished := True, receiveNext := 102,
         receiveUser := 102\<rparr>) demo_packet empty_world = Some (s', p', w') \<and>
    state s' = CLOSED \<and> length (pendingDown s') = 2 \<and> written (log w') = []"
proof -
  let ?s = "demo_down\<lparr>sendNewDataSequence := 33, clientReadFinished := True, receiveNext := 102,
    receiveUser := 102\<rparr>"
  have inv: "down_inv ?s" by (simp add: down_inv_def finDown_def)
  have none: "flushStart1 ?s (clock_now all_net1 (log (empty_world :: demo_packet world))) = None"
    by (simp add: flushStart1_def isDownStreamComplete_def)
  have len: "length (pendingDown ?s) = 2" by (simp add: pendingDown_def bytesFrom_def finDown_def)
  have cap: "\<forall>q. unat (mss ?s) \<le> payloadCapacity demo_ops1 q" by simp
  show ?thesis
    using half_closed_flush_closes [OF demo_send_laws cap _ inv, of all_net1 demo_packet empty_world]
      none len
    by (auto simp: isUpStreamComplete_def isDownStreamComplete_def)
qed

end
