(* ===== verification/SessionV1_Machine.thy ===== *)
theory SessionV1_Machine
  imports SessionV1_Server
begin

text \<open>
  The session as a state machine: which transitions its four entry points can make, the
  handshake, resets, and the invariant of whole runs. A run is a list of calls of the entry
  points; \<open>None\<close> stands for a call that does not return.
\<close>

section \<open>Transitions\<close>

inductive session_trans1 :: "states1 \<Rightarrow> states1 \<Rightarrow> bool" where
  stay: "session_trans1 x x"
| close: "session_trans1 x CLOSED"
| open_pending: "session_trans1 CLOSED SYN_RECEIVED"
| open_connected: "session_trans1 CLOSED SYN_ACK_SENT"
| answer: "session_trans1 SYN_RECEIVED SYN_ACK_SENT"
| establish: "session_trans1 SYN_ACK_SENT ESTABLISHED"

inductive_cases from_closedE: "session_trans1 CLOSED x"
inductive_cases to_establishedE: "session_trans1 x ESTABLISHED"
inductive_simps session_trans1_simps: "session_trans1 x y"

lemmas session_transI = session_trans1.intros

lemma flush_server_state:
  "state (fst (flushDataToServer1 P N s p w)) = state s \<or> state (fst (flushDataToServer1 P N s p w)) = CLOSED"
  using flush_frame_flush [of s P N p w] by (simp add: flush_frame_def)

lemma makeRoom_frame: "flush_frame s (fst (makeRoom1 P N len s p w))"
proof -
  have "flush_frame s (fst (trimReceiveBuffer_now N (fst (flushDataToServer1 P N s p w)) v))" for v
    using flush_frame_flush [of s P N p w]
      trim_now_frame [of "fst (flushDataToServer1 P N s p w)" N v]
    by (auto simp: flush_frame_def)
  then show ?thesis by (simp add: makeRoom1_def case_prod_unfold Let_def)
qed

lemma completeOrAcknowledge_state:
  "state (fst (completeOrAcknowledge1 P N s p w)) = state s \<or>
   state (fst (completeOrAcknowledge1 P N s p w)) = CLOSED"
  by (auto simp: completeOrAcknowledge1_def acknowledgeDelayed1_def closeSession1_def Let_def)

lemma receiveEstablished_state:
  "state (fst (receiveEstablished1 P N s p w)) = state s \<or>
   state (fst (receiveEstablished1 P N s p w)) = CLOSED"
proof -
  let ?L = "getDataLength P p"
  let ?s1 = "s\<lparr>sendUnacknowledged := max (sendUnacknowledged s) (getAcknowledgmentNumber P p),
               retryCount := 0\<rparr>"
  obtain s2 p2 w2 where mr: "makeRoom1 P N ?L ?s1 p w = (s2, p2, w2)" by (metis prod_cases3)
  obtain s3 w3 where st: "storeSegment1 P ?L s2 p2 w2 = (s3, w3)" by fastforce
  obtain s4 p4 w4 where fl: "flushDataToServer1 P N s3 p2 w3 = (s4, p4, w4)" by (metis prod_cases3)
  have "state s2 = state s \<or> state s2 = CLOSED"
    using makeRoom_frame [of ?s1 P N ?L p w] mr by (auto simp: flush_frame_def split: if_splits)
  moreover have "state s3 = state s2" using storeSegment_frame [of P ?L s2 p2 w2] st by simp
  moreover have "state s4 = state s3 \<or> state s4 = CLOSED"
    using flush_server_state [of P N s3 p2 w3] fl by simp
  ultimately have s4: "state s4 = state s \<or> state s4 = CLOSED" by auto
  have body: "receiveEstablished1 P N s p w =
      (if getSequenceNumber P p = receiveNext s then
         if \<not> clientReadFinished s
         then if state s4 = CLOSED then (s4, p4, w4) else completeOrAcknowledge1 P N s4 p4 w4
         else completeOrAcknowledge1 P N ?s1 p w
       else (s, sendAck1 P s p w))"
    using mr st fl by (cases "sendAck1 P s p w") (simp add: receiveEstablished1_def Let_def)
  show ?thesis
    using s4 completeOrAcknowledge_state [of P N s4 p4 w4]
      completeOrAcknowledge_state [of P N ?s1 p w]
    unfolding body by auto
qed

lemma receiveFromClient_trans:
  assumes "receiveFromClient1 P N s p w = (s', p', w')"
  shows "session_trans1 (state s) (state s')"
proof (cases "state s = ESTABLISHED \<and> \<not> isSyn P p \<and> \<not> isReset P p \<and> isAck P p")
  case True
  then have "receiveEstablished1 P N s p w = (s', p', w')" using assms by (simp add: receiveFromClient1_def)
  then show ?thesis
    using receiveEstablished_state [of P N s p w] by (auto intro: session_transI)
next
  case False
  then show ?thesis
    using assms
    by (auto simp: receiveFromClient1_def receiveSyn1_def receiveReset1_def receiveHandshakeAck1_def
        sendSynAck1_def closeSession1_def Let_def case_prod_unfold
        intro: session_transI split: if_splits states1.splits)
qed

lemma sendFrom_state:
  assumes "sendFrom1 P s q now p w = Some (s', p', w')"
  shows "state s' = state s \<or> state s' = CLOSED"
  using sendFrom_fields [OF assms] by auto

lemma flush_client_state:
  assumes "flushDataToClient1 P N s p w = Some (s', p', w')"
  shows "state s' = state s \<or> state s' = CLOSED"
  using assms
  by (auto simp: flushDataToClient1_def closeIfUpStreamComplete1_def closeSession1_def Let_def
      dest: sendFrom_state split: if_splits)

lemma readServer_state:
  assumes "receiveFromServer1 P N s p w = Some (room, s', p', w')"
  shows "state s' = state s \<or> state s' = CLOSED"
proof -
  have t: "state (fst (trimSendBuffer N s w)) = state s"
    by (simp add: trimSendBuffer_def Let_def)
  show ?thesis
    using assms t
    by (auto simp: receiveFromServer1_def Let_def case_prod_unfold
        dest!: flush_client_state split: if_splits option.splits)
qed

section \<open>The handshake\<close>

lemma generateSequenceNo_parity:
  "0 \<le> r \<Longrightarrow> generateSequenceNo1 r = (if even r then 31 else 30)"
  by (cases "even r") (auto simp: generateSequenceNo1_def signed_modulo_int_def elim!: evenE oddE)

lemma establish_fields:
  assumes "establish1 P N s sock p w = (s', w')"
  shows "w' = emit EvNow (emit EvRand w)"
    and "mSock s' = sock" and "state s' = state s" and "mss s' = getMSS P p"
    and "sendNext s' = word_of_int (generateSequenceNo1 (c_rand N (log w)))"
    and "sendUnacknowledged s' = sendNext s'" and "sendSequence s' = sendNext s'"
    and "sendNewDataSequence s' = sendNext s'"
    and "receiveNext s' = getSequenceNumber P p + 1"
    and "receiveUser s' = receiveNext s'" and "receiveSequence s' = receiveNext s'"
    and "\<not> clientReadFinished s'" and "\<not> serverReadFinished s'" and "retryCount s' = 0"
    and "source s' = getSource P p" and "destination s' = getDestination P p"
    and "sendBuffer s' \<noteq> None"
    and "sendLength s' = sendLength s \<or>
      sendLength s' = push_bit (unat (getWindowShift P p)) 65535 * 2"
  using assms by (auto simp: establish1_def Let_def SEND_WINDOW_SCALE_def split: if_splits)

lemma receiveSyn_connected:
  assumes "state s = CLOSED" and "isSyn P p" and "\<not> isAck P p"
    and "sock_connect N (log w) (getDestination P p) = (sock, 0, inp, con)"
    and "receiveFromClient1 P N s p w = (s', p', w')"
  shows "\<exists>t v. establish1 P N s sock p (emit (EvConnect sock (getDestination P p)) w) = (t, v) \<and>
    sendSynAck1 P t p v = (s', p', w')"
  using assms by (auto simp: receiveFromClient1_def receiveSyn1_def Let_def split: prod.splits)

text \<open>
  C7. The handshake. A SYN for a closed session, when the connection to the server is made at
  once, is answered by exactly one packet: a SYN and ACK from the server's address to the client's,
  with the session's initial sequence number, acknowledging the client's. The client's
  acknowledgment of it then establishes the session without an answer: the socket is watched, both
  buffers are empty and all the sequence numbers stand at the first byte of each direction.
\<close>

theorem handshake_establishes:
  assumes "send_laws1 P" and "state s = CLOSED" and "isSyn P p" and "\<not> isAck P p"
    and "sock_connect N (log w) (getDestination P p) = (sock, 0, inp, con)"
    and "receiveFromClient1 P N s p w = (s1, p1, w1)"
    and "\<not> isSyn P q" and "\<not> isReset P q" and "isAck P q"
    and "getSequenceNumber P q = getSequenceNumber P p + 1"
    and "getAcknowledgmentNumber P q = sendNext s1 + 1"
    and "receiveFromClient1 P N s1 q w1 = (s2, q2, w2)"
  shows "state s1 = SYN_ACK_SENT \<and> written (log w1) = written (log w) @ [p1] \<and>
    isSyn P p1 \<and> isAck P p1 \<and> getSequenceNumber P p1 = sendNext s1 \<and>
    getAcknowledgmentNumber P p1 = getSequenceNumber P p + 1 \<and>
    getSource P p1 = getDestination P p \<and> getDestination P p1 = getSource P p \<and>
    state s2 = ESTABLISHED \<and> written (log w2) = written (log w1) \<and> sock \<in> receiveSet w2 \<and>
    up_inv s2 \<and> pendingUp s2 = [] \<and> pendingDown s2 = [] \<and>
    receiveNext s2 = getSequenceNumber P p + 1 \<and> receiveUser s2 = getSequenceNumber P p + 1 \<and>
    receiveSequence s2 = getSequenceNumber P p + 1 \<and> sendNext s2 = sendNext s1 + 1 \<and>
    sendUnacknowledged s2 = sendNext s1 + 1 \<and> sendSequence s2 = sendNext s1 + 1 \<and>
    sendNewDataSequence s2 = sendNext s1 + 1 \<and> source s2 = getSource P p \<and> destination s2 = getDestination P p"
proof -
  note H = send_laws1_header [OF assms(1)]
  obtain t v where e: "establish1 P N s sock p (emit (EvConnect sock (getDestination P p)) w) = (t, v)"
    and sa: "sendSynAck1 P t p v = (s1, p1, w1)"
    using receiveSyn_connected [OF assms(2-6)] by blast
  note t = establish_fields [OF e]
  let ?a = "makeSyn P (sendNext t) (receiveNext t) (clearData P (swapEnds P p))"
  have s1: "s1 = t\<lparr>state := SYN_ACK_SENT\<rparr>" "p1 = ?a" "w1 = writePacket ?a v"
    using sa by (auto simp: sendSynAck1_def Let_def)
  have ackno: "getAcknowledgmentNumber P q = sendUnacknowledged s1 + 1"
    using assms(11) t(6) s1(1) by simp
  have "receiveHandshakeAck1 P N s1 q w1 = (s2, q2, w2)"
    using assms(7-9,12) s1(1) by (simp add: receiveFromClient1_def)
  then have s2: "state s2 = ESTABLISHED" "written (log w2) = written (log w1)"
    "sock \<in> receiveSet w2" "receiveNext s2 = receiveNext t" "receiveUser s2 = receiveUser t"
    "receiveSequence s2 = receiveSequence t" "clientReadFinished s2 = clientReadFinished t"
    "serverReadFinished s2 = serverReadFinished t"
    "sendNext s2 = getAcknowledgmentNumber P q" "sendUnacknowledged s2 = getAcknowledgmentNumber P q"
    "sendNewDataSequence s2 = getAcknowledgmentNumber P q" "sendSequence s2 = getAcknowledgmentNumber P q"
    "source s2 = source t" "destination s2 = destination t"
    using ackno assms(10) t(2,9) s1(1) by (auto simp: receiveHandshakeAck1_def Let_def)
  have "up_inv s2" "pendingUp s2 = []" "pendingDown s2 = []"
    using s2 t by (simp_all add: up_inv_def finUp_def pendingUp_def pendingDown_def bytesFrom_def)
  with s1 s2 t assms(11) show ?thesis by (simp add: ext_laws H assms(1))
qed

definition demo_syn :: demo_packet where
  "demo_syn = demo_packet\<lparr>dp_syn := True, dp_seq := 100, dp_win := 5000\<rparr>"

definition demo_ack :: demo_packet where
  "demo_ack = demo_packet\<lparr>dp_ack := True, dp_seq := 101, dp_ackno := 32\<rparr>"

lemma demo_handshake_packets [simp]:
  "dp_syn demo_syn" "\<not> dp_ack demo_syn" "\<not> dp_rst demo_syn" "dp_seq demo_syn = 100"
  "dp_src demo_syn = (1, 1)" "dp_dst demo_syn = (2, 2)" "dp_data demo_syn = []"
  "\<not> dp_syn demo_ack" "dp_ack demo_ack" "\<not> dp_rst demo_ack" "dp_seq demo_ack = 101"
  "dp_ackno demo_ack = 32" "dp_data demo_ack = []" "\<not> dp_fin demo_ack"
  by (simp_all add: demo_syn_def demo_ack_def)

lemma new_session1_simps [simp]:
  "state new_session1 = CLOSED" "sendLength new_session1 = 0" "sendBuffer new_session1 = None"
  "retryCount new_session1 = 0" "\<not> clientReadFinished new_session1" "\<not> serverReadFinished new_session1"
  by (simp_all add: new_session1_def)

theorem handshake_establishes_witness:
  "\<exists>s1 p1 w1 s2 q2 w2.
     receiveFromClient1 demo_ops1 all_net1 new_session1 demo_syn empty_world = (s1, p1, w1) \<and>
     receiveFromClient1 demo_ops1 all_net1 s1 demo_ack w1 = (s2, q2, w2) \<and>
     state s2 = ESTABLISHED \<and> receiveNext s2 = 101 \<and> sendNext s2 = 32"
proof -
  obtain s1 p1 w1 where r1: "receiveFromClient1 demo_ops1 all_net1 new_session1 demo_syn empty_world =
      (s1, p1, w1)" by (metis prod_cases3)
  obtain s2 q2 w2 where r2: "receiveFromClient1 demo_ops1 all_net1 s1 demo_ack w1 = (s2, q2, w2)"
    by (metis prod_cases3)
  have con: "sock_connect all_net1 (log empty_world) (getDestination demo_ops1 demo_syn) =
      (7, 0, False, False)" by simp
  obtain t v where e: "establish1 demo_ops1 all_net1 new_session1 7 demo_syn
      (emit (EvConnect 7 (getDestination demo_ops1 demo_syn)) empty_world) = (t, v)"
    and sa: "sendSynAck1 demo_ops1 t demo_syn v = (s1, p1, w1)"
    using receiveSyn_connected [OF _ _ _ con r1] by auto
  have "generateSequenceNo1 4 = 31" by (simp add: generateSequenceNo_parity)
  then have isn: "sendNext s1 = 31"
    using establish_fields(5) [OF e] sa by (auto simp: sendSynAck1_def Let_def)
  show ?thesis
    using handshake_establishes [OF demo_send_laws _ _ _ con r1 _ _ _ _ _ r2] isn r1 r2 by simp
qed

text \<open>
  Only two initial sequence numbers exist. The expression that was meant to bound the random number by
  \<open>2 ^ 31\<close> is parsed as a remainder modulo 2 followed by an exclusive or, so every session a
  SYN opens starts at 30 or 31.
\<close>

theorem initial_sequence_number:
  assumes "\<forall>h. 0 \<le> c_rand N h" and "state s = CLOSED" and "isSyn P p" and "\<not> isAck P p"
    and "sock_connect N (log w) (getDestination P p) = (sock, 0, inp, con)"
    and "receiveFromClient1 P N s p w = (s', p', w')"
  shows "sendNext s' \<in> {30, 31}"
proof -
  obtain t v where e: "establish1 P N s sock p (emit (EvConnect sock (getDestination P p)) w) = (t, v)"
    and sa: "sendSynAck1 P t p v = (s', p', w')"
    using receiveSyn_connected [OF assms(2-6)] by blast
  have "sendNext s' = sendNext t" using sa by (auto simp: sendSynAck1_def Let_def)
  then show ?thesis using establish_fields(5) [OF e] assms(1) by (simp add: generateSequenceNo_parity)
qed

theorem initial_sequence_number_witness:
  "sendNext (fst (receiveFromClient1 demo_ops1 all_net1 new_session1 demo_syn empty_world)) \<in> {30, 31}"
proof -
  obtain s1 p1 w1 where r: "receiveFromClient1 demo_ops1 all_net1 new_session1 demo_syn empty_world =
      (s1, p1, w1)" by (metis prod_cases3)
  have con: "sock_connect all_net1 (log empty_world) (getDestination demo_ops1 demo_syn) =
      (7, 0, False, False)" by simp
  have rnd: "\<forall>h. 0 \<le> c_rand all_net1 h" by simp
  show ?thesis using initial_sequence_number [OF rnd _ _ _ con r] r by simp
qed

text \<open>
  A session becomes established only through the handshake: a packet of the client
  takes a session that is not established to the established state exactly when a SYN and ACK was
  sent, the packet is a plain acknowledgment, its sequence number is the next one expected, and it
  acknowledges the session's own initial sequence number.
\<close>

theorem established_iff_acknowledged:
  assumes "state s \<noteq> ESTABLISHED" and "receiveFromClient1 P N s p w = (s', p', w')"
  shows "state s' = ESTABLISHED \<longleftrightarrow>
    state s = SYN_ACK_SENT \<and> \<not> isSyn P p \<and> \<not> isReset P p \<and> isAck P p \<and>
    getSequenceNumber P p = receiveNext s \<and>
    getAcknowledgmentNumber P p = sendUnacknowledged s + 1"
proof (cases "state s = SYN_ACK_SENT \<and> \<not> isSyn P p \<and> \<not> isReset P p \<and> isAck P p")
  case True
  then have "receiveHandshakeAck1 P N s p w = (s', p', w')"
    using assms(2) by (simp add: receiveFromClient1_def)
  with True show ?thesis
    by (auto simp: receiveHandshakeAck1_def Let_def case_prod_unfold split: if_splits)
next
  case False
  then have "state s' \<noteq> ESTABLISHED"
    using assms
    by (auto simp: receiveFromClient1_def receiveSyn1_def receiveReset1_def
        sendSynAck1_def closeSession1_def Let_def case_prod_unfold
        split: if_splits states1.splits)
  with False show ?thesis by auto
qed

theorem established_iff_acknowledged_witness:
  "state (fst (receiveFromClient1 demo_ops1 all_net1
     (new_session1\<lparr>state := SYN_ACK_SENT, receiveNext := 101, sendUnacknowledged := 31\<rparr>) demo_ack
     empty_world)) = ESTABLISHED"
proof -
  let ?s = "new_session1\<lparr>state := SYN_ACK_SENT, receiveNext := 101, sendUnacknowledged := 31\<rparr>"
  obtain s1 p1 w1 where r: "receiveFromClient1 demo_ops1 all_net1 ?s demo_ack empty_world =
      (s1, p1, w1)" by (metis prod_cases3)
  show ?thesis using established_iff_acknowledged [OF _ r] r by simp
qed

section \<open>Resets\<close>

text \<open>
  A reset of the client is never answered. It closes a session that is not closed exactly when its
  sequence number lies in the receive window, and otherwise changes nothing.
\<close>

theorem reset_closes_iff_in_window:
  assumes "isReset P p" and "\<not> isSyn P p"
    and "unat (receiveNext s) + unat (getReceiveAvailable s) < 2 ^ 32"
    and "receiveFromClient1 P N s p w = (s', p', w')"
  shows "written (log w') = written (log w) \<and> p' = p \<and>
    (if state s \<noteq> CLOSED \<and> unat (receiveNext s) \<le> unat (getSequenceNumber P p) \<and>
        unat (getSequenceNumber P p) < unat (receiveNext s) + unat (getReceiveAvailable s)
     then s' = s\<lparr>state := CLOSED\<rparr> \<and> mSock s \<notin> receiveSet w' \<union> sendSet w' \<union> errorSet w'
     else s' = s \<and> w' = w)"
proof -
  have lim: "unat (receiveNext s + getReceiveAvailable s) =
      unat (receiveNext s) + unat (getReceiveAvailable s)"
    by (rule unat_add_small') (rule assms(3))
  have "receiveReset1 P s p w = (s', p', w')"
    using assms(1,2,4) by (simp add: receiveFromClient1_def)
  then show ?thesis
    by (auto simp: receiveReset1_def closeSession1_def Let_def word_le_nat_alt word_less_nat_alt lim
        split: if_splits)
qed

theorem reset_closes_iff_in_window_witness:
  "state (fst (receiveFromClient1 demo_ops1 all_net1 demo_session1
     ((demo_segment1 101 [])\<lparr>dp_rst := True\<rparr>) empty_world)) = CLOSED"
proof -
  let ?p = "(demo_segment1 101 [])\<lparr>dp_rst := True\<rparr>"
  obtain s1 p1 w1 where r: "receiveFromClient1 demo_ops1 all_net1 demo_session1 ?p empty_world =
      (s1, p1, w1)" by (metis prod_cases3)
  have av: "unat (getReceiveAvailable demo_session1) = 16384"
    using getReceiveAvailable_exact [OF demo_session1_up(1)] by simp
  show ?thesis using reset_closes_iff_in_window [OF _ _ _ r] r av by simp
qed

text \<open>
  What is answered with a reset. Outside an established connection, a packet that is neither a SYN nor
  a reset and does not complete a handshake is answered with exactly one reset, from its destination
  to its source, that carries the sequence number the packet acknowledged or, when it acknowledged nothing, acknowledges
  the end of the packet; the session does not change.
\<close>

theorem stray_packet_reset:
  assumes "header_laws P" and "state s \<noteq> ESTABLISHED" and "\<not> isSyn P p" and "\<not> isReset P p"
    and "\<not> (state s = SYN_ACK_SENT \<and> isAck P p \<and> getSequenceNumber P p = receiveNext s \<and>
           getAcknowledgmentNumber P p = sendUnacknowledged s + 1)"
    and "receiveFromClient1 P N s p w = (s', p', w')"
  shows "s' = s \<and> written (log w') = written (log w) @ [p'] \<and> isReset P p' \<and> \<not> isSyn P p' \<and>
    getSource P p' = getDestination P p \<and> getDestination P p' = getSource P p \<and>
    (if isAck P p then getSequenceNumber P p' = getAcknowledgmentNumber P p
     else getAcknowledgmentNumber P p' = getSequenceNumber P p + getSegmentLength P p)"
proof -
  have "s' = s \<and> sendReset1 P p w = (p', w')"
    using assms(2-6)
    by (auto simp: receiveFromClient1_def receiveHandshakeAck1_def Let_def case_prod_unfold
        split: states1.splits if_splits)
  then show ?thesis
    by (auto simp: sendReset1_def Let_def ext_laws assms(1))
qed

theorem stray_packet_reset_witness:
  "isReset demo_ops1 (fst (snd (receiveFromClient1 demo_ops1 all_net1 new_session1
     (demo_segment1 500 [1, 2]) empty_world)))"
proof -
  obtain s1 p1 w1 where r: "receiveFromClient1 demo_ops1 all_net1 new_session1 (demo_segment1 500 [1, 2])
      empty_world = (s1, p1, w1)" by (metis prod_cases3)
  show ?thesis using stray_packet_reset [OF demo_laws1(1) _ _ _ _ r] r by simp
qed

end
