(* ===== verification/SessionV1_Run.thy ===== *)
theory SessionV1_Run
  imports SessionV1_Machine
begin

text \<open>
  Whole runs of a session: any sequence of calls of its entry points, with any packets and any
  answers of the outside that satisfy the stated bounds, keeps the invariants of both
  directions, never leaves a buffer and never hangs.
\<close>

section \<open>Runs\<close>

datatype 'p op1 = FromClient 'p | FromServer 'p | FlushServer 'p | FlushClient 'p

type_synonym 'p run1 = "(session1 \<times> 'p world) option"

fun session_step1 ::
  "('p, 'x) packet_ops1_scheme \<Rightarrow> 'p net1 \<Rightarrow> 'p run1 \<Rightarrow> 'p op1 \<Rightarrow> 'p run1" where
  "session_step1 P N None e = None"
| "session_step1 P N (Some (s, w)) (FromClient p) =
     (case receiveFromClient1 P N s p w of (s', p', w') \<Rightarrow> Some (s', w'))"
| "session_step1 P N (Some (s, w)) (FromServer p) =
     (case receiveFromServer1 P N s p w of None \<Rightarrow> None
      | Some (room, s', p', w') \<Rightarrow> Some (s', w'))"
| "session_step1 P N (Some (s, w)) (FlushServer p) =
     (case flushDataToServer1 P N s p w of (s', p', w') \<Rightarrow> Some (s', w'))"
| "session_step1 P N (Some (s, w)) (FlushClient p) =
     (case flushDataToClient1 P N s p w of None \<Rightarrow> None
      | Some (s', p', w') \<Rightarrow> Some (s', w'))"

section \<open>Which states a run reaches\<close>

definition known_state1 :: "'p run1 \<Rightarrow> bool" where
  "known_state1 c = (case c of None \<Rightarrow> True
     | Some (s, w) \<Rightarrow> state s \<in> {CLOSED, SYN_RECEIVED, SYN_ACK_SENT, ESTABLISHED})"

lemma trans_known: "session_trans1 x y \<Longrightarrow> x \<in> {CLOSED, SYN_RECEIVED, SYN_ACK_SENT, ESTABLISHED} \<Longrightarrow>
  y \<in> {CLOSED, SYN_RECEIVED, SYN_ACK_SENT, ESTABLISHED}"
  by (cases rule: session_trans1.cases) auto

lemma session_step_trans:
  assumes "session_step1 P N (Some (s, w)) e = Some (s', w')"
  shows "session_trans1 (state s) (state s')"
proof (cases e)
  case (FromClient p)
  then show ?thesis using assms receiveFromClient_trans [of P N s p w] by (auto split: prod.splits)
next
  case (FromServer p)
  then show ?thesis using assms readServer_state [of P N s p w]
    by (fastforce intro: session_transI split: option.splits)
next
  case (FlushServer p)
  then show ?thesis using assms flush_server_state [of P N s p w]
    by (auto intro: session_transI split: prod.splits)
next
  case (FlushClient p)
  then show ?thesis using assms flush_client_state [of P N s p w]
    by (fastforce intro: session_transI split: option.splits)
qed

lemma known_state_step: "known_state1 c \<Longrightarrow> known_state1 (session_step1 P N c e)"
proof (cases "session_step1 P N c e")
  case None
  then show ?thesis by (simp add: known_state1_def)
next
  case (Some c')
  assume k: "known_state1 c"
  obtain s w where c: "c = Some (s, w)" using Some by (cases c) auto
  obtain s' w' where c': "c' = (s', w')" by fastforce
  have "session_trans1 (state s) (state s')"
    using session_step_trans [of P N s w e s' w'] Some c c' by simp
  from trans_known [OF this] k Some c c' show ?thesis by (simp add: known_state1_def)
qed

interpretation v1_states: step_invariant "session_step1 P N" "\<lambda>_ _. True" known_state1 for P N
  by unfold_locales (rule known_state_step)

lemma run_ok_True: "run_ok f (\<lambda>_ _. True) s es"
  by (induction es arbitrary: s) simp_all

text \<open>
  Two of the six states are never entered. Whatever the client, the server and the
  outside do, a session that starts closed is only ever closed, waiting for its connection,
  waiting for the client's acknowledgment, or established.
\<close>

theorem run_states:
  "known_state1 (run_steps (session_step1 P N) (Some (new_session1, w)) es)"
  by (rule v1_states.run_keeps) (simp_all add: known_state1_def run_ok_True)

section \<open>The descriptor sets only shrink outside the handshake\<close>

lemma trim_sets: "receiveSet (snd (trimReceiveBuffer_now N s w)) = receiveSet w"
  "receiveSet (snd (trimReceiveBuffer N s w)) = receiveSet w"
  by (simp_all add: trimReceiveBuffer_now_def trimReceiveBuffer_def Let_def)

lemma finishUpStream_sets: "receiveSet (snd (finishUpStream s w)) \<subseteq> receiveSet w"
  by (auto simp: finishUpStream_def Let_def)

lemma afterSend_sets: "receiveSet (snd (snd (afterSend1 P N s p n w))) \<subseteq> receiveSet w"
  using finishUpStream_sets
  by (auto simp: afterSend1_def Let_def case_prod_unfold trim_sets split: if_splits)

lemma flush_server_sets: "receiveSet (snd (snd (flushDataToServer1 P N s p w))) \<subseteq> receiveSet w"
  using finishUpStream_sets afterSend_sets
  by (fastforce simp: flushDataToServer1_def Let_def case_prod_unfold split: if_splits)

lemma makeRoom_sets: "receiveSet (snd (snd (makeRoom1 P N len s p w))) \<subseteq> receiveSet w"
  by (auto simp: makeRoom1_def Let_def case_prod_unfold trim_sets
      dest!: subsetD [OF flush_server_sets])

lemma storeSegment_sets: "receiveSet (snd (storeSegment1 P len s p w)) = receiveSet w"
  by (simp add: storeSegment1_def Let_def)

lemma completeOrAcknowledge_sets:
  "receiveSet (snd (snd (completeOrAcknowledge1 P N s p w))) \<subseteq> receiveSet w"
  by (auto simp: completeOrAcknowledge1_def acknowledgeDelayed1_def Let_def case_prod_unfold)

section \<open>A segment of an established client and the send side\<close>

definition down_core where
  "down_core s = (serverReadFinished s, sendBuffer s, sendLength s, sendSequence s,
     sendUnacknowledged s, sendNext s, sendNewDataSequence s, retryCount s, mss s, mSock s)"

lemma flush_frame_core: "flush_frame s t \<Longrightarrow> down_core t = down_core s"
  by (simp add: flush_frame_def down_view_def down_core_def)

lemma storeSegment_core: "down_core (fst (storeSegment1 P len s p w)) = down_core s"
  using storeSegment_frame [of P len s p w] by (simp add: down_core_def down_view_def)

lemma completeOrAcknowledge_core: "down_core (fst (completeOrAcknowledge1 P N s p w)) = down_core s"
  by (simp add: completeOrAcknowledge1_def acknowledgeDelayed1_def closeSession1_def down_core_def
      Let_def)

lemma receiveEstablished_down:
  assumes seq: "getSequenceNumber P p = receiveNext s"
    and r: "receiveEstablished1 P N s p w = (s', p', w')"
  shows "down_core s' = down_core (s\<lparr>sendUnacknowledged :=
      max (sendUnacknowledged s) (getAcknowledgmentNumber P p), retryCount := 0\<rparr>) \<and>
    receiveSet w' \<subseteq> receiveSet w"
proof -
  let ?L = "getDataLength P p"
  let ?s1 = "s\<lparr>sendUnacknowledged := max (sendUnacknowledged s) (getAcknowledgmentNumber P p),
               retryCount := 0\<rparr>"
  obtain s2 p2 w2 where mr: "makeRoom1 P N ?L ?s1 p w = (s2, p2, w2)" by (metis prod_cases3)
  obtain s3 w3 where st: "storeSegment1 P ?L s2 p2 w2 = (s3, w3)" by fastforce
  obtain s4 p4 w4 where fl: "flushDataToServer1 P N s3 p2 w3 = (s4, p4, w4)" by (metis prod_cases3)
  have "down_core s2 = down_core ?s1" "receiveSet w2 \<subseteq> receiveSet w"
    using flush_frame_core [OF makeRoom_frame [of ?s1 P N ?L p w]] makeRoom_sets [of P N ?L ?s1 p w] mr
    by simp_all
  moreover have "down_core s3 = down_core s2" "receiveSet w3 = receiveSet w2"
    using storeSegment_core [of P ?L s2 p2 w2] storeSegment_sets [of P ?L s2 p2 w2] st by simp_all
  moreover have "down_core s4 = down_core s3" "receiveSet w4 \<subseteq> receiveSet w3"
    using flush_frame_core [OF flush_frame_flush [of s3 P N p2 w3]] flush_server_sets [of P N s3 p2 w3] fl
    by simp_all
  ultimately have s4: "down_core s4 = down_core ?s1" "receiveSet w4 \<subseteq> receiveSet w" by auto
  have "receiveEstablished1 P N s p w =
      (if \<not> clientReadFinished s
       then if state s4 = CLOSED then (s4, p4, w4) else completeOrAcknowledge1 P N s4 p4 w4
       else completeOrAcknowledge1 P N ?s1 p w)"
    using seq mr st fl by (simp add: receiveEstablished1_def Let_def)
  with r consider "s' = s4 \<and> w' = w4" | "completeOrAcknowledge1 P N s4 p4 w4 = (s', p', w')"
    | "completeOrAcknowledge1 P N ?s1 p w = (s', p', w')"
    by (auto split: if_splits)
  then show ?thesis
  proof cases
    case 1
    then show ?thesis using s4 by simp
  next
    case 2
    then show ?thesis
      using s4 completeOrAcknowledge_core [of P N s4 p4 w4] completeOrAcknowledge_sets [of P N s4 p4 w4]
      by auto
  next
    case 3
    then show ?thesis
      using completeOrAcknowledge_core [of P N ?s1 p w] completeOrAcknowledge_sets [of P N ?s1 p w]
      by auto
  qed
qed

section \<open>The invariant of a run\<close>

definition fresh1 :: "session1 \<Rightarrow> bool" where
  "fresh1 s \<longleftrightarrow> receiveUser s = receiveNext s \<and> receiveSequence s = receiveNext s \<and>
     sendUnacknowledged s = sendNext s \<and> sendSequence s = sendNext s \<and>
     sendNewDataSequence s = sendNext s \<and> \<not> clientReadFinished s \<and> \<not> serverReadFinished s \<and>
     sendBuffer s \<noteq> None"

definition phase1 :: "nat \<Rightarrow> session1 \<Rightarrow> bool" where
  "phase1 cap s = (case state s of
     CLOSED \<Rightarrow> True
   | SYN_RECEIVED \<Rightarrow> fresh1 s \<and> 0 < mss s \<and> unat (mss s) \<le> cap
   | SYN_ACK_SENT \<Rightarrow> fresh1 s \<and> 0 < mss s \<and> unat (mss s) \<le> cap
   | ESTABLISHED \<Rightarrow> up_inv s \<and> down_inv s \<and> 0 < mss s \<and> unat (mss s) \<le> cap
   | _ \<Rightarrow> False)"

definition session_inv1 :: "nat \<Rightarrow> session1 \<Rightarrow> 'p world \<Rightarrow> bool" where
  "session_inv1 cap s w \<longleftrightarrow> phase1 cap s \<and> fault_free w \<and> unat (sendLength s) < 2 ^ 31 \<and>
     unat (retryCount s) \<le> 3 \<and>
     (state s = ESTABLISHED \<and> serverReadFinished s \<longrightarrow> mSock s \<notin> receiveSet w)"

text \<open>
  The bounds on the calls. A SYN announces a segment size that a packet can carry, not 0,
  and a window shift of at most 14 (RFC 7323). A segment for an established session acknowledges
  only what was sent, fits in the buffer and does not reach the wrap-around. The server is
  read only while its socket is in the set of the select loop.
\<close>

fun session_ok1 ::
  "('p, 'x) packet_ops1_scheme \<Rightarrow> nat \<Rightarrow> 'p run1 \<Rightarrow> 'p op1 \<Rightarrow> bool" where
  "session_ok1 P cap None e = True"
| "session_ok1 P cap (Some (s, w)) (FromClient p) =
     ((isSyn P p \<longrightarrow> 0 < getMSS P p \<and> unat (getMSS P p) \<le> cap \<and> unat (getWindowShift P p) \<le> 14) \<and>
      (state s = ESTABLISHED \<longrightarrow> getAcknowledgmentNumber P p \<le> sendNext s \<and>
         length (payload P p) \<le> 16384 \<and>
         unat (receiveNext s) + length (payload P p) + 1 < 2 ^ 32))"
| "session_ok1 P cap (Some (s, w)) (FromServer p) =
     (mSock s \<in> receiveSet w \<and>
      unat (sendNewDataSequence s) + unat (sendLength s) + 1 < 2 ^ 32)"
| "session_ok1 P cap (Some (s, w)) (FlushServer p) = True"
| "session_ok1 P cap (Some (s, w)) (FlushClient p) = True"

definition session_laws1 :: "('p, 'x) packet_ops1_scheme \<Rightarrow> 'p net1 \<Rightarrow> nat \<Rightarrow> bool" where
  "session_laws1 P N cap \<longleftrightarrow> send_laws1 P \<and> payload_laws1 P \<and> blocking_sends N \<and> recv_laws1 N \<and>
     (\<forall>q. cap \<le> payloadCapacity P q)"

lemma session_inv_closed:
  assumes "session_inv1 cap s w" and "state s' = CLOSED" and "fault_free w'"
    and "sendLength s' = sendLength s" and "unat (retryCount s') \<le> 3"
  shows "session_inv1 cap s' w'"
  using assms by (simp add: session_inv1_def phase1_def)

lemma down_core_kept:
  "down_core s' = down_core s \<Longrightarrow> down_inv s \<Longrightarrow> down_inv s' \<and> sendLength s' = sendLength s \<and>
     mss s' = mss s \<and> retryCount s' = retryCount s \<and> mSock s' = mSock s \<and>
     serverReadFinished s' = serverReadFinished s"
  by (simp add: down_core_def down_inv_def finDown_def)

section \<open>Every call keeps the invariant\<close>

lemma push_bit_limit:
  assumes "n \<le> 14"
  shows "unat (push_bit n (65535 :: u32) * 2) < 2 ^ 31"
proof -
  have b: "65535 * 2 ^ n * 2 \<le> (65535 * 2 ^ 14 * 2 :: nat)"
    using assms by (intro mult_le_mono le_refl power_increasing) simp_all
  have "push_bit n (65535 :: u32) * 2 = word_of_nat (65535 * 2 ^ n * 2)"
    by (simp add: push_bit_eq_mult)
  then have "unat (push_bit n (65535 :: u32) * 2) = 65535 * 2 ^ n * 2"
    using b by (simp only: unat_of_nat take_bit_nat_eq_self) (simp add: take_bit_nat_eq_self)
  with b show ?thesis by simp
qed

lemma receive_syn_keeps:
  assumes inv: "session_inv1 cap s w" and cl: "state s = CLOSED" and sy: "isSyn P p" "\<not> isAck P p"
    and ok: "0 < getMSS P p" "unat (getMSS P p) \<le> cap" "unat (getWindowShift P p) \<le> 14"
    and r: "receiveFromClient1 P N s p w = (s', p', w')"
  shows "session_inv1 cap s' w'"
proof -
  obtain sock res inp con where con: "sock_connect N (log w) (getDestination P p) = (sock, res, inp, con)"
    by (metis prod_cases4)
  let ?w = "emit (EvConnect sock (getDestination P p)) w"
  obtain t v where e: "establish1 P N s sock p ?w = (t, v)" by fastforce
  note t = establish_fields [OF e]
  have "(s', w') = (s, snd (sendReset1 P p ?w)) \<or> s' = t\<lparr>state := SYN_RECEIVED\<rparr> \<and> w' = v \<or>
      s' = t\<lparr>state := SYN_ACK_SENT\<rparr> \<and> (\<exists>q. w' = writePacket q v)"
    using r cl sy con e
    by (auto simp: receiveFromClient1_def receiveSyn1_def sendSynAck1_def Let_def case_prod_unfold
        split: if_splits)
  moreover have "unat (sendLength t) < 2 ^ 31"
    using t(18) push_bit_limit [OF ok(3)] inv by (auto simp: session_inv1_def)
  ultimately show ?thesis
    using inv cl t ok(1,2)
    by (auto simp: session_inv1_def phase1_def fresh1_def sendReset1_def Let_def)
qed

lemma sendReset_fault [simp]: "fault_free (snd (sendReset1 P p w)) = fault_free w"
  by (simp add: sendReset1_def Let_def)

lemma half_open_other:
  assumes st: "state s \<in> {SYN_RECEIVED, SYN_ACK_SENT}"
    and no: "\<not> (state s = SYN_ACK_SENT \<and> \<not> isSyn P p \<and> \<not> isReset P p \<and> isAck P p)"
    and r: "receiveFromClient1 P N s p w = (s', p', w')"
  shows "s' = s \<and> fault_free w' = fault_free w \<or>
    s' = s\<lparr>state := SYN_ACK_SENT\<rparr> \<and> fault_free w' = fault_free w \<or>
    s' = s\<lparr>state := CLOSED\<rparr> \<and> fault_free w' = fault_free w"
proof -
  have reset: ?thesis if "(let (p1, w1) = sendReset1 P p w in (s, p1, w1)) = (s', p', w')"
    using that sendReset_fault [of P p w] by (auto simp: Let_def case_prod_unfold)
  have again: ?thesis if "sendSynAck1 P s p w = (s', p', w')"
    using that by (auto simp: sendSynAck1_def Let_def)
  consider "isSyn P p \<and> \<not> isAck P p" | "isSyn P p \<and> isAck P p" | "\<not> isSyn P p \<and> isReset P p"
    | "\<not> isSyn P p \<and> \<not> isReset P p"
    by blast
  then show ?thesis
  proof cases
    case 1
    then show ?thesis using r st reset again
      by (auto simp: receiveFromClient1_def receiveSyn1_def split: if_splits)
  next
    case 2
    then show ?thesis using r reset by (simp add: receiveFromClient1_def)
  next
    case 3
    then have "receiveReset1 P s p w = (s', p', w')" using r by (simp add: receiveFromClient1_def)
    then show ?thesis
      by (auto simp: receiveReset1_def closeSession1_def fault_free_def Let_def split: if_splits)
  next
    case 4
    then show ?thesis using r st no reset by (auto simp: receiveFromClient1_def split: if_splits)
  qed
qed

lemma receive_handshake_keeps:
  assumes inv: "session_inv1 cap s w" and st: "state s \<in> {SYN_RECEIVED, SYN_ACK_SENT}"
    and r: "receiveFromClient1 P N s p w = (s', p', w')"
  shows "session_inv1 cap s' w'"
proof -
  have f: "fresh1 s" "0 < mss s" "unat (mss s) \<le> cap" "fault_free w" "unat (sendLength s) < 2 ^ 31"
    "unat (retryCount s) \<le> 3"
    using inv st by (auto simp: session_inv1_def phase1_def)
  consider (same) "s' = s" "fault_free w' = fault_free w"
    | (again) "s' = s\<lparr>state := SYN_ACK_SENT\<rparr>" "fault_free w' = fault_free w"
    | (closed) "s' = s\<lparr>state := CLOSED\<rparr>" "fault_free w' = fault_free w"
    | (opened) "state s' = ESTABLISHED" "fault_free w' = fault_free w" "up_inv s'" "down_inv s'"
        "mss s' = mss s" "sendLength s' = sendLength s" "retryCount s' = retryCount s"
        "\<not> serverReadFinished s'"
  proof (cases "state s = SYN_ACK_SENT \<and> \<not> isSyn P p \<and> \<not> isReset P p \<and> isAck P p")
    case True
    then have h: "receiveHandshakeAck1 P N s p w = (s', p', w')"
      using r by (simp add: receiveFromClient1_def)
    show ?thesis
    proof (cases "getSequenceNumber P p = receiveNext s \<and>
        getAcknowledgmentNumber P p = sendUnacknowledged s + 1")
      case True
      let ?a = "getAcknowledgmentNumber P p"
      have e: "s' = s\<lparr>sendNext := ?a, sendNewDataSequence := ?a, sendUnacknowledged := ?a,
          sendSequence := ?a, rtt := rtt s',
          lastTimeAcknowledgmentAccepted := lastTimeAcknowledgmentAccepted s',
          state := ESTABLISHED\<rparr> \<and> fault_free w' = fault_free w"
        using h True unfolding receiveHandshakeAck1_def Let_def by simp (elim conjE, hypsubst, simp)
      have "up_inv s'" "down_inv s'" "\<not> serverReadFinished s'"
        by (subst e [THEN conjunct1], use f in \<open>simp add: up_inv_def down_inv_def finUp_def finDown_def fresh1_def\<close>)+
      moreover have "state s' = ESTABLISHED" "mss s' = mss s" "sendLength s' = sendLength s"
        "retryCount s' = retryCount s"
        by (subst e [THEN conjunct1], simp)+
      ultimately show ?thesis using e opened by blast
    next
      case False
      have "s' = s \<and> w' = snd (sendReset1 P p w)"
        using h False by (auto simp: receiveHandshakeAck1_def Let_def case_prod_unfold split: if_splits)
      then show ?thesis using same by simp
    qed
  next
    case False
    from half_open_other [OF st False r] show ?thesis using same again closed by blast
  qed
  then show ?thesis
  proof cases
    case same
    then show ?thesis using inv st by (auto simp: session_inv1_def)
  next
    case again
    then show ?thesis using f by (auto simp: session_inv1_def phase1_def fresh1_def)
  next
    case closed
    then show ?thesis using f by (auto simp: session_inv1_def phase1_def)
  next
    case opened
    then show ?thesis using f by (auto simp: session_inv1_def phase1_def)
  qed
qed

lemma inv_established:
  assumes "session_inv1 cap s w" and "state s = ESTABLISHED"
  shows "up_inv s" and "down_inv s" and "0 < mss s" and "unat (mss s) \<le> cap"
    and "serverReadFinished s \<longrightarrow> mSock s \<notin> receiveSet w"
  using assms by (simp_all add: session_inv1_def phase1_def)

text \<open>A step that stays established and keeps the send side up to acknowledgments.\<close>

lemma established_keeps:
  assumes inv: "session_inv1 cap s w" and est: "state s = ESTABLISHED"
    and core: "down_core s' = down_core t" and t: "down_inv t" "mss t = mss s"
      "sendLength t = sendLength s" "unat (retryCount t) \<le> 3" "mSock t = mSock s"
      "serverReadFinished t = serverReadFinished s"
    and st: "state s' = ESTABLISHED \<or> state s' = CLOSED"
    and up: "state s' = ESTABLISHED \<Longrightarrow> up_inv s'"
    and w: "fault_free w'" "receiveSet w' \<subseteq> receiveSet w"
  shows "session_inv1 cap s' w'"
proof -
  note k = down_core_kept [OF core t(1)] and i = inv_established [OF inv est]
  show ?thesis
    using st
  proof
    assume "state s' = CLOSED"
    with inv k t w show ?thesis by (intro session_inv_closed [OF inv]) simp_all
  next
    assume e: "state s' = ESTABLISHED"
    with k i t w up inv show ?thesis by (auto simp: session_inv1_def phase1_def)
  qed
qed

lemma acknowledged_down:
  assumes "down_inv s" and "a \<le> sendNext s"
  shows "down_inv (s\<lparr>sendUnacknowledged := max (sendUnacknowledged s) a, retryCount := 0\<rparr>)"
proof -
  have "sendSequence s \<le> max (sendUnacknowledged s) a" "max (sendUnacknowledged s) a \<le> sendNext s"
    using assms by (auto simp: down_inv_def max_def)
  with assms(1) show ?thesis by (simp add: down_inv_def finDown_def)
qed

lemma receive_established_keeps:
  assumes laws: "session_laws1 P N cap" and inv: "session_inv1 cap s w" and est: "state s = ESTABLISHED"
    and ok: "getAcknowledgmentNumber P p \<le> sendNext s" "length (payload P p) \<le> 16384"
      "unat (receiveNext s) + length (payload P p) + 1 < 2 ^ 32"
    and r: "receiveFromClient1 P N s p w = (s', p', w')"
  shows "session_inv1 cap s' w'"
proof (cases "\<not> isSyn P p \<and> \<not> isReset P p \<and> isAck P p \<and> getSequenceNumber P p = receiveNext s")
  case True
  let ?s1 = "s\<lparr>sendUnacknowledged := max (sendUnacknowledged s) (getAcknowledgmentNumber P p),
               retryCount := 0\<rparr>"
  note i = inv_established [OF inv est]
  have h: "receiveEstablished1 P N s p w = (s', p', w')"
    using r True est by (simp add: receiveFromClient1_def)
  have st: "state s' = ESTABLISHED \<or> state s' = CLOSED"
    using receiveEstablished_state [of P N s p w] h est by simp
  note d = receiveEstablished_down [OF conjunct2 [OF conjunct2 [OF conjunct2 [OF True]]] h]
  have "fault_free w' = fault_free w \<and> (state s' = ESTABLISHED \<longrightarrow> up_inv s')"
  proof (cases "clientReadFinished s")
    case False
    then show ?thesis
      using receiveEstablished_up [OF _ _ i(1) est False _ ok(2,3) h] laws True
      by (simp add: session_laws1_def)
  next
    case fin: True
    have "completeOrAcknowledge1 P N ?s1 p w = (s', p', w')"
      using h True fin by (simp add: receiveEstablished1_def Let_def)
    from completeOrAcknowledge_up(1,4) [OF this] i(1) show ?thesis
      by (simp add: up_inv_def finUp_def)
  qed
  with inv have w': "fault_free w'" and up: "state s' = ESTABLISHED \<Longrightarrow> up_inv s'"
    by (simp_all add: session_inv1_def)
  show ?thesis
    by (rule established_keeps [OF inv est conjunct1 [OF d] acknowledged_down [OF i(2) ok(1)]
          _ _ _ _ _ st up w' conjunct2 [OF d]]) simp_all
next
  case False
  have "(s' = s \<or> s' = s\<lparr>state := CLOSED\<rparr>) \<and> fault_free w' = fault_free w \<and>
      receiveSet w' \<subseteq> receiveSet w"
  proof -
    have reset: ?thesis if "(let (p1, w1) = sendReset1 P p w in (s, p1, w1)) = (s', p', w')"
      using that by (auto simp: sendReset1_def Let_def)
    have ack: ?thesis if "(let (p1, w1) = sendAck1 P s p w in (s, p1, w1)) = (s', p', w')"
      using that by (auto simp: sendAck1_def Let_def)
    have rst: ?thesis if "receiveReset1 P s p w = (s', p', w')"
      using that by (auto simp: receiveReset1_def closeSession1_def fault_free_def Let_def split: if_splits)
    show ?thesis using r est False reset ack rst
      by (auto simp: receiveFromClient1_def receiveSyn1_def receiveEstablished1_def split: if_splits)
  qed
  then show ?thesis using inv est by (auto simp: session_inv1_def phase1_def)
qed

lemma flush_server_keeps:
  assumes laws: "session_laws1 P N cap" and inv: "session_inv1 cap s w"
    and r: "flushDataToServer1 P N s p w = (s', p', w')"
  shows "session_inv1 cap s' w'"
proof (cases "state s = ESTABLISHED")
  case True
  note i = inv_established [OF inv True]
  have ws: "whole_sends N" using laws by (simp add: session_laws1_def blocking_whole)
  note f = flush_whole [OF i(1) True ws r]
  have core: "down_core s' = down_core s"
    using flush_frame_core [OF flush_frame_flush [of s P N p w]] r by simp
  have st: "state s' = ESTABLISHED \<or> state s' = CLOSED"
    using flush_server_state [of P N s p w] r True by simp
  have sets: "receiveSet w' \<subseteq> receiveSet w" using flush_server_sets [of P N s p w] r by simp
  show ?thesis
    using established_keeps [OF inv True core i(2) _ _ _ _ _ st f(1) _ sets] f(2) inv
    by (simp add: session_inv1_def)
next
  case False
  then show ?thesis using r inv by (simp add: flushDataToServer1_def)
qed

lemma flush_client_keeps:
  assumes laws: "session_laws1 P N cap" and inv: "session_inv1 cap s w"
  shows "\<exists>s' p' w'. flushDataToClient1 P N s p w = Some (s', p', w') \<and> session_inv1 cap s' w'"
proof (cases "state s = ESTABLISHED")
  case True
  note i = inv_established [OF inv True]
  have cap: "\<And>q. unat (mss s) \<le> payloadCapacity P q"
    using i(4) laws by (auto simp: session_laws1_def intro: order_trans)
  have sl: "send_laws1 P" using laws by (simp add: session_laws1_def)
  obtain s' p' w' where f: "flushDataToClient1 P N s p w = Some (s', p', w')"
    "fault_free w' = fault_free w" "state s' = ESTABLISHED \<or> state s' = CLOSED"
    "up_view s' = up_view s" "down_kept s' = down_kept s" "down_inv s'"
    "receiveSet w' \<subseteq> receiveSet w"
    "retryCount s' = retryCount s \<or> retryCount s \<noteq> 3 \<and> retryCount s' = retryCount s + 1"
    using flush_client_spec [OF sl cap i(3,2) True, where p = p and N = N and w = w and f = 0] by blast
  have "up_inv s' = up_inv s" using f(4) by (intro up_inv_cong) (simp_all add: up_view_def)
  moreover have "unat (retryCount s') \<le> 3"
    using retry_bound [OF f(8)] inv by (simp add: session_inv1_def)
  ultimately have "session_inv1 cap s' w'"
    using f(2-7) i inv
    by (auto simp: session_inv1_def phase1_def up_view_def down_kept_def)
  with f(1) show ?thesis by blast
next
  case False
  then show ?thesis using inv by (simp add: flushDataToClient1_def)
qed

lemma read_server_keeps:
  assumes laws: "session_laws1 P N cap" and inv: "session_inv1 cap s w"
    and ok: "mSock s \<in> receiveSet w" "unat (sendNewDataSequence s) + unat (sendLength s) + 1 < 2 ^ 32"
  shows "\<exists>room s' p' w'. receiveFromServer1 P N s p w = Some (room, s', p', w') \<and>
    session_inv1 cap s' w'"
proof (cases "state s = ESTABLISHED")
  case True
  note i = inv_established [OF inv True]
  have open_down: "\<not> serverReadFinished s" using i(5) ok(1) by auto
  let ?n = "unat (getSendAvailable (fst (trimSendBuffer N s w)))"
  obtain t bs where a: "sock_receive N (log w) (mSock s) ?n = (t, bs)" by fastforce
  have sl: "send_laws1 P" "recv_laws1 N" using laws by (simp_all add: session_laws1_def)
  have cap: "\<forall>q. unat (mss s) \<le> payloadCapacity P q"
    using i(4) laws by (auto simp: session_laws1_def intro: order_trans)
  obtain room s' p' w' where f: "receiveFromServer1 P N s p w = Some (room, s', p', w')"
    "fault_free w' = fault_free w" "down_inv s'" "up_view s' = up_view s"
    "state s' = ESTABLISHED \<or> state s' = CLOSED" "sendLength s' = sendLength s"
    "unat (retryCount s) \<le> 3 \<longrightarrow> unat (retryCount s') \<le> 3"
    "serverReadFinished s' \<longrightarrow> mSock s' \<notin> receiveSet w'"
    using receiveFromServer_spec [OF sl cap i(3,2) True open_down ok(2) refl a, of p] by blast
  have "up_inv s' = up_inv s" using f(4) by (intro up_inv_cong) (simp_all add: up_view_def)
  with f(2-8) i inv have "session_inv1 cap s' w'"
    by (auto simp: session_inv1_def phase1_def up_view_def)
  with f(1) show ?thesis by blast
next
  case False
  then show ?thesis using inv by (auto simp: receiveFromServer1_def)
qed

lemma receive_keeps:
  assumes laws: "session_laws1 P N cap" and inv: "session_inv1 cap s w"
    and ok: "session_ok1 P cap (Some (s, w)) (FromClient p)"
    and r: "receiveFromClient1 P N s p w = (s', p', w')"
  shows "session_inv1 cap s' w'"
proof (cases "state s")
  case CLOSED
  show ?thesis
  proof (cases "isSyn P p \<and> \<not> isAck P p")
    case True
    with ok show ?thesis by (intro receive_syn_keeps [OF inv CLOSED _ _ _ _ _ r]) simp_all
  next
    case False
    have reset: ?thesis if "(let (p1, w1) = sendReset1 P p w in (s, p1, w1)) = (s', p', w')"
      using that inv by (auto simp: sendReset1_def Let_def session_inv1_def phase1_def CLOSED)
    show ?thesis using r False inv CLOSED reset
      by (auto simp: receiveFromClient1_def receiveReset1_def split: if_splits)
  qed
next
  case ESTABLISHED
  with ok show ?thesis by (intro receive_established_keeps [OF laws inv ESTABLISHED _ _ _ r]) simp_all
next
  case SYN_RECEIVED
  then show ?thesis by (intro receive_handshake_keeps [OF inv _ r]) simp
next
  case SYN_ACK_SENT
  then show ?thesis by (intro receive_handshake_keeps [OF inv _ r]) simp
qed (use inv in \<open>simp_all add: session_inv1_def phase1_def\<close>)

text \<open>The invariant as a predicate on runs: the run did not hang and the session is in order.\<close>

definition run_inv1 :: "nat \<Rightarrow> 'p run1 \<Rightarrow> bool" where
  "run_inv1 cap c = (case c of None \<Rightarrow> False | Some (s, w) \<Rightarrow> session_inv1 cap s w)"

lemma session_step_keeps:
  assumes laws: "session_laws1 P N cap" and inv: "run_inv1 cap c" and ok: "session_ok1 P cap c e"
  shows "run_inv1 cap (session_step1 P N c e)"
proof -
  obtain s w where c: "c = Some (s, w)" and i: "session_inv1 cap s w"
    using inv by (cases c) (auto simp: run_inv1_def)
  show ?thesis
  proof (cases e)
    case (FromClient p)
    then show ?thesis using receive_keeps [OF laws i ok [unfolded c FromClient]] c
      by (auto simp: run_inv1_def split: prod.splits)
  next
    case (FromServer p)
    then show ?thesis using read_server_keeps [OF laws i, of p] ok c
      by (auto simp: run_inv1_def)
  next
    case (FlushServer p)
    then show ?thesis using flush_server_keeps [OF laws i, of p] c
      by (auto simp: run_inv1_def split: prod.splits)
  next
    case (FlushClient p)
    then show ?thesis using flush_client_keeps [OF laws i, of p] c
      by (auto simp: run_inv1_def)
  qed
qed

interpretation v1_run: step_invariant "session_step1 P N" "session_ok1 P cap"
  "\<lambda>c. session_laws1 P N cap \<longrightarrow> run_inv1 cap c" for P N cap
  by unfold_locales (blast intro: session_step_keeps)

text \<open>
  C5. Safety of whole runs, within bounds. The sockets are blocking: a send takes all its bytes or fails for good, and a
  receive gives at most what was asked for. A SYN announces a segment size from 1 to what the packet class can hold
  and a window shift of at most 14. Of an established session, the client acknowledges nothing that was not sent and
  sends at most 16 KiB at once, and both sequence numbers stay short of their wrap-around; the server is only read when its
  socket is watched. Then, from a new session, any sequence of calls, in any order and with any other contents of the
  packets, returns from every call, never touches memory outside the two buffers, and leaves the session in order:
  both windows consistent and at most three retransmissions counted.
\<close>

theorem run_safe:
  assumes "session_laws1 P N cap" and "fault_free w"
    and "run_ok (session_step1 P N) (session_ok1 P cap) (Some (new_session1, w)) es"
  shows "\<exists>s' w'. run_steps (session_step1 P N) (Some (new_session1, w)) es = Some (s', w') \<and>
    fault_free w' \<and> unat (retryCount s') \<le> 3 \<and>
    (state s' = ESTABLISHED \<longrightarrow> up_inv s' \<and> down_inv s')"
proof -
  have "session_laws1 P N cap \<longrightarrow> run_inv1 cap (Some (new_session1, w))"
    using assms(2) by (simp add: run_inv1_def session_inv1_def phase1_def)
  from v1_run.run_keeps [OF this assms(3)] assms(1)
  have "run_inv1 cap (run_steps (session_step1 P N) (Some (new_session1, w)) es)" by simp
  then show ?thesis
    by (cases "run_steps (session_step1 P N) (Some (new_session1, w)) es")
      (auto simp: run_inv1_def session_inv1_def phase1_def)
qed

lemma demo_session_laws: "session_laws1 demo_ops1 all_net1 1460"
  by (simp add: session_laws1_def demo_send_laws demo_laws1 all_net1_blocking demo_recv_laws)

theorem run_safe_witness:
  "\<exists>s' w'. run_steps (session_step1 demo_ops1 all_net1) (Some (new_session1, empty_world))
      [FromClient demo_syn, FromClient demo_ack, FlushClient demo_packet, FlushServer demo_packet] =
      Some (s', w') \<and> fault_free w'"
proof -
  let ?es = "[FromClient demo_syn, FromClient demo_ack, FlushClient demo_packet,
    FlushServer demo_packet]"
  obtain s1 p1 w1 where r: "receiveFromClient1 demo_ops1 all_net1 new_session1 demo_syn empty_world =
      (s1, p1, w1)" by (metis prod_cases3)
  have con: "sock_connect all_net1 (log empty_world) (getDestination demo_ops1 demo_syn) =
      (7, 0, False, False)" by simp
  have "state s1 = SYN_ACK_SENT"
    using receiveSyn_connected [OF _ _ _ con r] by (auto simp: sendSynAck1_def Let_def)
  moreover have free: "session_ok1 P cap c (FlushClient q)" "session_ok1 P cap c (FlushServer q)"
    for P :: "demo_packet packet_ops1" and cap c q
    by (cases c; auto)+
  ultimately have ok: "run_ok (session_step1 demo_ops1 all_net1) (session_ok1 demo_ops1 1460)
      (Some (new_session1, empty_world)) ?es"
    using r by (simp split: prod.splits)
  show ?thesis using run_safe [OF demo_session_laws empty_world_simps(4) ok] by blast
qed

section \<open>The stream of a connection\<close>

text \<open>What an event adds to the client's stream: the payload of an in-order segment.\<close>

fun delivered1 :: "('p, 'x) packet_ops1_scheme \<Rightarrow> 'p run1 \<Rightarrow> 'p op1 \<Rightarrow> byte list" where
  "delivered1 P (Some (s, w)) (FromClient p) =
     (if state s = ESTABLISHED \<and> \<not> clientReadFinished s \<and> \<not> isSyn P p \<and> \<not> isReset P p \<and>
         isAck P p \<and> getSequenceNumber P p = receiveNext s then payload P p else [])"
| "delivered1 P c e = []"

definition stream_step1 ::
  "('p, 'x) packet_ops1_scheme \<Rightarrow> 'p net1 \<Rightarrow> 'p run1 \<times> byte list \<Rightarrow> 'p op1 \<Rightarrow> 'p run1 \<times> byte list" where
  "stream_step1 P N cb e = (session_step1 P N (fst cb) e, snd cb @ delivered1 P (fst cb) e)"

definition stream_ok1 ::
  "('p, 'x) packet_ops1_scheme \<Rightarrow> nat \<Rightarrow> 'p run1 \<times> byte list \<Rightarrow> 'p op1 \<Rightarrow> bool" where
  "stream_ok1 P cap cb e \<longleftrightarrow> session_ok1 P cap (fst cb) e \<and>
     (case fst cb of None \<Rightarrow> False | Some (s, w) \<Rightarrow> state s = ESTABLISHED)"

definition stream_inv1 :: "nat \<Rightarrow> fd \<Rightarrow> 'p run1 \<times> byte list \<Rightarrow> bool" where
  "stream_inv1 cap f cb \<longleftrightarrow> run_inv1 cap (fst cb) \<and>
     (case fst cb of None \<Rightarrow> False
      | Some (s, w) \<Rightarrow> state s = ESTABLISHED \<longrightarrow>
          mSock s = f \<and> accepted f (log w) @ pendingUp s = snd cb)"

lemma receive_other_stream:
  assumes est: "state s = ESTABLISHED"
    and no: "delivered1 P (Some (s, w)) (FromClient p) = []"
      "\<not> (\<not> clientReadFinished s \<and> \<not> isSyn P p \<and> \<not> isReset P p \<and> isAck P p \<and>
          getSequenceNumber P p = receiveNext s)"
    and r: "receiveFromClient1 P N s p w = (s', p', w')" and e': "state s' = ESTABLISHED"
  shows "pendingUp s' = pendingUp s \<and> accepted f (log w') = accepted f (log w) \<and> mSock s' = mSock s"
proof (cases "\<not> isSyn P p \<and> \<not> isReset P p \<and> isAck P p \<and> getSequenceNumber P p = receiveNext s")
  case True
  let ?s1 = "s\<lparr>sendUnacknowledged := max (sendUnacknowledged s) (getAcknowledgmentNumber P p),
               retryCount := 0\<rparr>"
  have c: "completeOrAcknowledge1 P N ?s1 p w = (s', p', w')"
    using r True no(2) est by (simp add: receiveFromClient1_def receiveEstablished1_def Let_def)
  have "mSock s' = mSock s"
    using completeOrAcknowledge_core [of P N ?s1 p w] c by (simp add: down_core_def)
  then show ?thesis
    using completeOrAcknowledge_up(2,5) [OF c] by (simp add: pendingUp_def finUp_def)
next
  case False
  have reset: ?thesis if "(let (p1, w1) = sendReset1 P p w in (s, p1, w1)) = (s', p', w')"
    using that by (auto simp: sendReset1_def Let_def)
  have ack: ?thesis if "(let (p1, w1) = sendAck1 P s p w in (s, p1, w1)) = (s', p', w')"
    using that by (auto simp: sendAck1_def Let_def)
  have rst: ?thesis if "receiveReset1 P s p w = (s', p', w')"
    using that e' by (auto simp: receiveReset1_def closeSession1_def Let_def split: if_splits)
  show ?thesis using r est False reset ack rst
    by (auto simp: receiveFromClient1_def receiveSyn1_def receiveEstablished1_def split: if_splits)
qed

lemma stream_receive:
  assumes laws: "session_laws1 P N cap" and inv: "session_inv1 cap s w" and est: "state s = ESTABLISHED"
    and ok: "session_ok1 P cap (Some (s, w)) (FromClient p)"
    and r: "receiveFromClient1 P N s p w = (s', p', w')" and e': "state s' = ESTABLISHED"
  shows "mSock s' = mSock s \<and> accepted (mSock s) (log w') @ pendingUp s' =
    accepted (mSock s) (log w) @ pendingUp s @ delivered1 P (Some (s, w)) (FromClient p)"
proof (cases "\<not> clientReadFinished s \<and> \<not> isSyn P p \<and> \<not> isReset P p \<and> isAck P p \<and>
    getSequenceNumber P p = receiveNext s")
  case True
  note i = inv_established [OF inv est]
  have h: "receiveEstablished1 P N s p w = (s', p', w')"
    using r True est by (simp add: receiveFromClient1_def)
  have "down_core s' = down_core (s\<lparr>sendUnacknowledged :=
      max (sendUnacknowledged s) (getAcknowledgmentNumber P p), retryCount := 0\<rparr>)"
    using receiveEstablished_down [OF _ h] True by blast
  then have "mSock s' = mSock s" by (simp add: down_core_def)
  then show ?thesis
    using receiveEstablished_up [OF _ _ i(1) est _ _ _ _ h] laws True ok est e'
    by (simp add: session_laws1_def)
next
  case False
  then have "delivered1 P (Some (s, w)) (FromClient p) = []" by auto
  with receive_other_stream [OF est this False r e', of "mSock s"] show ?thesis by simp
qed

lemma up_view_pending: "up_view s' = up_view s \<Longrightarrow> pendingUp s' = pendingUp s \<and> mSock s' = mSock s"
  by (auto simp: up_view_def intro: pendingUp_cong)

lemma stream_step_keeps:
  assumes laws: "session_laws1 P N cap" and inv: "stream_inv1 cap f cb" and ok: "stream_ok1 P cap cb e"
  shows "stream_inv1 cap f (stream_step1 P N cb e)"
proof -
  obtain s w bs where cb: "cb = (Some (s, w), bs)" and est: "state s = ESTABLISHED"
    using ok by (cases cb) (auto simp: stream_ok1_def split: option.splits)
  have i: "session_inv1 cap s w" "mSock s = f" "accepted f (log w) @ pendingUp s = bs"
    using inv cb est by (auto simp: stream_inv1_def run_inv1_def)
  have ok1: "session_ok1 P cap (Some (s, w)) e" using ok cb by (simp add: stream_ok1_def)
  have keep: "run_inv1 cap (session_step1 P N (Some (s, w)) e)"
    using session_step_keeps [OF laws _ ok1] i(1) by (simp add: run_inv1_def)
  have stream: "mSock s' = f \<and> accepted f (log w') @ pendingUp s' =
      bs @ delivered1 P (Some (s, w)) e"
    if step: "session_step1 P N (Some (s, w)) e = Some (s', w')" and e': "state s' = ESTABLISHED" for s' w'
  proof (cases e)
    case (FromClient p)
    then obtain p' where r: "receiveFromClient1 P N s p w = (s', p', w')"
      using step by (auto split: prod.splits)
    from stream_receive [OF laws i(1) est ok1 [unfolded FromClient] r e'] i(2,3) FromClient
    show ?thesis by auto
  next
    case (FromServer p)
    have sl: "send_laws1 P" "recv_laws1 N" using laws by (simp_all add: session_laws1_def)
    have cap: "\<forall>q. unat (mss s) \<le> payloadCapacity P q"
      using inv_established(4) [OF i(1) est] laws by (auto simp: session_laws1_def intro: order_trans)
    have op: "\<not> serverReadFinished s"
      using inv_established(5) [OF i(1) est] ok1 FromServer by auto
    obtain t b where a: "sock_receive N (log w) (mSock s)
        (unat (getSendAvailable (fst (trimSendBuffer N s w)))) = (t, b)" by fastforce
    have nw: "unat (sendNewDataSequence s) + unat (sendLength s) + 1 < 2 ^ 32"
      using ok1 FromServer by simp
    obtain room s2 p2 w2 where "receiveFromServer1 P N s p w = Some (room, s2, p2, w2)"
      "up_view s2 = up_view s" "accepted f (log w2) = accepted f (log w)"
      using receiveFromServer_spec [OF sl cap inv_established(3,2) [OF i(1) est] est op nw refl a,
          where p = p and f = f] by blast
    then show ?thesis using step FromServer up_view_pending [of s2 s] i(2,3) by auto
  next
    case (FlushServer p)
    then obtain p' where r: "flushDataToServer1 P N s p w = (s', p', w')"
      using step by (auto split: prod.splits)
    have ws: "whole_sends N" using laws by (simp add: session_laws1_def blocking_whole)
    have "mSock s' = mSock s" using flush_frame_flush [of s P N p w] r by (simp add: flush_frame_def)
    then show ?thesis
      using flush_whole(3) [OF inv_established(1) [OF i(1) est] est ws r] FlushServer i(2,3) by simp
  next
    case (FlushClient p)
    have cap: "\<And>q. unat (mss s) \<le> payloadCapacity P q" and sl: "send_laws1 P"
      using inv_established(4) [OF i(1) est] laws by (auto simp: session_laws1_def intro: order_trans)
    obtain s2 p2 w2 where "flushDataToClient1 P N s p w = Some (s2, p2, w2)"
      "up_view s2 = up_view s" "accepted f (log w2) = accepted f (log w)"
      using flush_client_spec [OF sl cap inv_established(3,2) [OF i(1) est] est,
          where p = p and N = N and w = w and f = f] by blast
    then show ?thesis using step FlushClient up_view_pending [of s2 s] i(2,3) by auto
  qed
  obtain s' w' where "session_step1 P N (Some (s, w)) e = Some (s', w')"
    using keep by (cases "session_step1 P N (Some (s, w)) e") (auto simp: run_inv1_def)
  then show ?thesis using keep stream cb
    by (auto simp: stream_inv1_def stream_step1_def)
qed

interpretation v1_stream: step_invariant "stream_step1 P N" "stream_ok1 P cap"
  "\<lambda>c. session_laws1 P N cap \<longrightarrow> stream_inv1 cap f c" for P N cap f
  by unfold_locales (blast intro: stream_step_keeps)

text \<open>
  C4. No byte of the client is lost, repeated or reordered in a run. Over any sequence of calls on
  one established connection within the bounds, the bytes the server's socket accepted
  followed by those still buffered are those from before followed by the payloads of the segments
  that were in order when they arrived, in their order.
\<close>

theorem run_stream_integrity:
  assumes "session_laws1 P N cap" and "session_inv1 cap s w"
    and "run_ok (stream_step1 P N) (stream_ok1 P cap)
      (Some (s, w), accepted (mSock s) (log w) @ pendingUp s) es"
    and "run_steps (stream_step1 P N) (Some (s, w), accepted (mSock s) (log w) @ pendingUp s) es =
      (Some (s', w'), bytes)"
    and "state s' = ESTABLISHED"
  shows "accepted (mSock s) (log w') @ pendingUp s' = bytes"
proof -
  have "session_laws1 P N cap \<longrightarrow> stream_inv1 cap (mSock s)
      (Some (s, w), accepted (mSock s) (log w) @ pendingUp s)"
    using assms(2) by (simp add: stream_inv1_def run_inv1_def)
  from v1_stream.run_keeps [OF this assms(3)] assms(1,4,5)
  show ?thesis by (simp add: stream_inv1_def)
qed

text \<open>A client's two segments, the second after the first was acknowledged.\<close>

lemma demo_session_inv: "session_inv1 1460 demo_session1 empty_world"
  by (simp add: session_inv1_def phase1_def demo_session1_up down_inv_def finDown_def)

theorem run_stream_integrity_witness:
  "\<exists>s' w'. session_step1 demo_ops1 all_net1 (Some (demo_session1, empty_world))
      (FromClient (demo_segment1 101 [65, 66])) = Some (s', w') \<and>
    state s' = ESTABLISHED \<and> accepted 7 (log w') @ pendingUp s' = [65, 66]"
proof -
  let ?e = "FromClient (demo_segment1 101 [65, 66])"
  obtain s' p' w' where r: "receiveFromClient1 demo_ops1 all_net1 demo_session1
      (demo_segment1 101 [65, 66]) empty_world = (s', p', w')" by (metis prod_cases3)
  have start: "accepted (mSock demo_session1) (log empty_world) @ pendingUp demo_session1 = []"
    by (simp add: demo_session1_up)
  have ok: "run_ok (stream_step1 demo_ops1 all_net1) (stream_ok1 demo_ops1 1460)
      (Some (demo_session1, empty_world),
       accepted (mSock demo_session1) (log empty_world) @ pendingUp demo_session1) [?e]"
    by (simp add: stream_ok1_def)
  have st: "run_steps (stream_step1 demo_ops1 all_net1)
      (Some (demo_session1, empty_world),
       accepted (mSock demo_session1) (log empty_world) @ pendingUp demo_session1) [?e] =
      (Some (s', w'), [65, 66])"
    unfolding start using r by (simp add: stream_step1_def)
  have e: "state s' = ESTABLISHED"
    using r by (auto simp: demo_eval1 Let_def split: prod.splits if_splits)
  have "accepted 7 (log w') @ pendingUp s' = [65, 66]"
    using run_stream_integrity [OF demo_session_laws demo_session_inv ok st e] by simp
  with r e show ?thesis by simp
qed

end
