(* ===== verification/HandlerV1.thy ===== *)
theory HandlerV1
  imports SessionV1_Run
begin

text \<open>
  The handler of \<open>src/handler/Handler.cpp\<close> and \<open>Handler.h\<close>: the dispatch of the client's packets to the sessions, the
  two loops over the sessions, and the flags with which the two threads are started and stopped. The
  sessions are a list in the order of the vector. The socket sets and the tunnel are part of the world, the
  packet object of a loop is reused from one call to the next.
\<close>

section \<open>One round of the upstream loop\<close>

text \<open>\<open>for (auto con : connections) if (con->getState() != CLOSED) ...\<close>\<close>

fun for_live ::
  "(session1 \<Rightarrow> 'p \<Rightarrow> 'p world \<Rightarrow> 'p conf1) \<Rightarrow> session1 list \<Rightarrow> 'p \<Rightarrow> 'p world \<Rightarrow>
   session1 list \<times> 'p \<times> 'p world" where
  "for_live f [] p w = ([], p, w)"
| "for_live f (s # ss) p w =
     (if state s = CLOSED then let (ss', p', w') = for_live f ss p w in (s # ss', p', w')
      else let (s', p', w') = f s p w; (ss', p'', w'') = for_live f ss p' w' in (s' # ss', p'', w''))"

text \<open>The loop over the sessions for a packet: every live session that claims it receives it.\<close>

fun offer ::
  "('p, 'x) packet_ops1_scheme \<Rightarrow> 'p net1 \<Rightarrow> session1 list \<Rightarrow> 'p \<Rightarrow> 'p world \<Rightarrow>
   session1 list \<times> bool \<times> 'p \<times> 'p world" where
  "offer P N [] p w = ([], False, p, w)"
| "offer P N (s # ss) p w =
     (if state s = CLOSED then let (ss', h, p', w') = offer P N ss p w in (s # ss', h, p', w')
      else if canHandle1 P s p then
        let (s', p', w') = receiveFromClient1 P N s p w; (ss', h, p'', w'') = offer P N ss p' w'
        in (s' # ss', True, p'', w'')
      else let (ss', h, p', w') = offer P N ss p w in (s # ss', h, p', w'))"

text \<open>\<open>closedConnection\<close>: the first closed session.\<close>

fun first_closed :: "session1 list \<Rightarrow> nat option" where
  "first_closed [] = None"
| "first_closed (s # ss) =
     (if state s = CLOSED then Some 0 else map_option Suc (first_closed ss))"

definition dispatch ::
  "('p, 'x) packet_ops1_scheme \<Rightarrow> 'p net1 \<Rightarrow> session1 list \<Rightarrow> 'p \<Rightarrow> 'p world \<Rightarrow>
   session1 list \<times> 'p \<times> 'p world" where
  "dispatch P N cons p w =
    (let syn = isSyn P p; closed = first_closed cons; (cons1, handled, p1, w1) = offer P N cons p w in
     if handled then (cons1, p1, w1)
     else if syn then
       case closed of
         None \<Rightarrow> let (s, p2, w2) = receiveFromClient1 P N new_session1 p1 w1 in (cons1 @ [s], p2, w2)
       | Some i \<Rightarrow>
           let (s, p2, w2) = receiveFromClient1 P N (cons1 ! i) p1 w1 in (cons1[i := s], p2, w2)
     else
       let p2 = swapEnds P p1; p3 = clearData P p2;
           p4 = makeResetSeq P (getAcknowledgmentNumber P p3) p3
       in (cons1, p4, writePacket p4 w1))"

text \<open>
  \<open>arrived\<close> is the packet read from the tunnel, when \<open>select\<close> reported one and it could be read. The errors that end the
  whole process (\<open>exitWithError\<close> after \<open>select\<close>, an exception in a thread) have no next round and are left out.
\<close>

definition upStreamRound ::
  "('p, 'x) packet_ops1_scheme \<Rightarrow> 'p net1 \<Rightarrow> 'p option \<Rightarrow> session1 list \<Rightarrow> 'p \<Rightarrow> 'p world \<Rightarrow>
   session1 list \<times> 'p \<times> 'p world" where
  "upStreamRound P N arrived cons p w =
    (let (cons1, p1, w1) = (case arrived of None \<Rightarrow> (cons, p, w) | Some q \<Rightarrow> dispatch P N cons q w)
     in for_live (flushDataToServer1 P N) cons1 p1 w1)"

section \<open>One round of the downstream loop\<close>

text \<open>
  The sessions whose socket is in the set of watched sockets (not in the set \<open>select\<close> returned) are
  read, as many as \<open>select\<close> counted. The flag is whether some session has room left.
\<close>

fun readLive ::
  "('p, 'x) packet_ops1_scheme \<Rightarrow> 'p net1 \<Rightarrow> int \<Rightarrow> session1 list \<Rightarrow> 'p \<Rightarrow> 'p world \<Rightarrow>
   (bool \<times> session1 list \<times> 'p \<times> 'p world) option" where
  "readLive P N count [] p w = Some (False, [], p, w)"
| "readLive P N count (s # ss) p w =
     (if \<not> count > 0 then Some (False, s # ss, p, w)
      else if state s = CLOSED \<or> mSock s \<notin> receiveSet w then
        map_option (\<lambda>(r, ss', p', w'). (r, s # ss', p', w')) (readLive P N count ss p w)
      else case receiveFromServer1 P N s p w of None \<Rightarrow> None
        | Some (room, s', p', w') \<Rightarrow>
            map_option (\<lambda>(r, ss', p'', w''). (room \<or> r, s' # ss', p'', w''))
              (readLive P N (count - 1) ss p' w'))"

fun flushLive ::
  "('p, 'x) packet_ops1_scheme \<Rightarrow> 'p net1 \<Rightarrow> session1 list \<Rightarrow> 'p \<Rightarrow> 'p world \<Rightarrow>
   (session1 list \<times> 'p \<times> 'p world) option" where
  "flushLive P N [] p w = Some ([], p, w)"
| "flushLive P N (s # ss) p w =
     (if state s = CLOSED
      then map_option (\<lambda>(ss', p', w'). (s # ss', p', w')) (flushLive P N ss p w)
      else case flushDataToClient1 P N s p w of None \<Rightarrow> None
        | Some (s', p', w') \<Rightarrow>
            map_option (\<lambda>(ss', p'', w''). (s' # ss', p'', w'')) (flushLive P N ss p' w'))"

definition downStreamRound ::
  "('p, 'x) packet_ops1_scheme \<Rightarrow> 'p net1 \<Rightarrow> int \<Rightarrow> session1 list \<Rightarrow> 'p \<Rightarrow> 'p world \<Rightarrow>
   (bool \<times> session1 list \<times> 'p \<times> 'p world) option" where
  "downStreamRound P N count cons p w =
    (case readLive P N count cons p w of None \<Rightarrow> None
     | Some (room, cons1, p1, w1) \<Rightarrow>
         map_option (\<lambda>(cons2, p2, w2). (room, cons2, p2, w2)) (flushLive P N cons1 p1 w1))"

section \<open>What the handler asks of a session\<close>

text \<open>
  The loops call an operation on every live session. A property of the sessions that the operation
  keeps is kept by the loop.
\<close>

locale session_operation =
  fixes keep :: "session1 \<Rightarrow> bool"
    and operation :: "session1 \<Rightarrow> 'p \<Rightarrow> 'p world \<Rightarrow> 'p conf1"
  assumes operation_keeps: "keep s \<Longrightarrow> keep (fst (operation s p w))"
begin

lemma for_live_keeps:
  "list_all keep ss \<Longrightarrow> list_all keep (fst (for_live operation ss p w))"
proof (induction ss arbitrary: p w)
  case (Cons s ss)
  obtain s' p' w' where f: "operation s p w = (s', p', w')" by (metis prod_cases3)
  have "keep s'" using operation_keeps [of s p w] Cons.prems f by simp
  then show ?case using Cons.IH [of p w] Cons.IH [of p' w'] Cons.prems f
    by (cases "for_live operation ss p w"; cases "for_live operation ss p' w'") simp
qed simp

lemma for_live_length: "length (fst (for_live operation ss p w)) = length ss"
proof (induction ss arbitrary: p w)
  case (Cons s ss)
  obtain s' p' w' where f: "operation s p w = (s', p', w')" by (metis prod_cases3)
  then show ?case using Cons.IH [of p w] Cons.IH [of p' w']
    by (cases "for_live operation ss p w"; cases "for_live operation ss p' w'") simp
qed simp

end

definition known1 :: "session1 \<Rightarrow> bool" where
  "known1 s = (state s \<in> {CLOSED, SYN_RECEIVED, SYN_ACK_SENT, ESTABLISHED})"

interpretation flush_up: session_operation known1 "flushDataToServer1 P N" for P N
proof
  show "known1 (fst (flushDataToServer1 P N s p w))" if "known1 s" for s p w
    using that flush_server_state [of P N s p w] by (auto simp: known1_def)
qed

interpretation receive_up: session_operation known1 "receiveFromClient1 P N" for P N
proof
  show "known1 (fst (receiveFromClient1 P N s p w))" if "known1 s" for s p w
    using that receiveFromClient_trans [of P N s p w] trans_known unfolding known1_def
    by (metis prod.collapse)
qed

lemma offer_Cons:
  obtains s' p' w' ss' h p'' w'' where
    "offer P N (s # ss) p w = (s' # ss', (state s \<noteq> CLOSED \<and> canHandle1 P s p) \<or> h, p'', w'')"
    and "offer P N ss p' w' = (ss', h, p'', w'')"
    and "if state s \<noteq> CLOSED \<and> canHandle1 P s p then receiveFromClient1 P N s p w = (s', p', w')
      else s' = s \<and> p' = p \<and> w' = w"
proof (cases "state s \<noteq> CLOSED \<and> canHandle1 P s p")
  case True
  obtain s' p' w' where r: "receiveFromClient1 P N s p w = (s', p', w')" by (metis prod_cases3)
  obtain ss' h p'' w'' where o: "offer P N ss p' w' = (ss', h, p'', w'')" by (metis prod_cases4)
  show ?thesis by (rule that [of s' ss' h p'' w'' p' w']) (use True r o in simp_all)
next
  case False
  obtain ss' h p'' w'' where o: "offer P N ss p w = (ss', h, p'', w'')" by (metis prod_cases4)
  show ?thesis by (rule that [of s ss' h p'' w'' p w]) (use False o in auto)
qed

lemma offer_known: "list_all known1 ss \<Longrightarrow> list_all known1 (fst (offer P N ss p w))"
proof (induction ss arbitrary: p w)
  case (Cons s ss)
  obtain s' p' w' ss' h p'' w'' where o:
    "offer P N (s # ss) p w = (s' # ss', (state s \<noteq> CLOSED \<and> canHandle1 P s p) \<or> h, p'', w'')"
    "offer P N ss p' w' = (ss', h, p'', w'')"
    "if state s \<noteq> CLOSED \<and> canHandle1 P s p then receiveFromClient1 P N s p w = (s', p', w')
      else s' = s \<and> p' = p \<and> w' = w"
    by (rule offer_Cons)
  have "known1 s'" using o(3) Cons.prems receive_up.operation_keeps [of s P N p w]
    by (auto split: if_splits)
  then show ?case using o(1,2) Cons.IH [of p' w'] Cons.prems by simp
qed simp

lemma offer_length: "length (fst (offer P N ss p w)) = length ss"
proof (induction ss arbitrary: p w)
  case (Cons s ss)
  obtain s' p' w' ss' h p'' w'' where
    "offer P N (s # ss) p w = (s' # ss', (state s \<noteq> CLOSED \<and> canHandle1 P s p) \<or> h, p'', w'')"
    "offer P N ss p' w' = (ss', h, p'', w'')"
    by (rule offer_Cons)
  then show ?case using Cons.IH [of p' w'] by simp
qed simp

lemma first_closed_length: "first_closed ss = Some i \<Longrightarrow> i < length ss \<and> state (ss ! i) = CLOSED"
  by (induction ss arbitrary: i) (auto split: if_splits)

section \<open>Dispatch\<close>

definition claims :: "('p, 'x) packet_ops1_scheme \<Rightarrow> 'p \<Rightarrow> session1 \<Rightarrow> bool" where
  "claims P p s = (state s \<noteq> CLOSED \<and> canHandle1 P s p)"

lemma offer_unclaimed: "\<forall>s \<in> set ss. \<not> claims P p s \<Longrightarrow> offer P N ss p w = (ss, False, p, w)"
  by (induction ss) (auto simp: claims_def)

lemma offer_claimed:
  assumes "\<forall>t \<in> set as. \<not> claims P p t" and "claims P p s"
    and "receiveFromClient1 P N s p w = (s', p', w')" and "\<forall>t \<in> set bs. \<not> claims P p' t"
  shows "offer P N (as @ s # bs) p w = (as @ s' # bs, True, p', w')"
  using assms
proof (induction as)
  case Nil
  then show ?case using offer_unclaimed [of bs P p' N w'] by (simp add: claims_def)
next
  case (Cons a as)
  then show ?case by (auto simp: claims_def)
qed

text \<open>
  A packet that no live session claims and that is not a SYN changes no session and is answered by
  exactly one reset, from its destination to its source, at the sequence number it acknowledges. This
  includes resets, which are answered by a reset.
\<close>

theorem unclaimed_packet_reset:
  assumes "send_laws1 P" and "\<forall>s \<in> set cons. \<not> claims P p s" and "\<not> isSyn P p"
    and "dispatch P N cons p w = (cons', p', w')"
  shows "cons' = cons \<and> written (log w') = written (log w) @ [p'] \<and> isReset P p' \<and>
    getSequenceNumber P p' = getAcknowledgmentNumber P p \<and>
    getSource P p' = getDestination P p \<and> getDestination P p' = getSource P p"
  using assms offer_unclaimed [OF assms(2), of N w]
  by (auto simp: dispatch_def Let_def ext_laws send_laws1_header)

text \<open>
  A packet that exactly one live session claims, before and after it was handled, reaches that
  session and no other.
\<close>

theorem claimed_packet_delivered:
  assumes "\<forall>t \<in> set as. \<not> claims P p t" and "claims P p s"
    and "receiveFromClient1 P N s p w = (s', p', w')" and "\<forall>t \<in> set bs. \<not> claims P p' t"
  shows "dispatch P N (as @ s # bs) p w = (as @ s' # bs, p', w')"
  using offer_claimed [OF assms] by (simp add: dispatch_def Let_def)

text \<open>
  A SYN that no live session claims opens the first closed session of the list, or a new one at the
  end when none is closed; all the other sessions stay as they are.
\<close>

theorem unclaimed_syn_opens:
  assumes "\<forall>s \<in> set cons. \<not> claims P p s" and "isSyn P p"
  shows "dispatch P N cons p w =
    (case first_closed cons of
       None \<Rightarrow> (cons @ [fst (receiveFromClient1 P N new_session1 p w)],
                snd (receiveFromClient1 P N new_session1 p w))
     | Some i \<Rightarrow> (cons[i := fst (receiveFromClient1 P N (cons ! i) p w)],
                  snd (receiveFromClient1 P N (cons ! i) p w)))"
  using assms(2) offer_unclaimed [OF assms(1), of N w]
  by (simp add: dispatch_def Let_def case_prod_unfold split: option.splits)

lemma dispatch_known:
  assumes "list_all known1 cons"
  shows "list_all known1 (fst (dispatch P N cons p w))"
proof -
  obtain cons1 h p1 w1 where o: "offer P N cons p w = (cons1, h, p1, w1)" by (metis prod_cases4)
  have k: "list_all known1 cons1" using offer_known [OF assms, of P N p w] o by simp
  have n: "known1 new_session1" by (simp add: known1_def)
  have i: "known1 (cons1 ! i)" if "first_closed cons = Some i" for i
    using first_closed_length [OF that] offer_length [of P N cons p w] o k by (simp add: list_all_length)
  show ?thesis
    using k receive_up.operation_keeps [OF n, of P N p1 w1] receive_up.operation_keeps [OF i, of _ P N p1 w1]
    by (auto simp: dispatch_def o Let_def case_prod_unfold list_all_iff
        dest!: subsetD [OF set_update_subset_insert] split: option.splits)
qed

lemma readLive_known:
  "list_all known1 ss \<Longrightarrow> readLive P N count ss p w = Some (r, ss', p', w') \<Longrightarrow> list_all known1 ss'"
proof (induction ss arbitrary: count p w r ss' p' w')
  case (Cons s ss)
  show ?case
  proof (cases "\<not> count > 0 \<or> state s = CLOSED \<or> mSock s \<notin> receiveSet w")
    case True
    then show ?thesis using Cons by (auto split: if_splits)
  next
    case False
    then obtain room s1 p1 w1 where r1: "receiveFromServer1 P N s p w = Some (room, s1, p1, w1)"
      using Cons.prems(2) by (cases "receiveFromServer1 P N s p w") auto
    with False obtain r2 ss2 p2 w2 where r: "receiveFromServer1 P N s p w = Some (room, s1, p1, w1)"
      "readLive P N (count - 1) ss p1 w1 = Some (r2, ss2, p2, w2)" "ss' = s1 # ss2"
      using Cons.prems(2) by (cases "readLive P N (count - 1) ss p1 w1") auto
    have "known1 s1" using readServer_state [OF r(1)] Cons.prems(1) by (auto simp: known1_def)
    then show ?thesis using Cons.IH [OF _ r(2)] Cons.prems(1) r(3) by simp
  qed
qed simp

lemma flushLive_known:
  "list_all known1 ss \<Longrightarrow> flushLive P N ss p w = Some (ss', p', w') \<Longrightarrow> list_all known1 ss'"
proof (induction ss arbitrary: p w ss' p' w')
  case (Cons s ss)
  show ?case
  proof (cases "state s = CLOSED")
    case True
    then show ?thesis using Cons by auto
  next
    case False
    then obtain s1 p1 w1 ss2 p2 w2 where r: "flushDataToClient1 P N s p w = Some (s1, p1, w1)"
      "flushLive P N ss p1 w1 = Some (ss2, p2, w2)" "ss' = s1 # ss2"
      using Cons.prems(2) by (auto split: option.splits prod.splits)
    have "known1 s1" using flush_client_state [OF r(1)] Cons.prems(1) by (auto simp: known1_def)
    then show ?thesis using Cons.IH [OF _ r(2)] Cons.prems(1) r(3) by simp
  qed
qed simp

text \<open>
  The rounds of both loops keep every session in one of the four states, and the upstream round
  adds at most one session and removes none.
\<close>

theorem rounds_keep_sessions:
  assumes "list_all known1 cons"
  shows "list_all known1 (fst (upStreamRound P N arrived cons p w)) \<and>
    length cons \<le> length (fst (upStreamRound P N arrived cons p w)) \<and>
    length (fst (upStreamRound P N arrived cons p w)) \<le> length cons + 1 \<and>
    (case downStreamRound P N count cons p w of None \<Rightarrow> True
     | Some (room, cons', p', w') \<Rightarrow> list_all known1 cons')"
proof -
  obtain cons1 p1 w1 where a: "(case arrived of None \<Rightarrow> (cons, p, w)
      | Some q \<Rightarrow> dispatch P N cons q w) = (cons1, p1, w1)" by (metis prod_cases3)
  have l: "length cons \<le> length cons1 \<and> length cons1 \<le> length cons + 1"
  proof (cases arrived)
    case None
    then show ?thesis using a by simp
  next
    case (Some q)
    obtain c h q1 v where o: "offer P N cons q w = (c, h, q1, v)" by (metis prod_cases4)
    then have "length c = length cons" using offer_length [of P N cons q w] by simp
    then show ?thesis using a Some o
      by (auto simp: dispatch_def Let_def split: if_splits option.splits prod.splits)
  qed
  have k: "list_all known1 cons1"
    using a assms dispatch_known [OF assms, of P N _ w] by (cases arrived) (auto, metis fst_conv)
  have up: "upStreamRound P N arrived cons p w = for_live (flushDataToServer1 P N) cons1 p1 w1"
    using a by (simp add: upStreamRound_def)
  have down: "list_all known1 cons'" if "downStreamRound P N count cons p w = Some (room, cons', p', w')"
    for room cons' p' w'
    using that readLive_known [OF assms] flushLive_known
    by (fastforce simp: downStreamRound_def split: option.splits)
  show ?thesis
    unfolding up
    using flush_up.for_live_keeps [OF k] flush_up.for_live_length [of P N cons1 p1 w1] l down
    by (auto split: option.splits)
qed

section \<open>Witnesses\<close>

lemma demo_not_claims:
  "\<not> claims demo_ops1 demo_syn new_session1"
  "\<not> claims demo_ops1 (demo_packet\<lparr>dp_src := (9, 9), dp_rst := b\<rparr>) demo_session1"
  "claims demo_ops1 (demo_segment1 101 [65]) demo_session1"
  by (simp_all add: claims_def canHandle1_def demo_segment1_def)

theorem unclaimed_packet_reset_witness:
  "isReset demo_ops1 (fst (snd (dispatch demo_ops1 all_net1 [demo_session1]
     (demo_packet\<lparr>dp_src := (9, 9), dp_rst := True\<rparr>) empty_world)))"
proof -
  let ?p = "demo_packet\<lparr>dp_src := (9, 9), dp_rst := True\<rparr>"
  obtain c q v where d: "dispatch demo_ops1 all_net1 [demo_session1] ?p empty_world = (c, q, v)"
    by (metis prod_cases3)
  show ?thesis
    using unclaimed_packet_reset [OF demo_send_laws _ _ d] demo_not_claims(2) [of True] d by simp
qed

theorem claimed_packet_delivered_witness:
  "\<exists>s' p' w'. dispatch demo_ops1 all_net1 [new_session1, demo_session1] (demo_segment1 101 [65])
    empty_world = ([new_session1, s'], p', w')"
proof -
  obtain s' p' w' where r: "receiveFromClient1 demo_ops1 all_net1 demo_session1 (demo_segment1 101 [65])
    empty_world = (s', p', w')" by (metis prod_cases3)
  have n: "\<forall>t \<in> set [new_session1]. \<not> claims demo_ops1 (demo_segment1 101 [65]) t"
    by (simp add: claims_def)
  show ?thesis using claimed_packet_delivered [OF n demo_not_claims(3) r, of "[]"] by auto
qed

theorem unclaimed_syn_opens_witness:
  "fst (dispatch demo_ops1 all_net1 [] demo_syn empty_world) =
    [fst (receiveFromClient1 demo_ops1 all_net1 new_session1 demo_syn empty_world)]"
  using unclaimed_syn_opens [of "[]" demo_ops1 demo_syn all_net1 empty_world] by simp

theorem rounds_keep_sessions_witness:
  "list_all known1 (fst (upStreamRound demo_ops1 all_net1 (Some demo_syn) [demo_session1] demo_packet
    empty_world))"
  using rounds_keep_sessions [of "[demo_session1]" demo_ops1 all_net1 "Some demo_syn" demo_packet empty_world]
  by (simp add: known1_def)

section \<open>Starting and stopping\<close>

text \<open>
  The flags, the mutex (\<open>locked\<close> while \<open>start\<close> holds it) and which of the two threads runs.
  \<open>start\<close> keeps the mutex while it joins its threads. A thread leaves its loop only when it
  finds \<open>shouldRun\<close> false. Every step is one critical section or one thread's end.
\<close>

record control =
  locked :: bool
  shouldRun :: bool
  upStreamShuttingDown :: bool
  downStreamShuttingDown :: bool
  upStreamActive :: bool
  downStreamActive :: bool
  upRunning :: bool
  downRunning :: bool
  cleanUps :: nat

definition control_init :: control where
  "control_init = \<lparr>locked = False, shouldRun = False, upStreamShuttingDown = False,
     downStreamShuttingDown = False, upStreamActive = False, downStreamActive = False,
     upRunning = False, downRunning = False, cleanUps = 0\<rparr>"

definition begin_start :: "control \<Rightarrow> control" where
  "begin_start c = c\<lparr>locked := True, shouldRun := True, downStreamActive := True, upStreamActive := True,
     upRunning := True, downRunning := True\<rparr>"

definition do_stop :: "control \<Rightarrow> control" where
  "do_stop c = (if \<not> shouldRun c then c
     else c\<lparr>shouldRun := False, upStreamShuttingDown := True, downStreamShuttingDown := True\<rparr>)"

definition end_up :: "control \<Rightarrow> control" where
  "end_up c =
    (let c1 = c\<lparr>upStreamShuttingDown := False, upRunning := False\<rparr> in
     if downStreamShuttingDown c1 then c1
     else c1\<lparr>cleanUps := cleanUps c1 + 1, upStreamActive := False\<rparr>)"

definition end_down :: "control \<Rightarrow> control" where
  "end_down c =
    (let c1 = c\<lparr>downStreamShuttingDown := False, downRunning := False\<rparr> in
     if upStreamShuttingDown c1 then c1
     else c1\<lparr>cleanUps := cleanUps c1 + 1, downStreamActive := False\<rparr>)"

inductive control_step :: "control \<Rightarrow> control \<Rightarrow> bool" where
  start_runs: "\<lbrakk>\<not> locked c; \<not> shouldRun c; \<not> (downStreamActive c \<or> upStreamActive c)\<rbrakk> \<Longrightarrow>
    control_step c (begin_start c)"
| start_returns_at_once: "\<lbrakk>\<not> locked c; shouldRun c \<or> downStreamActive c \<or> upStreamActive c\<rbrakk> \<Longrightarrow>
    control_step c c"
| start_returns: "\<lbrakk>locked c; \<not> upRunning c; \<not> downRunning c\<rbrakk> \<Longrightarrow> control_step c (c\<lparr>locked := False\<rparr>)"
| stop: "\<not> locked c \<Longrightarrow> control_step c (do_stop c)"
| up_ends: "\<lbrakk>upRunning c; \<not> shouldRun c\<rbrakk> \<Longrightarrow> control_step c (end_up c)"
| down_ends: "\<lbrakk>downRunning c; \<not> shouldRun c\<rbrakk> \<Longrightarrow> control_step c (end_down c)"

inductive control_reach :: "control \<Rightarrow> control \<Rightarrow> bool" where
  here: "control_reach c c"
| more: "control_reach c d \<Longrightarrow> control_step d e \<Longrightarrow> control_reach c e"

inductive_cases control_stepE: "control_step c d"

definition control_inv :: "control \<Rightarrow> bool" where
  "control_inv c = (if locked c then shouldRun c \<and> upRunning c \<and> downRunning c
     else \<not> shouldRun c \<and> \<not> upRunning c \<and> \<not> downRunning c \<and> \<not> upStreamActive c \<and> \<not> downStreamActive c)"

lemma control_step_inv:
  assumes "control_step c d" and "control_inv c"
  shows "control_inv d \<and> (locked c \<longrightarrow> d = c)"
  using assms
  by (cases rule: control_step.cases)
    (auto simp: control_inv_def begin_start_def do_stop_def end_up_def end_down_def Let_def)

lemma control_reach_inv: "control_reach c d \<Longrightarrow> control_inv c \<Longrightarrow> control_inv d \<and> (locked c \<longrightarrow> d = c)"
  by (induction rule: control_reach.induct) (use control_step_inv in \<open>force+\<close>)

lemma control_step_cleanUps:
  assumes "control_step c d" and "control_inv c"
  shows "cleanUps d = cleanUps c"
  using assms
  by (cases rule: control_step.cases)
    (auto simp: control_inv_def begin_start_def do_stop_def split: if_splits)

lemma control_reach_cleanUps: "control_reach c d \<Longrightarrow> control_inv c \<Longrightarrow> cleanUps d = cleanUps c"
proof (induction rule: control_reach.induct)
  case (more c d e)
  then have "control_inv d" using control_reach_inv by blast
  with more control_step_cleanUps [of d e] show ?case by simp
qed simp

text \<open>
  C6. Once started, the handler cannot be stopped. In every state reachable from the start, after \<open>start\<close> has begun no
  step changes anything any more: \<open>stop\<close> never gets the mutex that \<open>start\<close> holds while it joins the two
  threads, \<open>shouldRun\<close> stays set, no thread ends, and the sessions are never cleaned up.
\<close>

theorem started_handler_never_stops:
  assumes "control_reach control_init c" and "locked c"
  shows "shouldRun c \<and> cleanUps c = 0 \<and> (\<forall>d. control_reach c d \<longrightarrow> d = c)"
proof -
  have i: "control_inv control_init" by (simp add: control_inv_def control_init_def)
  have inv: "control_inv c" using control_reach_inv [OF assms(1) i] by simp
  have "cleanUps c = 0" using control_reach_cleanUps [OF assms(1) i] by (simp add: control_init_def)
  then show ?thesis
    using inv assms(2) control_reach_inv [OF _ inv] by (auto simp: control_inv_def)
qed

theorem started_handler_never_stops_witness:
  "shouldRun (begin_start control_init) \<and>
   {d. control_reach (begin_start control_init) d} = {begin_start control_init}"
proof -
  have "control_step control_init (begin_start control_init)"
    by (rule start_runs) (simp_all add: control_init_def)
  then have "control_reach control_init (begin_start control_init)" by (rule more [OF here])
  moreover have "locked (begin_start control_init)" by (simp add: begin_start_def)
  ultimately show ?thesis using started_handler_never_stops here by blast
qed

end
