(* ===== verification/SessionV2.thy ===== *)
theory SessionV2
  imports TcpPacket
begin

text \<open>
  The session of \<open>src/sessions2/TCPSession.h\<close>, which the client handler uses: one TCP connection of a client,
  relayed to an ordinary socket. Every member function is one definition over the session, the caller's
  packet object and the world. Sockets, clock, random numbers, packets and the buffer class come from
  submodules and are parameters.
\<close>

datatype states2 = CLOSED | SYN_RECEIVED | SYN_ACK_SENT | ESTABLISHED

section \<open>Interfaces outside the repository\<close>

record 'p packet_ops2 = "'p packet_ops" +
  setWindow :: "u32 \<Rightarrow> 'p \<Rightarrow> 'p"
  setSourceAddress :: "addr \<Rightarrow> 'p \<Rightarrow> 'p"
  setDestinationAddress :: "addr \<Rightarrow> 'p \<Rightarrow> 'p"
  setTCPPayload :: "byte list \<Rightarrow> 'p \<Rightarrow> 'p"

text \<open>
  What a socket call, the clock or the generator answers depends on the log of everything before it. \<open>None\<close>
  is a \<open>SocketError\<close>. Times are in nanoseconds. \<open>ip_mss\<close> is the constant \<open>IP_MSS\<close>.
\<close>

record 'p net2 =
  try_connect :: "'p event list \<Rightarrow> addr \<Rightarrow> fd \<times> int option"
  last_error :: "'p event list \<Rightarrow> fd \<Rightarrow> int"
  try_send :: "'p event list \<Rightarrow> fd \<Rightarrow> byte list \<Rightarrow> int option"
  try_receive :: "'p event list \<Rightarrow> fd \<Rightarrow> u32 \<Rightarrow> (int \<times> byte list) option"
  clock :: "'p event list \<Rightarrow> int"
  random_number :: "'p event list \<Rightarrow> u32"
  ip_mss :: u16

text \<open>
  The methods of \<open>SmartBuffer\<close>. \<open>fill\<close> is \<open>manipulate\<close> with a function that wrote the given bytes behind the
  position; \<open>as_bytes i j\<close> are the bytes from \<open>i\<close> to \<open>j\<close>, also the ones \<open>manipulate\<close> hands to a function for
  a range.
\<close>

record 'b buffer_ops =
  position :: "'b \<Rightarrow> u32"
  available :: "'b \<Rightarrow> u32"
  put :: "byte list \<Rightarrow> 'b \<Rightarrow> 'b"
  fill :: "byte list \<Rightarrow> 'b \<Rightarrow> 'b"
  compact :: "u32 \<Rightarrow> 'b \<Rightarrow> 'b"
  as_bytes :: "u32 \<Rightarrow> u32 \<Rightarrow> 'b \<Rightarrow> byte list"
  clear_buffer :: "'b \<Rightarrow> 'b"

section \<open>State\<close>

text \<open>Durations in milliseconds, as in the code.\<close>

definition MIN_RTT :: int where "MIN_RTT = 50"
definition SYN_TIMEOUT :: int where "SYN_TIMEOUT = 30000"
definition SYN_ACK_DELAY :: int where "SYN_ACK_DELAY = 500"
definition NO_PROBING_TIMEOUT :: int where "NO_PROBING_TIMEOUT = 30000"
definition BUFFER_SIZE :: nat where "BUFFER_SIZE = 65535"
definition ACKNOWLEDGE_DELAY :: int where "ACKNOWLEDGE_DELAY = 100"

definition ms :: "int \<Rightarrow> int" where "ms d = d * 1000000"

record 'b session2 =
  socket :: fd
  state :: states2
  receiveFromClientFinished :: bool
  flushToServerFinished :: bool
  receiveFromServerFinished :: bool
  sentFinToClient :: bool
  flushToClientFinished :: bool
  clientAddress :: addr
  serverAddress :: addr
  sendBuffer :: 'b
  sendWindowRightEdge :: u32
  sendWindowShift :: u8
  sendUnacknowledged :: u32
  sendNextOffset :: u32
  sendRetryCount :: u32
  receiveBuffer :: 'b
  receiveSent :: u32
  mss :: u16
  rttHistory :: "int list"
  rttTracking :: bool
  rttTrackedSendSequence :: u32
  rttSendTime :: int
  lastTimeSentNewData :: int
  lastTimeAcceptedAcknowledgement :: int

type_synonym ('p, 'b) conf2 = "'b session2 \<times> 'p \<times> 'p world"

definition new_session2 :: "'p net2 \<Rightarrow> 'b \<Rightarrow> 'b \<Rightarrow> 'b session2" where
  "new_session2 N snd_buf rcv_buf = \<lparr>socket = - 1, state = CLOSED, receiveFromClientFinished = False,
     flushToServerFinished = False, receiveFromServerFinished = False, sentFinToClient = False,
     flushToClientFinished = False, clientAddress = (0, 0), serverAddress = (0, 0),
     sendBuffer = snd_buf, sendWindowRightEdge = 0, sendWindowShift = 0, sendUnacknowledged = 0,
     sendNextOffset = 0, sendRetryCount = 0, receiveBuffer = rcv_buf, receiveSent = 0, mss = ip_mss N,
     rttHistory = replicate 5 (MIN_RTT * 5), rttTracking = False, rttTrackedSendSequence = 0,
     rttSendTime = 0, lastTimeSentNewData = 0, lastTimeAcceptedAcknowledgement = 0\<rparr>"

text \<open>\<open>Data::reset\<close>, with the new sequence number.\<close>

definition reset2 :: "'p net2 \<Rightarrow> 'b buffer_ops \<Rightarrow> u32 \<Rightarrow> 'b session2 \<Rightarrow> 'b session2" where
  "reset2 N B isn s = s\<lparr>state := CLOSED, receiveFromClientFinished := False, flushToServerFinished := False,
     receiveFromServerFinished := False, sentFinToClient := False, flushToClientFinished := False,
     sendBuffer := clear_buffer B (sendBuffer s), sendUnacknowledged := isn,
     sendNextOffset := 0, sendWindowRightEdge := 0, sendWindowShift := 0, sendRetryCount := 0,
     receiveBuffer := clear_buffer B (receiveBuffer s), receiveSent := 0, mss := ip_mss N,
     rttHistory := map (\<lambda>_. MIN_RTT * 5) (rttHistory s), rttTracking := False, lastTimeSentNewData := 0\<rparr>"

definition pushRTT :: "int \<Rightarrow> 'b session2 \<Rightarrow> 'b session2" where
  "pushRTT r s = s\<lparr>rttHistory := tl (rttHistory s) @ [max r MIN_RTT]\<rparr>"

definition getMeanRTT :: "'b session2 \<Rightarrow> int" where
  "getMeanRTT s = sum_list (rttHistory s) sdiv int (length (rttHistory s))"

definition getIntervalToNextProbe :: "'b session2 \<Rightarrow> int" where
  "getIntervalToNextProbe s = uint (sendRetryCount s + 1) * getMeanRTT s"

definition canHandle2 :: "('p, 'x) packet_ops_scheme \<Rightarrow> 'b session2 \<Rightarrow> 'p \<Rightarrow> bool" where
  "canHandle2 P s p = (state s = CLOSED \<or>
     (getSource P p = clientAddress s \<and> getDestination P p = serverAddress s))"

section \<open>The descriptor sets\<close>

definition setIn_receive :: "fd \<Rightarrow> 'p world \<Rightarrow> 'p world" where
  "setIn_receive f w = w\<lparr>receiveSet := insert f (receiveSet w)\<rparr>"

definition setIn_send :: "fd \<Rightarrow> 'p world \<Rightarrow> 'p world" where
  "setIn_send f w = w\<lparr>sendSet := insert f (sendSet w)\<rparr>"

definition setIn_error :: "fd \<Rightarrow> 'p world \<Rightarrow> 'p world" where
  "setIn_error f w = w\<lparr>errorSet := insert f (errorSet w)\<rparr>"

definition unsetFrom_receive :: "fd \<Rightarrow> 'p world \<Rightarrow> 'p world" where
  "unsetFrom_receive f w = w\<lparr>receiveSet := receiveSet w - {f}\<rparr>"

definition unsetFrom_send :: "fd \<Rightarrow> 'p world \<Rightarrow> 'p world" where
  "unsetFrom_send f w = w\<lparr>sendSet := sendSet w - {f}\<rparr>"

definition unsetFrom_error :: "fd \<Rightarrow> 'p world \<Rightarrow> 'p world" where
  "unsetFrom_error f w = w\<lparr>errorSet := errorSet w - {f}\<rparr>"

lemmas descriptor_defs = setIn_receive_def setIn_send_def setIn_error_def
  unsetFrom_receive_def unsetFrom_send_def unsetFrom_error_def

lemma log_descriptors [simp]:
  "log (setIn_receive f w) = log w" "log (setIn_send f w) = log w" "log (setIn_error f w) = log w"
  "log (unsetFrom_receive f w) = log w" "log (unsetFrom_send f w) = log w" "log (unsetFrom_error f w) = log w"
  by (simp_all add: descriptor_defs)

definition closeSession2 :: "'b session2 \<Rightarrow> 'p world \<Rightarrow> 'b session2 \<times> 'p world" where
  "closeSession2 s w =
    (let w = unsetFrom_error (socket s) (unsetFrom_send (socket s) (unsetFrom_receive (socket s) w))
     in (s\<lparr>state := CLOSED\<rparr>, emit EvCallback (emit (EvClose (socket s)) w)))"

section \<open>Packets the session sends\<close>

definition sendReset2 :: "('p, 'x) packet_ops_scheme \<Rightarrow> 'p \<Rightarrow> 'p world \<Rightarrow> 'p \<times> 'p world" where
  "sendReset2 P p w =
    (let p = swapEnds P p;
         p = (if isAck P p then makeResetSeq P (getAcknowledgmentNumber P p) p
              else makeResetAck P (getSequenceNumber P p + getSegmentLength P p) p)
     in (p, writePacket p w))"

text \<open>The number of the next byte the session expects, which it computes anew each time.\<close>

definition receiveNext :: "'b buffer_ops \<Rightarrow> 'b session2 \<Rightarrow> u32" where
  "receiveNext B s = receiveSent s + position B (receiveBuffer s) + of_bool (receiveFromClientFinished s)"

definition sendAck2 ::
    "('p, 'x) packet_ops2_scheme \<Rightarrow> 'b buffer_ops \<Rightarrow> 'b session2 \<Rightarrow> 'p \<Rightarrow> 'p world \<Rightarrow> 'p \<times> 'p world" where
  "sendAck2 P B s p w =
    (let p = swapEnds P p;
         p = makeNormal P (sendUnacknowledged s + sendNextOffset s + of_bool (sentFinToClient s)) (receiveNext B s) p;
         p = setWindow P (available B (receiveBuffer s)) p
     in (p, writePacket p w))"

definition setEnds2 :: "('p, 'x) packet_ops2_scheme \<Rightarrow> 'b session2 \<Rightarrow> 'p \<Rightarrow> 'p" where
  "setEnds2 P s p = setDestinationAddress P (clientAddress s) (setSourceAddress P (serverAddress s) p)"

definition acknowledgeDelayed2 ::
    "('p, 'x) packet_ops2_scheme \<Rightarrow> 'p net2 \<Rightarrow> 'b buffer_ops \<Rightarrow> 'b session2 \<Rightarrow> 'p \<Rightarrow> 'p world \<Rightarrow> 'p \<times> 'p world" where
  "acknowledgeDelayed2 P N B s p w =
    (let now = clock N (log w); w = emit EvNow w in
     if now - lastAcknowledgmentSent w > ms ACKNOWLEDGE_DELAY then
       let p = makeNormal P (sendUnacknowledged s + sendNextOffset s)
                 (receiveSent s + position B (receiveBuffer s)) p;
           p = setEnds2 P s p;
           w = writePacket p w
       in (p, w\<lparr>lastAcknowledgmentSent := now\<rparr>)
     else (p, w))"

section \<open>Segments of the client\<close>

text \<open>The fields of a new connection, up to the answer of the handshake.\<close>

definition establish2 ::
    "('p, 'x) packet_ops2_scheme \<Rightarrow> 'p net2 \<Rightarrow> 'b buffer_ops \<Rightarrow> 'b session2 \<Rightarrow> fd \<Rightarrow> 'p \<Rightarrow> 'p world \<Rightarrow>
     'b session2 \<times> 'p world" where
  "establish2 P N B s sock p w =
    (let isn = random_number N (log w);
         w = emit EvRand w;
         s = (reset2 N B isn s)\<lparr>socket := sock, clientAddress := getSource P p, serverAddress := getDestination P p,
               sendWindowShift := getWindowShift P p,
               sendWindowRightEdge := push_bit (unat (getWindowShift P p)) (ucast (getWindowSize P p)),
               receiveSent := getSequenceNumber P p + 1\<rparr>
     in (s, setIn_error sock w))"

definition receiveSyn2 ::
    "('p, 'x) packet_ops2_scheme \<Rightarrow> 'p net2 \<Rightarrow> 'b buffer_ops \<Rightarrow> 'b session2 \<Rightarrow> 'p \<Rightarrow> 'p world \<Rightarrow> ('p, 'b) conf2" where
  "receiveSyn2 P N B s p w =
    (case state s of
       CLOSED \<Rightarrow>
         (case try_connect N (log w) (getDestination P p) of (sock, res) \<Rightarrow>
          let w = emit (EvConnect sock (getDestination P p)) w in
          case res of
            None \<Rightarrow> let (p, w) = sendReset2 P p w in (s, p, w)
          | Some r \<Rightarrow>
              if getWindowShift P p > 14 then let (p, w) = sendReset2 P p w in (s, p, w)
              else let (s, w) = establish2 P N B s sock p w in
                if r = 0 then
                  let p = swapEnds P p;
                      p = makeSyn P (sendUnacknowledged s) (receiveSent s) p;
                      now = clock N (log w);
                      w = writePacket p (emit EvNow w)
                  in (s\<lparr>lastTimeSentNewData := now, state := SYN_ACK_SENT\<rparr>, p, w)
                else (s\<lparr>state := SYN_RECEIVED\<rparr>, p, setIn_send (socket s) w))
     | SYN_RECEIVED \<Rightarrow>
         if getSequenceNumber P p \<noteq> receiveSent s - 1 then let (p, w) = sendReset2 P p w in (s, p, w)
         else (s, p, w)
     | SYN_ACK_SENT \<Rightarrow>
         if getSequenceNumber P p \<noteq> receiveSent s - 1 then let (p, w) = sendReset2 P p w in (s, p, w)
         else let p = makeSyn P (sendUnacknowledged s) (receiveSent s) (swapEnds P p)
              in (s\<lparr>state := SYN_ACK_SENT\<rparr>, p, writePacket p w)
     | ESTABLISHED \<Rightarrow> let (p, w) = sendAck2 P B s p w in (s, p, w))"

definition receiveReset2 ::
    "('p, 'x) packet_ops2_scheme \<Rightarrow> 'b buffer_ops \<Rightarrow> 'b session2 \<Rightarrow> 'p \<Rightarrow> 'p world \<Rightarrow> ('p, 'b) conf2" where
  "receiveReset2 P B s p w =
    (if state s = CLOSED then (s, p, w)
     else let nextOff = position B (receiveBuffer s) + of_bool (receiveFromClientFinished s);
              off = getSequenceNumber P p - receiveSent s;
              room = available B (receiveBuffer s)
       in if (if room \<noteq> 0 then off \<ge> nextOff \<and> off < nextOff + room else off = nextOff)
          then let (s, w) = closeSession2 s w in (s, p, w) else (s, p, w))"

definition receiveHandshakeAck2 ::
    "('p, 'x) packet_ops2_scheme \<Rightarrow> 'p net2 \<Rightarrow> 'b session2 \<Rightarrow> 'p \<Rightarrow> 'p world \<Rightarrow> ('p, 'b) conf2" where
  "receiveHandshakeAck2 P N s p w =
    (if getSequenceNumber P p \<noteq> receiveSent s \<or> getAcknowledgmentNumber P p \<noteq> sendUnacknowledged s
     then let (p, w) = sendReset2 P p w in (s, p, w)
     else let s = s\<lparr>sendUnacknowledged := sendUnacknowledged s + 1\<rparr>;
              now = clock N (log w);
              w = emit EvNow w;
              s = pushRTT ((lastTimeSentNewData s - now) sdiv 1000000) s
          in (s\<lparr>lastTimeAcceptedAcknowledgement := now, state := ESTABLISHED\<rparr>, p, setIn_receive (socket s) w))"

text \<open>
  The acknowledged bytes leave the send buffer. \<open>d\<close> is the unsigned difference \<open>ack - sendUnacknowledged\<close>: the
  code compares its signed reading with unsigned numbers, which converts it back.
\<close>

definition acknowledged2 :: "'b buffer_ops \<Rightarrow> int \<Rightarrow> 'b session2 \<Rightarrow> 'p world \<Rightarrow> 'b session2 \<times> 'p world" where
  "acknowledged2 B amt s w =
    (if amt > 0 then
       (s\<lparr>sendUnacknowledged := sendUnacknowledged s + word_of_int amt,
          sendNextOffset := sendNextOffset s - word_of_int amt,
          sendBuffer := compact B (position B (sendBuffer s) - word_of_int amt) (sendBuffer s)\<rparr>,
        setIn_receive (socket s) w)
     else (s, w))"

definition trackRTT2 :: "int \<Rightarrow> 'b session2 \<Rightarrow> 'b session2" where
  "trackRTT2 now s =
    (if rttTracking s \<and>
        0 \<le> sendUnacknowledged s + of_bool (flushToClientFinished s) - rttTrackedSendSequence s
     then pushRTT ((now - rttSendTime s) sdiv 1000000) (s\<lparr>rttTracking := False\<rparr>) else s)"

text \<open>The payload and the FIN of a segment in order: lines 243 to 257.\<close>

definition takePayload2 ::
    "('p, 'x) packet_ops2_scheme \<Rightarrow> 'p net2 \<Rightarrow> 'b buffer_ops \<Rightarrow> 'b session2 \<Rightarrow> 'p \<Rightarrow> 'p world \<Rightarrow> ('p, 'b) conf2" where
  "takePayload2 P N B s p w =
    (if receiveFromClientFinished s then (s, p, w)
     else let size = word_of_nat (length (payload P p));
              len = min size (available B (receiveBuffer s));
              (s, w) = (if len \<noteq> 0
                then (s\<lparr>receiveBuffer := put B (take (unat len) (payload P p)) (receiveBuffer s)\<rparr>,
                      setIn_send (socket s) w)
                else (s, w))
       in if isFin P p \<and> len = size
          then let s = s\<lparr>receiveFromClientFinished := True\<rparr>; (p, w) = sendAck2 P B s p w in (s, p, w)
          else let (p, w) = acknowledgeDelayed2 P N B s p w in (s, p, w))"

definition receiveEstablished2 ::
    "('p, 'x) packet_ops2_scheme \<Rightarrow> 'p net2 \<Rightarrow> 'b buffer_ops \<Rightarrow> 'b session2 \<Rightarrow> 'p \<Rightarrow> 'p world \<Rightarrow> ('p, 'b) conf2" where
  "receiveEstablished2 P N B s p w =
    (let d = getAcknowledgmentNumber P p - sendUnacknowledged s in
     if getSequenceNumber P p - receiveSent s \<noteq>
        position B (receiveBuffer s) + of_bool (receiveFromClientFinished s)
     then let (p, w) = sendAck2 P B s p w in (s, p, w)
     else if d > sendNextOffset s + of_bool (sentFinToClient s)
     then let (p, w) = sendAck2 P B s p w in (s, p, w)
     else let now = clock N (log w);
              w = emit EvNow w;
              s = (if sint d \<ge> 0
                   then s\<lparr>lastTimeAcceptedAcknowledgement := now,
                          sendWindowRightEdge := push_bit (unat (sendWindowShift s)) (ucast (getWindowSize P p))\<rparr>
                   else s);
              finAcked = (d > sendNextOffset s)
       in if finAcked \<and> flushToServerFinished s then let (s, w) = closeSession2 s w in (s, p, w)
          else let amt = (if finAcked then sint d - 1 else sint d);
                   s = (if finAcked then s\<lparr>flushToClientFinished := True\<rparr> else s);
                   (s, w) = acknowledged2 B amt s w
            in takePayload2 P N B (trackRTT2 now s) p w)"

text \<open>\<open>False\<close>: the packet belongs to another connection.\<close>

definition receiveFromClient2 ::
    "('p, 'x) packet_ops2_scheme \<Rightarrow> 'p net2 \<Rightarrow> 'b buffer_ops \<Rightarrow> 'b session2 \<Rightarrow> 'p \<Rightarrow> 'p world \<Rightarrow>
     bool \<times> ('p, 'b) conf2" where
  "receiveFromClient2 P N B s p w =
    (if \<not> canHandle2 P s p then (False, s, p, w)
     else (True,
       if isSyn P p then
         if isAck P p then let (p, w) = sendReset2 P p w in (s, p, w) else receiveSyn2 P N B s p w
       else if isReset P p then receiveReset2 P B s p w
       else if isAck P p then
         (case state s of
            SYN_ACK_SENT \<Rightarrow> receiveHandshakeAck2 P N s p w
          | ESTABLISHED \<Rightarrow> receiveEstablished2 P N B s p w
          | _ \<Rightarrow> let (p, w) = sendReset2 P p w in (s, p, w))
       else let (p, w) = sendReset2 P p w in (s, p, w)))"

section \<open>To the server\<close>

definition resetClient2 ::
    "('p, 'x) packet_ops2_scheme \<Rightarrow> 'b session2 \<Rightarrow> 'p \<Rightarrow> 'p world \<Rightarrow> ('p, 'b) conf2" where
  "resetClient2 P s p w =
    (let p = setEnds2 P s (makeResetSeq P (sendUnacknowledged s + sendNextOffset s) p);
         (s, w) = closeSession2 s (writePacket p w)
     in (s, p, w))"

definition connectionReady2 ::
    "('p, 'x) packet_ops2_scheme \<Rightarrow> 'p net2 \<Rightarrow> 'b session2 \<Rightarrow> 'p \<Rightarrow> 'p world \<Rightarrow> ('p, 'b) conf2" where
  "connectionReady2 P N s p w =
    (let now = clock N (log w); w = emit EvNow w in
     if last_error N (log w) (socket s) = 0 then
       if now - lastTimeSentNewData s < ms SYN_ACK_DELAY then (s, p, w)
       else let p = makeSyn P (sendUnacknowledged s) (receiveSent s) (setEnds2 P s p);
                w = writePacket p w;
                now = clock N (log w);
                w = emit EvNow w
         in (s\<lparr>lastTimeSentNewData := now, state := SYN_ACK_SENT\<rparr>, p, unsetFrom_send (socket s) w)
     else let p = makeResetAck P (receiveSent s) (setEnds2 P s p);
              (s, w) = closeSession2 s (writePacket p w)
       in (s, p, w))"

text \<open>What follows the call of the socket, \<open>amt\<close> of \<open>all\<close> bytes being sent.\<close>

definition flushed2 ::
    "'b buffer_ops \<Rightarrow> u32 \<Rightarrow> u32 \<Rightarrow> 'b session2 \<Rightarrow> 'p world \<Rightarrow> 'b session2 \<times> 'p world" where
  "flushed2 B amt all s w =
    (let w = (if amt = all then unsetFrom_send (socket s) w else w) in
     if amt = all \<and> receiveFromClientFinished s then
       if flushToClientFinished s then closeSession2 s w
       else (s\<lparr>flushToServerFinished := True\<rparr>, emit (EvShutdownWrite (socket s)) w)
     else (s\<lparr>receiveBuffer := compact B (all - amt) (receiveBuffer s)\<rparr>, w))"

definition flushDataToServer2 ::
    "('p, 'x) packet_ops2_scheme \<Rightarrow> 'p net2 \<Rightarrow> 'b buffer_ops \<Rightarrow> 'b session2 \<Rightarrow> 'p \<Rightarrow> 'p world \<Rightarrow> ('p, 'b) conf2" where
  "flushDataToServer2 P N B s p w =
    (if state s = SYN_RECEIVED then connectionReady2 P N s p w
     else if state s \<noteq> ESTABLISHED \<or> flushToServerFinished s then (s, p, w)
     else let all = position B (receiveBuffer s);
              bs = as_bytes B 0 all (receiveBuffer s)
       in case try_send N (log w) (socket s) bs of
            None \<Rightarrow> resetClient2 P s p (emit (EvSend (socket s) bs (- 1)) w)
          | Some n \<Rightarrow>
              let (s, w) = flushed2 B (if n = - 1 then 0 else word_of_int n) all s (emit (EvSend (socket s) bs n) w)
              in (s, p, w))"

section \<open>To the client\<close>

text \<open>
  The loop of the lambda \<open>sendDataStartingFrom\<close>: one round, its condition, and the loop. \<open>None\<close> means that it
  does not end. \<open>bound\<close> is computed by the caller.
\<close>

definition nextSegment2 ::
    "('p, 'x) packet_ops2_scheme \<Rightarrow> 'b buffer_ops \<Rightarrow> u32 \<Rightarrow> u16 \<Rightarrow> u32 \<Rightarrow> u32 \<Rightarrow> 'b session2 \<Rightarrow> 'p \<Rightarrow>
     u32 \<times> 'b session2 \<times> 'p" where
  "nextSegment2 P B bound seg ack off s p =
    (let amt = min (ucast seg) (bound - off);
         p = makeNormal P (sendUnacknowledged s + off) ack p;
         p = setTCPPayload P (as_bytes B off (off + amt) (sendBuffer s)) p;
         off = off + amt;
         fin = (receiveFromServerFinished s \<and> off = position B (sendBuffer s))
     in (off, if fin then s\<lparr>sentFinToClient := True\<rparr> else s, if fin then setFinFlag P True p else p))"

definition moreSegments2 :: "u32 \<Rightarrow> u16 \<Rightarrow> bool \<Rightarrow> u32 \<Rightarrow> 'b session2 \<Rightarrow> bool" where
  "moreSegments2 bound seg push off s =
    ((if push then off else off + ucast seg) < bound + of_bool (receiveFromServerFinished s))"

partial_function (option) sendLoop2 ::
    "('p, 'x) packet_ops2_scheme \<Rightarrow> 'b buffer_ops \<Rightarrow> u32 \<Rightarrow> u16 \<Rightarrow> bool \<Rightarrow> u32 \<Rightarrow> u32 \<Rightarrow> 'b session2 \<Rightarrow> 'p \<Rightarrow> 'p world \<Rightarrow>
     (u32 \<times> ('p, 'b) conf2) option" where
  "sendLoop2 P B bound seg push ack off s p w =
    (if moreSegments2 bound seg push off s
     then case nextSegment2 P B bound seg ack off s p of (off, s, p) \<Rightarrow>
       sendLoop2 P B bound seg push ack off s p (writePacket p w)
     else Some (off, s, p, w))"

definition sendDataStartingFrom2 ::
    "('p, 'x) packet_ops2_scheme \<Rightarrow> 'b buffer_ops \<Rightarrow> u32 \<Rightarrow> int \<Rightarrow> u32 \<Rightarrow> bool \<Rightarrow> 'b session2 \<Rightarrow> 'p \<Rightarrow> 'p world \<Rightarrow>
     ('p, 'b) conf2 option" where
  "sendDataStartingFrom2 P B bound now off push s p w =
    (let ack = receiveSent s + position B (receiveBuffer s);
         p = setWindow P (available B (receiveBuffer s)) p
     in case sendLoop2 P B bound (mss s) push ack off s p w of
          None \<Rightarrow> None
        | Some (off', s, p, w) \<Rightarrow>
            let newOff = max (sendNextOffset s) off' in
            Some (if newOff \<noteq> sendNextOffset s
                  then s\<lparr>sendNextOffset := newOff, lastTimeSentNewData := now, sendRetryCount := 0\<rparr> else s, p, w))"

definition probe2 ::
    "('p, 'x) packet_ops2_scheme \<Rightarrow> 'b buffer_ops \<Rightarrow> int \<Rightarrow> 'b session2 \<Rightarrow> 'p \<Rightarrow> 'p world \<Rightarrow> ('p, 'b) conf2" where
  "probe2 P B now s p w =
    (if now - lastTimeSentNewData s > ms (getIntervalToNextProbe s) then
       let s = s\<lparr>sendRetryCount := sendRetryCount s + 1\<rparr>;
           p = makeNormal P (sendUnacknowledged s + sendNextOffset s) (receiveSent s + position B (receiveBuffer s)) p;
           p = setWindow P (available B (receiveBuffer s)) p
       in (s, p, writePacket p w)
     else (s, p, w))"

text \<open>The first flush: everything again, or whole segments of what is new.\<close>

definition firstFlush2 ::
    "('p, 'x) packet_ops2_scheme \<Rightarrow> 'b buffer_ops \<Rightarrow> u32 \<Rightarrow> int \<Rightarrow> 'b session2 \<Rightarrow> 'p \<Rightarrow> 'p world \<Rightarrow> ('p, 'b) conf2 option" where
  "firstFlush2 P B bound now s p w =
    (let finNotAcknowledged = (receiveFromServerFinished s \<noteq> flushToClientFinished s) in
     if sendNextOffset s \<noteq> 0 \<or> finNotAcknowledged \<and>
        now - lastTimeAcceptedAcknowledgement s > ms (getMeanRTT s sdiv 5)
     then sendDataStartingFrom2 P B bound now 0 finNotAcknowledged s p w
     else if bound - sendNextOffset s > ucast (mss s)
     then (case sendDataStartingFrom2 P B bound now (sendNextOffset s) False s p w of
             None \<Rightarrow> None
           | Some (s, p, w) \<Rightarrow> Some (if \<not> rttTracking s
               then s\<lparr>rttTracking := True, rttTrackedSendSequence :=
                      sendUnacknowledged s + sendNextOffset s + of_bool (sentFinToClient s),
                      rttSendTime := now\<rparr>
               else s, p, w))
     else Some (s, p, w))"

definition flushRest2 ::
    "('p, 'x) packet_ops2_scheme \<Rightarrow> 'b buffer_ops \<Rightarrow> u32 \<Rightarrow> int \<Rightarrow> bool \<Rightarrow> 'b session2 \<Rightarrow> 'p \<Rightarrow> 'p world \<Rightarrow>
     ('p, 'b) conf2 option" where
  "flushRest2 P B bound now finNotSent s p w =
    (if sendNextOffset s \<noteq> bound \<and> now - lastTimeSentNewData s > ms (getMeanRTT s sdiv 5) \<or> finNotSent
     then sendDataStartingFrom2 P B bound now (sendNextOffset s) True s p w
     else Some (s, p, w))"

definition flushDataToClient2 ::
    "('p, 'x) packet_ops2_scheme \<Rightarrow> 'p net2 \<Rightarrow> 'b buffer_ops \<Rightarrow> 'b session2 \<Rightarrow> 'p \<Rightarrow> 'p world \<Rightarrow> ('p, 'b) conf2 option" where
  "flushDataToClient2 P N B s p w =
    (if state s \<noteq> ESTABLISHED \<or> flushToClientFinished s then Some (s, p, w)
     else let now = clock N (log w);
              w = emit EvNow w;
              bound = min (sendWindowRightEdge s) (position B (sendBuffer s));
              finNotSent = (receiveFromClientFinished s \<noteq> sentFinToClient s)
       in case firstFlush2 P B bound now s p w of
            None \<Rightarrow> None
          | Some (s, p, w) \<Rightarrow>
              (case flushRest2 P B bound now finNotSent s p w of
                 None \<Rightarrow> None
               | Some (s, p, w) \<Rightarrow> Some (probe2 P B now s p w)))"

definition receiveFromServer2 ::
    "('p, 'x) packet_ops2_scheme \<Rightarrow> 'p net2 \<Rightarrow> 'b buffer_ops \<Rightarrow> 'b session2 \<Rightarrow> 'p \<Rightarrow> 'p world \<Rightarrow> ('p, 'b) conf2 option" where
  "receiveFromServer2 P N B s p w =
    (if state s \<noteq> ESTABLISHED \<or> receiveFromServerFinished s then Some (s, p, w)
     else let len = available B (sendBuffer s);
              ans = try_receive N (log w) (socket s) len;
              w = emit (EvReceive (socket s) (unat len)) w;
              (s, w) = (case ans of
                 None \<Rightarrow> (s\<lparr>receiveFromServerFinished := True\<rparr>, unsetFrom_receive (socket s) w)
               | Some (n, bs) \<Rightarrow>
                   if n = - 1 then (s, w)
                   else if n = 0 then (s\<lparr>receiveFromServerFinished := True\<rparr>, unsetFrom_receive (socket s) w)
                   else (s\<lparr>sendBuffer := fill B bs (sendBuffer s)\<rparr>, w))
       in case flushDataToClient2 P N B s p w of
            None \<Rightarrow> None
          | Some (s, p, w) \<Rightarrow> Some (s, p,
              if available B (sendBuffer s) = 0 then unsetFrom_receive (socket s) w else w))"

section \<open>Errors and time\<close>

definition onSocketError2 ::
    "('p, 'x) packet_ops2_scheme \<Rightarrow> 'b session2 \<Rightarrow> 'p \<Rightarrow> 'p world \<Rightarrow> ('p, 'b) conf2" where
  "onSocketError2 P s p w = resetClient2 P s p w"

text \<open>The \<open>case\<close> of a half-open session falls through into the next one.\<close>

definition checkProbing2 :: "'p net2 \<Rightarrow> 'b session2 \<Rightarrow> 'p world \<Rightarrow> bool \<times> 'b session2 \<times> 'p world" where
  "checkProbing2 N s w =
    (let now = clock N (log w); w = emit EvNow w in
     if now - lastTimeAcceptedAcknowledgement s >
        ms (if flushToClientFinished s then NO_PROBING_TIMEOUT else getIntervalToNextProbe s + getMeanRTT s * 2)
     then (False, closeSession2 s w) else (True, s, w))"

definition checkStatus2 :: "'p net2 \<Rightarrow> 'b session2 \<Rightarrow> 'p world \<Rightarrow> bool \<times> 'b session2 \<times> 'p world" where
  "checkStatus2 N s w =
    (case state s of
       CLOSED \<Rightarrow> (False, s, w)
     | SYN_ACK_SENT \<Rightarrow>
         (let now = clock N (log w); w = emit EvNow w in
          if now - lastTimeSentNewData s > ms SYN_TIMEOUT then (False, closeSession2 s w)
          else checkProbing2 N s w)
     | ESTABLISHED \<Rightarrow> checkProbing2 N s w
     | SYN_RECEIVED \<Rightarrow> (True, s, w))"

end
