(* ===== verification/SessionV2_Laws.thy ===== *)
theory SessionV2_Laws
  imports SessionV2
begin

text \<open>
  What the second session relies on from outside the repository: the setters of the packet class, and a
  buffer of 65535 bytes that is filled at its end and emptied at its front. The last section gives
  one instance of both for the witnesses.
\<close>

section \<open>Packets\<close>

definition packet2_laws :: "('p, 'x) packet_ops2_scheme \<Rightarrow> bool" where
  "packet2_laws P \<longleftrightarrow> header_laws P \<and>
    (\<forall>n p. getSequenceNumber P (setWindow P n p) = getSequenceNumber P p \<and>
       getAcknowledgmentNumber P (setWindow P n p) = getAcknowledgmentNumber P p \<and>
       isReset P (setWindow P n p) = isReset P p \<and> isSyn P (setWindow P n p) = isSyn P p \<and>
       isAck P (setWindow P n p) = isAck P p \<and> isFin P (setWindow P n p) = isFin P p \<and>
       payload P (setWindow P n p) = payload P p \<and> payloadCapacity P (setWindow P n p) = payloadCapacity P p) \<and>
    (\<forall>a p. isReset P (setSourceAddress P a p) = isReset P p \<and>
       isReset P (setDestinationAddress P a p) = isReset P p \<and>
       getSource P (setSourceAddress P a p) = a \<and>
       getSource P (setDestinationAddress P a p) = getSource P p \<and>
       getDestination P (setDestinationAddress P a p) = a) \<and>
    (\<forall>p. length (payload P p) \<le> 65535) \<and>
    (\<forall>bs p. length bs \<le> payloadCapacity P p \<longrightarrow> payload P (setTCPPayload P bs p) = bs) \<and>
    (\<forall>bs p. payloadCapacity P (setTCPPayload P bs p) = payloadCapacity P p \<and>
       getSequenceNumber P (setTCPPayload P bs p) = getSequenceNumber P p \<and>
       getAcknowledgmentNumber P (setTCPPayload P bs p) = getAcknowledgmentNumber P p \<and>
       isFin P (setTCPPayload P bs p) = isFin P p)"

lemma packet2_header: "packet2_laws P \<Longrightarrow> header_laws P"
  by (simp add: packet2_laws_def)

lemma setters2 [ext_laws]:
  "packet2_laws P \<Longrightarrow> getSequenceNumber P (setWindow P n p) = getSequenceNumber P p"
  "packet2_laws P \<Longrightarrow> getAcknowledgmentNumber P (setWindow P n p) = getAcknowledgmentNumber P p"
  "packet2_laws P \<Longrightarrow> isReset P (setWindow P n p) = isReset P p"
  "packet2_laws P \<Longrightarrow> isSyn P (setWindow P n p) = isSyn P p"
  "packet2_laws P \<Longrightarrow> isAck P (setWindow P n p) = isAck P p"
  "packet2_laws P \<Longrightarrow> isFin P (setWindow P n p) = isFin P p"
  "packet2_laws P \<Longrightarrow> payload P (setWindow P n p) = payload P p"
  "packet2_laws P \<Longrightarrow> isReset P (setSourceAddress P a p) = isReset P p"
  "packet2_laws P \<Longrightarrow> isReset P (setDestinationAddress P a p) = isReset P p"
  "packet2_laws P \<Longrightarrow> getSource P (setSourceAddress P a p) = a"
  "packet2_laws P \<Longrightarrow> getSource P (setDestinationAddress P a p) = getSource P p"
  "packet2_laws P \<Longrightarrow> getDestination P (setDestinationAddress P a p) = a"
  "packet2_laws P \<Longrightarrow> payloadCapacity P (setWindow P n p) = payloadCapacity P p"
  "packet2_laws P \<Longrightarrow> payloadCapacity P (setTCPPayload P bs p) = payloadCapacity P p"
  "packet2_laws P \<Longrightarrow> length bs \<le> payloadCapacity P p \<Longrightarrow> payload P (setTCPPayload P bs p) = bs"
  "packet2_laws P \<Longrightarrow> getSequenceNumber P (setTCPPayload P bs p) = getSequenceNumber P p"
  "packet2_laws P \<Longrightarrow> getAcknowledgmentNumber P (setTCPPayload P bs p) = getAcknowledgmentNumber P p"
  "packet2_laws P \<Longrightarrow> isFin P (setTCPPayload P bs p) = isFin P p"
  by (simp_all add: packet2_laws_def del: split_paired_All)

lemma payload_size: "packet2_laws P \<Longrightarrow> length (payload P p) \<le> 65535"
  by (simp add: packet2_laws_def)

section \<open>Buffers\<close>

text \<open>\<open>c\<close> gives the bytes between the start of the buffer and its position.\<close>

definition buffer_laws :: "'b buffer_ops \<Rightarrow> ('b \<Rightarrow> byte list) \<Rightarrow> bool" where
  "buffer_laws B c \<longleftrightarrow>
    (\<forall>b. length (c b) \<le> BUFFER_SIZE \<and> position B b = word_of_nat (length (c b)) \<and>
       available B b = word_of_nat (BUFFER_SIZE - length (c b)) \<and> c (clear_buffer B b) = []) \<and>
    (\<forall>b bs. length (c b) + length bs \<le> BUFFER_SIZE \<longrightarrow> c (put B bs b) = c b @ bs \<and> c (fill B bs b) = c b @ bs) \<and>
    (\<forall>b n. unat n \<le> length (c b) \<longrightarrow> c (compact B n b) = drop (length (c b) - unat n) (c b)) \<and>
    (\<forall>b i j. i \<le> j \<longrightarrow> unat j \<le> length (c b) \<longrightarrow> as_bytes B i j b = drop (unat i) (take (unat j) (c b)))"

lemma buffer_size:
  assumes "buffer_laws B c"
  shows "length (c b) \<le> 65535" "unat (position B b) = length (c b)"
    "unat (available B b) = 65535 - length (c b)" "c (clear_buffer B b) = []"
proof -
  have l: "length (c b) \<le> BUFFER_SIZE" "position B b = word_of_nat (length (c b))"
      "available B b = word_of_nat (BUFFER_SIZE - length (c b))" "c (clear_buffer B b) = []"
    using assms by (auto simp: buffer_laws_def)
  show "length (c b) \<le> 65535" using l(1) by (simp add: BUFFER_SIZE_def)
  then have u: "unat (word_of_nat n :: u32) = n" if "n \<le> 65535" for n
    using that by (simp add: unat_of_nat take_bit_nat_eq_self)
  show "unat (position B b) = length (c b)" "unat (available B b) = 65535 - length (c b)"
    unfolding l(2,3) using l(1) u by (simp_all add: BUFFER_SIZE_def del: of_nat_diff)
qed (use assms in \<open>simp add: buffer_laws_def\<close>)

lemma buffer_put:
  "buffer_laws B c \<Longrightarrow> length (c b) + length bs \<le> 65535 \<Longrightarrow> c (put B bs b) = c b @ bs"
  "buffer_laws B c \<Longrightarrow> length (c b) + length bs \<le> 65535 \<Longrightarrow> c (fill B bs b) = c b @ bs"
  by (simp_all add: buffer_laws_def BUFFER_SIZE_def)

lemma buffer_compact:
  "buffer_laws B c \<Longrightarrow> unat n \<le> length (c b) \<Longrightarrow> c (compact B n b) = drop (length (c b) - unat n) (c b)"
  by (simp add: buffer_laws_def)

lemma buffer_bytes:
  "buffer_laws B c \<Longrightarrow> i \<le> j \<Longrightarrow> unat j \<le> length (c b) \<Longrightarrow>
    as_bytes B i j b = drop (unat i) (take (unat j) (c b))"
  by (simp add: buffer_laws_def)

lemma buffer_all: "buffer_laws B c \<Longrightarrow> as_bytes B 0 (position B b) b = c b"
  using buffer_bytes [of B c 0 "position B b" b] buffer_size [of B c b] by simp

section \<open>An instance for the witnesses\<close>

definition demo_ops2 :: "demo_packet packet_ops2" where
  "demo_ops2 = demo_ops (packet_ops2.fields (\<lambda>n p. p\<lparr>dp_win := ucast n\<rparr>)
     (\<lambda>a p. p\<lparr>dp_src := a\<rparr>) (\<lambda>a p. p\<lparr>dp_dst := a\<rparr>) (\<lambda>bs p. p\<lparr>dp_data := bs\<rparr>))"

lemma demo_ops2_simps [simp]:
  "setWindow demo_ops2 n p = p\<lparr>dp_win := ucast n\<rparr>" "setSourceAddress demo_ops2 a p = p\<lparr>dp_src := a\<rparr>"
  "setDestinationAddress demo_ops2 a p = p\<lparr>dp_dst := a\<rparr>" "setTCPPayload demo_ops2 bs p = p\<lparr>dp_data := bs\<rparr>"
  by (simp_all add: demo_ops2_def demo_ops_def packet_ops2.defs)

lemma demo_ops2_base [simp]:
  "isSyn demo_ops2 = dp_syn" "isAck demo_ops2 = dp_ack" "isFin demo_ops2 = dp_fin" "isReset demo_ops2 = dp_rst"
  "getSequenceNumber demo_ops2 = dp_seq" "getAcknowledgmentNumber demo_ops2 = dp_ackno"
  "getSegmentLength demo_ops2 = demo_segment_length" "getWindowSize demo_ops2 = dp_win"
  "getWindowShift demo_ops2 = (\<lambda>_. 0)" "getSource demo_ops2 = dp_src" "getDestination demo_ops2 = dp_dst"
  "payload demo_ops2 = (\<lambda>p. take 65535 (dp_data p))" "payloadCapacity demo_ops2 = (\<lambda>_. 65535)"
  "swapEnds demo_ops2 p = p\<lparr>dp_src := dp_dst p, dp_dst := dp_src p\<rparr>"
  "makeResetSeq demo_ops2 n p = p\<lparr>dp_syn := False, dp_ack := False, dp_fin := False,
     dp_rst := True, dp_seq := n, dp_data := []\<rparr>"
  "makeResetAck demo_ops2 n p = p\<lparr>dp_syn := False, dp_ack := True, dp_fin := False,
     dp_rst := True, dp_seq := 0, dp_ackno := n, dp_data := []\<rparr>"
  "makeSyn demo_ops2 m n p = p\<lparr>dp_syn := True, dp_ack := True, dp_fin := False,
     dp_rst := False, dp_seq := m, dp_ackno := n\<rparr>"
  "makeNormal demo_ops2 m n p = p\<lparr>dp_syn := False, dp_ack := True, dp_fin := False,
     dp_rst := False, dp_seq := m, dp_ackno := n\<rparr>"
  "setFinFlag demo_ops2 b p = p\<lparr>dp_fin := b\<rparr>"
  by (simp_all add: demo_ops2_def)

lemma demo_laws2: "packet2_laws demo_ops2"
  using demo_header_laws by (simp add: packet2_laws_def demo_ops2_def [symmetric]) (simp add: demo_ops2_def)

text \<open>A buffer that is the list of its bytes, cut to the capacity.\<close>

definition demo_buffer :: "byte list buffer_ops" where
  "demo_buffer = \<lparr>position = (\<lambda>b. word_of_nat (length (take 65535 b))),
     available = (\<lambda>b. word_of_nat (65535 - length (take 65535 b))),
     put = (\<lambda>bs b. take 65535 b @ bs), fill = (\<lambda>bs b. take 65535 b @ bs),
     compact = (\<lambda>n b. drop (length (take 65535 b) - unat n) (take 65535 b)),
     as_bytes = (\<lambda>i j b. drop (unat i) (take (unat j) (take 65535 b))), clear_buffer = (\<lambda>_. [])\<rparr>"

lemma demo_buffer_laws: "buffer_laws demo_buffer (take 65535)"
  by (simp add: buffer_laws_def demo_buffer_def BUFFER_SIZE_def)

text \<open>\<open>demo_net2 r n bs t\<close>: a connect answers \<open>r\<close>, a send \<open>n\<close>, a receive gives \<open>bs\<close>, the time is \<open>t\<close>.\<close>

definition demo_net2 :: "int option \<Rightarrow> int option \<Rightarrow> byte list \<Rightarrow> int \<Rightarrow> 'p net2" where
  "demo_net2 r n bs t = \<lparr>try_connect = (\<lambda>_ _. (7, r)), last_error = (\<lambda>_ _. 0), try_send = (\<lambda>_ _ _. n),
     try_receive = (\<lambda>_ _ k. Some (int (length (take (unat k) bs)), take (unat k) bs)),
     clock = (\<lambda>_. t), random_number = (\<lambda>_. 1000), ip_mss = 1460\<rparr>"

definition demo_session2 :: "byte list session2" where
  "demo_session2 = (new_session2 (demo_net2 (Some 0) None [] 0 :: demo_packet net2) [] [])\<lparr>socket := 7, state := ESTABLISHED,
     clientAddress := (1, 1), serverAddress := (2, 2), sendWindowRightEdge := 65535,
     sendUnacknowledged := 1001, receiveSent := 501\<rparr>"

end
