(* ===== verification/SessionV2_Client.thy ===== *)
theory SessionV2_Client
  imports SessionV2_Laws
begin

text \<open>
  The client's half of the second session: the handshake, the segments of the client, and the flush
  towards the server.
\<close>

section \<open>The handshake\<close>

text \<open>
  A session whose SYN-ACK is out becomes established by exactly one acknowledgement: the one that repeats
  the number the SYN-ACK was given as its own. Every other one is answered by a reset and changes nothing; so the
  usual acknowledgement of a SYN, one more than its number, is refused.
\<close>

theorem handshake_ack_exact:
  assumes "packet2_laws P" and "state s = SYN_ACK_SENT" and "canHandle2 P s p"
    and "isAck P p" and "\<not> isSyn P p" and "\<not> isReset P p"
  shows "case receiveFromClient2 P N B s p w of (handled, s', p', w') \<Rightarrow> handled \<and>
    (if getSequenceNumber P p = receiveSent s \<and> getAcknowledgmentNumber P p = sendUnacknowledged s
     then state s' = ESTABLISHED \<and> sendUnacknowledged s' = sendUnacknowledged s + 1 \<and>
       written (log w') = written (log w) \<and> receiveSet w' = insert (socket s) (receiveSet w)
     else s' = s \<and> isReset P p' \<and> written (log w') = written (log w) @ [p'])"
  using assms
  by (auto simp: receiveFromClient2_def receiveHandshakeAck2_def sendReset2_def Let_def pushRTT_def setIn_receive_def
      makeReset_laws packet2_header)

theorem handshake_ack_exact_witness:
  "case receiveFromClient2 demo_ops2 (demo_net2 (Some 0) None [] 0) demo_buffer
      (demo_session2\<lparr>state := SYN_ACK_SENT, sendUnacknowledged := 1000\<rparr>)
      (demo_packet\<lparr>dp_ack := True, dp_seq := 501, dp_ackno := 1001\<rparr>) empty_world
   of (handled, s', p', w') \<Rightarrow> state s' = SYN_ACK_SENT \<and> dp_rst p'"
proof -
  let ?s = "demo_session2\<lparr>state := SYN_ACK_SENT, sendUnacknowledged := 1000\<rparr>"
  let ?p = "demo_packet\<lparr>dp_ack := True, dp_seq := 501, dp_ackno := 1001\<rparr>"
  have "canHandle2 demo_ops2 ?s ?p" by (simp add: canHandle2_def demo_session2_def)
  from handshake_ack_exact [OF demo_laws2 _ this,
      where N = "demo_net2 (Some 0) None [] 0" and B = demo_buffer and w = empty_world]
  show ?thesis by (simp add: demo_session2_def split: prod.splits)
qed

text \<open>
  The round trip time measured by the handshake is always the minimum: the difference is taken the wrong
  way round, so it is never positive.
\<close>

theorem handshake_rtt_minimal:
  assumes "state s = SYN_ACK_SENT" and "getSequenceNumber P p = receiveSent s"
    and "getAcknowledgmentNumber P p = sendUnacknowledged s" and "lastTimeSentNewData s \<le> clock N (log w)"
  shows "rttHistory (fst (receiveHandshakeAck2 P N s p w)) = tl (rttHistory s) @ [MIN_RTT]"
proof -
  have "x sdiv 1000000 \<le> 0" if "x \<le> 0" for x :: int
    using that by (cases "x = 0") (simp_all add: signed_divide_int_def sgn_if pos_imp_zdiv_nonneg_iff)
  then have "(lastTimeSentNewData s - clock N (log w)) sdiv 1000000 \<le> 0" using assms(4) by simp
  then show ?thesis using assms by (simp add: receiveHandshakeAck2_def Let_def pushRTT_def MIN_RTT_def)
qed

theorem handshake_rtt_minimal_witness:
  "rttHistory (fst (receiveHandshakeAck2 demo_ops2 (demo_net2 (Some 0) None [] (10 ^ 9))
     (demo_session2\<lparr>state := SYN_ACK_SENT\<rparr>) (demo_packet\<lparr>dp_seq := 501, dp_ackno := 1001\<rparr>) empty_world)) =
   [250, 250, 250, 250, 50]"
  using handshake_rtt_minimal [of "demo_session2\<lparr>state := SYN_ACK_SENT\<rparr>" demo_ops2
      "demo_packet\<lparr>dp_seq := 501, dp_ackno := 1001\<rparr>" "demo_net2 (Some 0) None [] (10 ^ 9)" empty_world]
  by (simp add: demo_session2_def new_session2_def demo_net2_def MIN_RTT_def numeral_eq_Suc)

section \<open>Segments\<close>

text \<open>A segment the session looks at: the next byte it expects, and an acknowledgement of nothing unsent.\<close>

definition in_order2 :: "('p, 'x) packet_ops2_scheme \<Rightarrow> 'b buffer_ops \<Rightarrow> 'b session2 \<Rightarrow> 'p \<Rightarrow> bool" where
  "in_order2 P B s p = (state s = ESTABLISHED \<and> canHandle2 P s p \<and> isAck P p \<and> \<not> isSyn P p \<and> \<not> isReset P p \<and>
     getSequenceNumber P p = receiveNext B s)"

lemma in_order2_receive:
  "in_order2 P B s p \<Longrightarrow> receiveFromClient2 P N B s p w = (True, receiveEstablished2 P N B s p w)"
  by (simp add: in_order2_def receiveFromClient2_def)

lemma takePayload2_spec:
  assumes "packet2_laws P" and "buffer_laws B c" and "\<not> receiveFromClientFinished s"
    and "takePayload2 P N B s p w = (s', p', w')"
  shows "c (receiveBuffer s') = c (receiveBuffer s) @ take (65535 - length (c (receiveBuffer s))) (payload P p)"
    and "receiveFromClientFinished s' =
      (isFin P p \<and> length (payload P p) \<le> 65535 - length (c (receiveBuffer s)))"
    and "sendBuffer s' = sendBuffer s \<and> sendUnacknowledged s' = sendUnacknowledged s \<and>
      sendNextOffset s' = sendNextOffset s \<and> state s' = state s \<and> receiveSent s' = receiveSent s"
proof -
  define size where "size = (word_of_nat (length (payload P p)) :: u32)"
  define len where "len = min size (available B (receiveBuffer s))"
  have us: "unat size = length (payload P p)"
    using payload_size [OF assms(1), of p] by (simp add: size_def unat_of_nat take_bit_nat_eq_self)
  then have ul: "unat len = min (length (payload P p)) (65535 - length (c (receiveBuffer s)))"
    using buffer_size [OF assms(2)] by (simp add: len_def min_def word_le_nat_alt)
  have eq: "len = size \<longleftrightarrow> length (payload P p) \<le> 65535 - length (c (receiveBuffer s))"
    using us ul by (auto simp: word_unat_eq_iff)
  have tk: "take (unat len) (payload P p) = take (65535 - length (c (receiveBuffer s))) (payload P p)"
    unfolding ul by (simp add: min_def)
  have "length (c (receiveBuffer s)) + length (take (unat len) (payload P p)) \<le> 65535"
    using ul buffer_size(1) [OF assms(2), of "receiveBuffer s"] by (auto simp: min_def)
  note put = buffer_put(1) [OF assms(2) this]
  have z: "len = 0 \<Longrightarrow> take (65535 - length (c (receiveBuffer s))) (payload P p) = []"
    using tk by simp
  show "c (receiveBuffer s') = c (receiveBuffer s) @ take (65535 - length (c (receiveBuffer s))) (payload P p)"
    "receiveFromClientFinished s' =
      (isFin P p \<and> length (payload P p) \<le> 65535 - length (c (receiveBuffer s)))"
    "sendBuffer s' = sendBuffer s \<and> sendUnacknowledged s' = sendUnacknowledged s \<and>
      sendNextOffset s' = sendNextOffset s \<and> state s' = state s \<and> receiveSent s' = receiveSent s"
    using assms(3,4) put tk z eq
    by (auto simp: takePayload2_def Let_def size_def [symmetric] len_def [symmetric] split: if_splits prod.splits)
qed

lemma trackRTT2_fields [simp]:
  "receiveBuffer (trackRTT2 now s) = receiveBuffer s" "sendBuffer (trackRTT2 now s) = sendBuffer s"
  "sendUnacknowledged (trackRTT2 now s) = sendUnacknowledged s" "sendNextOffset (trackRTT2 now s) = sendNextOffset s"
  "receiveFromClientFinished (trackRTT2 now s) = receiveFromClientFinished s"
  "receiveSent (trackRTT2 now s) = receiveSent s" "state (trackRTT2 now s) = state s"
  "socket (trackRTT2 now s) = socket s"
  by (simp_all add: trackRTT2_def pushRTT_def)

lemma acknowledged2_spec:
  assumes "buffer_laws B c" and "unat d \<le> length (c (sendBuffer s))" and "acknowledged2 B (sint d) s w = (s', w')"
  shows "c (sendBuffer s') = drop (unat d) (c (sendBuffer s))"
    and "s' = s\<lparr>sendUnacknowledged := sendUnacknowledged s + d, sendNextOffset := sendNextOffset s - d,
      sendBuffer := sendBuffer s'\<rparr>"
proof -
  have small: "unat d \<le> 65535" using assms(2) buffer_size(1) [OF assms(1), of "sendBuffer s"] by simp
  then have sd: "sint d = uint d" by (intro sint_small) simp
  have pos: "0 < uint d" if "d \<noteq> 0" using that by (metis word_less_def word_neq_0_conv unsigned_0)
  have "position B (sendBuffer s) \<ge> d"
    using assms(2) buffer_size(2) [OF assms(1), of "sendBuffer s"] by (simp add: word_le_nat_alt)
  then have up: "unat (position B (sendBuffer s) - d) = length (c (sendBuffer s)) - unat d"
    using buffer_size(2) [OF assms(1), of "sendBuffer s"] by (simp add: unat_sub)
  show "c (sendBuffer s') = drop (unat d) (c (sendBuffer s))"
    using assms(3) up buffer_compact [OF assms(1), of "position B (sendBuffer s) - d" "sendBuffer s"] assms(2)
    pos by (cases "d = 0") (auto simp: acknowledged2_def sd split: if_splits)
  show "s' = s\<lparr>sendUnacknowledged := sendUnacknowledged s + d, sendNextOffset := sendNextOffset s - d,
      sendBuffer := sendBuffer s'\<rparr>"
    using assms(3) pos by (cases "d = 0") (auto simp: acknowledged2_def sd split: if_splits)
qed

text \<open>
  C11. An acceptable segment of an established session: exactly as much of the payload as fits is appended to
  the bytes for the server, the FIN counts if all of it did, and exactly the acknowledged bytes leave
  the front of the bytes for the client.
\<close>

theorem segment_taken:
  assumes "packet2_laws P" and "buffer_laws B c" and "in_order2 P B s p" and "\<not> receiveFromClientFinished s"
    and "getAcknowledgmentNumber P p - sendUnacknowledged s \<le> sendNextOffset s"
    and "unat (sendNextOffset s) \<le> length (c (sendBuffer s))"
  shows "case receiveFromClient2 P N B s p w of (handled, s', p', w') \<Rightarrow> handled \<and> state s' = ESTABLISHED \<and>
    c (receiveBuffer s') = c (receiveBuffer s) @ take (65535 - length (c (receiveBuffer s))) (payload P p) \<and>
    receiveFromClientFinished s' = (isFin P p \<and> length (payload P p) \<le> 65535 - length (c (receiveBuffer s))) \<and>
    c (sendBuffer s') = drop (unat (getAcknowledgmentNumber P p - sendUnacknowledged s)) (c (sendBuffer s)) \<and>
    sendUnacknowledged s' = getAcknowledgmentNumber P p \<and>
    sendUnacknowledged s' + sendNextOffset s' = sendUnacknowledged s + sendNextOffset s"
proof -
  let ?d = "getAcknowledgmentNumber P p - sendUnacknowledged s"
  define now where "now = clock N (log w)"
  define s1 where "s1 = s\<lparr>lastTimeAcceptedAcknowledgement := now,
    sendWindowRightEdge := push_bit (unat (sendWindowShift s)) (ucast (getWindowSize P p))\<rparr>"
  obtain s2 w2 where a: "acknowledged2 B (sint ?d) s1 (emit EvNow w) = (s2, w2)" by (metis surj_pair)
  obtain s3 p3 w3 where t: "takePayload2 P N B (trackRTT2 now s2) p w2 = (s3, p3, w3)" by (metis prod_cases3)
  have d: "unat ?d \<le> length (c (sendBuffer s))" using assms(5,6) by (simp add: word_le_nat_alt)
  then have "unat ?d \<le> 65535" using buffer_size(1) [OF assms(2), of "sendBuffer s"] by simp
  then have "sint ?d = uint ?d" by (intro sint_small) simp
  then have sd: "0 \<le> sint ?d" by simp
  have "?d \<le> sendNextOffset s + of_bool (sentFinToClient s)"
  proof -
    have "unat (sendNextOffset s) \<le> 65535" using assms(6) buffer_size(1) [OF assms(2), of "sendBuffer s"] by simp
    then have "sendNextOffset s \<le> sendNextOffset s + of_bool (sentFinToClient s)"
      by (simp add: word_le_nat_alt unat_word_ariths of_bool_def)
    then show ?thesis using assms(5) by (rule order_trans [rotated])
  qed
  then have n: "\<not> sendNextOffset s < ?d" "\<not> sendNextOffset s + of_bool (sentFinToClient s) < ?d"
    using assms(5) by (simp_all only: linorder_not_less)
  then have r: "receiveFromClient2 P N B s p w = (True, s3, p3, w3)"
    using assms(3,4) sd a t
    by (simp add: in_order2_receive receiveEstablished2_def Let_def in_order2_def receiveNext_def now_def s1_def)
  note A = acknowledged2_spec [OF assms(2) _ a]
  have A1: "c (sendBuffer s2) = drop (unat ?d) (c (sendBuffer s))" and
    A2: "s2 = s1\<lparr>sendUnacknowledged := sendUnacknowledged s1 + ?d, sendNextOffset := sendNextOffset s1 - ?d,
      sendBuffer := sendBuffer s2\<rparr>"
    using A d by (simp_all add: s1_def)
  have f: "receiveBuffer s2 = receiveBuffer s" "receiveFromClientFinished s2 = receiveFromClientFinished s"
      "sendUnacknowledged s2 = sendUnacknowledged s + ?d" "sendNextOffset s2 = sendNextOffset s - ?d" "state s2 = state s"
    by (subst A2, simp add: s1_def)+
  note T = takePayload2_spec [OF assms(1,2) _ t]
  show ?thesis using T A1 f assms(3,4) by (simp add: r in_order2_def)
qed

definition demo_segment2 :: "u32 \<Rightarrow> u32 \<Rightarrow> byte list \<Rightarrow> demo_packet" where
  "demo_segment2 seq ack bs = demo_packet\<lparr>dp_ack := True, dp_seq := seq, dp_ackno := ack, dp_win := 100, dp_data := bs\<rparr>"

lemma demo_in_order2:
  "in_order2 demo_ops2 demo_buffer (demo_session2\<lparr>sendBuffer := b, sendNextOffset := n\<rparr>) (demo_segment2 501 ack bs)"
  by (simp add: in_order2_def demo_session2_def demo_segment2_def canHandle2_def receiveNext_def new_session2_def
      demo_buffer_def)

theorem segment_taken_witness:
  "case receiveFromClient2 demo_ops2 (demo_net2 (Some 0) None [] 0) demo_buffer
      (demo_session2\<lparr>sendBuffer := [1, 2, 3], sendNextOffset := 3\<rparr>) (demo_segment2 501 1003 [65, 66]) empty_world
   of (handled, s', p', w') \<Rightarrow> take 65535 (receiveBuffer s') = [65, 66] \<and> take 65535 (sendBuffer s') = [3]"
  using segment_taken [OF demo_laws2 demo_buffer_laws demo_in_order2 [where b = "[1, 2, 3]" and n = 3 and ack = 1003 and bs = "[65, 66]"],
      where N = "demo_net2 (Some 0) None [] 0" and w = empty_world]
  by (simp add: demo_segment2_def demo_session2_def new_session2_def split: prod.splits)

text \<open>
  A segment in order whose acknowledgement is older than the last one is refused: its number minus the
  last one is compared as an unsigned number, so it looks like an acknowledgement of unsent bytes. An
  acknowledgement goes out and the payload is lost, although the code has branches for old acknowledgements.
\<close>

theorem old_ack_drops_payload:
  assumes "packet2_laws P" and "in_order2 P B s p"
    and "sint (getAcknowledgmentNumber P p - sendUnacknowledged s) < 0"
    and "unat (sendNextOffset s) < 2 ^ 31 - 1"
  shows "case receiveFromClient2 P N B s p w of (handled, s', p', w') \<Rightarrow> handled \<and> s' = s \<and>
    written (log w') = written (log w) @ [p'] \<and> getAcknowledgmentNumber P p' = receiveNext B s"
proof -
  let ?d = "getAcknowledgmentNumber P p - sendUnacknowledged s"
  have "2 ^ 31 \<le> unat ?d" by (rule sint_negative [OF assms(3)])
  moreover have "unat (sendNextOffset s + of_bool (sentFinToClient s)) \<le> unat (sendNextOffset s) + 1"
    using assms(4) by (simp add: unat_word_ariths of_bool_def)
  ultimately have "sendNextOffset s + of_bool (sentFinToClient s) < ?d"
    using assms(4) by (simp add: word_less_nat_alt)
  then show ?thesis
    using assms(1,2)
    by (simp add: in_order2_receive receiveEstablished2_def Let_def in_order2_def receiveNext_def sendAck2_def
        makeNormal_laws setters2 packet2_header)
qed

theorem old_ack_drops_payload_witness:
  "case receiveFromClient2 demo_ops2 (demo_net2 (Some 0) None [] 0) demo_buffer
      (demo_session2\<lparr>sendBuffer := [1, 2, 3], sendNextOffset := 3\<rparr>) (demo_segment2 501 1000 [65, 66]) empty_world
   of (handled, s', p', w') \<Rightarrow> receiveBuffer s' = [] \<and> dp_ackno p' = 501"
  using old_ack_drops_payload [OF demo_laws2 demo_in_order2 [where b = "[1, 2, 3]" and n = 3 and ack = 1000 and bs = "[65, 66]"],
      where N = "demo_net2 (Some 0) None [] 0" and w = empty_world]
  by (simp add: demo_segment2_def demo_session2_def new_session2_def receiveNext_def demo_buffer_def split: prod.splits)

section \<open>Towards the server\<close>

lemma flushDataToServer2_sent:
  assumes "buffer_laws B c" and "state s = ESTABLISHED" and "\<not> flushToServerFinished s"
    and "try_send N (log w) (socket s) (c (receiveBuffer s)) = Some (int n)"
    and "n \<le> length (c (receiveBuffer s))" and "\<not> (receiveFromClientFinished s \<and> n = length (c (receiveBuffer s)))"
  obtains b w' where "flushDataToServer2 P N B s p w = (s\<lparr>receiveBuffer := b\<rparr>, p, w')"
    "c b = drop n (c (receiveBuffer s))" "log w' = log w @ [EvSend (socket s) (c (receiveBuffer s)) (int n)]"
proof -
  let ?all = "position B (receiveBuffer s)"
  define amt where "amt = (word_of_nat n :: u32)"
  have l: "unat ?all = length (c (receiveBuffer s))" "length (c (receiveBuffer s)) \<le> 65535"
    using buffer_size [OF assms(1)] by blast+
  have ua: "unat amt = n" using assms(5) l(2) by (simp add: amt_def unat_of_nat take_bit_nat_eq_self)
  have eq: "amt = ?all \<longleftrightarrow> n = length (c (receiveBuffer s))" using ua l(1) by (auto simp: word_unat_eq_iff)
  have "amt \<le> ?all" using ua l(1) assms(5) by (simp add: word_le_nat_alt)
  then have "unat (?all - amt) = length (c (receiveBuffer s)) - n" using ua l(1) by (simp add: unat_sub)
  then have k: "c (compact B (?all - amt) (receiveBuffer s)) = drop n (c (receiveBuffer s))"
    using buffer_compact [OF assms(1), of "?all - amt" "receiveBuffer s"] assms(5) by simp
  have "flushDataToServer2 P N B s p w =
      (s\<lparr>receiveBuffer := compact B (?all - amt) (receiveBuffer s)\<rparr>, p,
       (if amt = ?all then unsetFrom_send (socket s) else id)
         (emit (EvSend (socket s) (c (receiveBuffer s)) (int n)) w))"
    using assms(2-4,6) eq by (auto simp: flushDataToServer2_def flushed2_def Let_def buffer_all [OF assms(1)] amt_def)
  then show ?thesis using k by (rule that) auto
qed

text \<open>
  Flushing towards the server loses nothing: the bytes the socket takes and the bytes that stay in the buffer
  are together the bytes that were there, in order, and nothing else is sent.
\<close>

theorem flush_keeps_stream:
  assumes "buffer_laws B c" and "state s = ESTABLISHED" and "\<not> flushToServerFinished s"
    and "try_send N (log w) (socket s) (c (receiveBuffer s)) = Some (int n)"
    and "n \<le> length (c (receiveBuffer s))" and "\<not> (receiveFromClientFinished s \<and> n = length (c (receiveBuffer s)))"
  shows "case flushDataToServer2 P N B s p w of (s', p', w') \<Rightarrow>
    accepted (socket s) (log w') @ c (receiveBuffer s') = accepted (socket s) (log w) @ c (receiveBuffer s) \<and>
    written (log w') = written (log w) \<and> state s' = ESTABLISHED"
proof (rule flushDataToServer2_sent [OF assms])
  fix b w'
  assume r: "flushDataToServer2 P N B s p w = (s\<lparr>receiveBuffer := b\<rparr>, p, w')"
    and b: "c b = drop n (c (receiveBuffer s))" and w: "log w' = log w @ [EvSend (socket s) (c (receiveBuffer s)) (int n)]"
  show ?thesis using assms(2) by (simp add: r b w)
qed

text \<open>
  C15. A flush makes the session forget what it received: the number it expects is computed from the bytes
  still in its buffer, so after \<open>n\<close> bytes went to the server the next byte of the client, which is in
  order, is refused with an acknowledgement that is \<open>n\<close> too low. The connection stalls.
\<close>

theorem flush_stalls_client:
  assumes "buffer_laws B c" and "packet2_laws P" and "in_order2 P B s p" and "\<not> flushToServerFinished s"
    and "try_send N (log w) (socket s) (c (receiveBuffer s)) = Some (int n)"
    and "0 < n" and "n \<le> length (c (receiveBuffer s))" and "\<not> receiveFromClientFinished s"
  shows "case flushDataToServer2 P N B s q w of (s1, q1, w1) \<Rightarrow>
    case receiveFromClient2 P N B s1 p w1 of (handled, s', p', w') \<Rightarrow> handled \<and> s' = s1 \<and>
      written (log w') = written (log w1) @ [p'] \<and>
      getAcknowledgmentNumber P p' = receiveNext B s - word_of_nat n"
proof -
  have est: "state s = ESTABLISHED" using assms(3) by (simp add: in_order2_def)
  show ?thesis
  proof (rule flushDataToServer2_sent [OF assms(1) est assms(4,5,7), where P = P and p = q])
    fix b w1
    assume r: "flushDataToServer2 P N B s q w = (s\<lparr>receiveBuffer := b\<rparr>, q, w1)"
      and b: "c b = drop n (c (receiveBuffer s))"
    have l: "length (c (receiveBuffer s)) \<le> 65535" using buffer_size [OF assms(1)] by blast
    have pb: "position B b = position B (receiveBuffer s) - word_of_nat n"
    proof -
      have "unat (word_of_nat n :: u32) = n" using assms(7) l by (simp add: unat_of_nat take_bit_nat_eq_self)
      then have "unat (position B (receiveBuffer s) - word_of_nat n) = length (c (receiveBuffer s)) - n"
        using buffer_size(2) [OF assms(1), of "receiveBuffer s"] assms(7) by (simp add: unat_sub word_le_nat_alt)
      then show ?thesis using buffer_size(2) [OF assms(1), of b] b by (simp add: word_unat_eq_iff)
    qed
    have nz: "(word_of_nat n :: u32) \<noteq> 0"
      using assms(6,7) l by (simp add: word_unat_eq_iff unat_of_nat take_bit_nat_eq_self)
    have "position B (receiveBuffer s) \<noteq> position B (receiveBuffer s) - (word_of_nat n :: u32)"
      using nz by simp
    moreover have "getSource P p = clientAddress s \<and> getDestination P p = serverAddress s"
      using assms(3) by (auto simp: in_order2_def canHandle2_def)
    ultimately have "receiveFromClient2 P N B (s\<lparr>receiveBuffer := b\<rparr>) p w1 =
        (True, s\<lparr>receiveBuffer := b\<rparr>, sendAck2 P B (s\<lparr>receiveBuffer := b\<rparr>) p w1)"
      using assms(3,8) pb
      by (simp add: receiveFromClient2_def receiveEstablished2_def in_order2_def canHandle2_def receiveNext_def Let_def
          split: prod.splits)
    then show ?thesis using r assms(2) pb
      by (simp add: sendAck2_def Let_def receiveNext_def makeNormal_laws setters2 packet2_header)
  qed (use assms(8) in simp)
qed

definition demo_upload :: "byte list session2" where
  "demo_upload = demo_session2\<lparr>receiveBuffer := [65, 66, 67]\<rparr>"

theorem flush_keeps_stream_witness:
  "case flushDataToServer2 demo_ops2 (demo_net2 (Some 0) (Some 2) [] 0) demo_buffer demo_upload demo_packet empty_world
   of (s', p', w') \<Rightarrow> accepted 7 (log w') @ take 65535 (receiveBuffer s') = [65, 66, 67]"
  using flush_keeps_stream [OF demo_buffer_laws, of demo_upload "demo_net2 (Some 0) (Some 2) [] 0" empty_world 2
      demo_ops2 demo_packet]
  by (simp add: demo_upload_def demo_session2_def new_session2_def demo_net2_def empty_world_def split: prod.splits)

theorem flush_stalls_client_witness:
  "case flushDataToServer2 demo_ops2 (demo_net2 (Some 0) (Some 3) [] 0) demo_buffer demo_upload demo_packet empty_world
   of (s1, q1, w1) \<Rightarrow>
     case receiveFromClient2 demo_ops2 (demo_net2 (Some 0) (Some 3) [] 0) demo_buffer s1
       (demo_segment2 504 1001 [68]) w1 of (handled, s', p', w') \<Rightarrow> s' = s1 \<and> dp_ackno p' = 501"
proof -
  have "in_order2 demo_ops2 demo_buffer demo_upload (demo_segment2 504 1001 [68])"
    by (simp add: in_order2_def demo_upload_def demo_session2_def demo_segment2_def canHandle2_def receiveNext_def
        new_session2_def demo_buffer_def)
  from flush_stalls_client [OF demo_buffer_laws demo_laws2 this, of "demo_net2 (Some 0) (Some 3) [] 0" empty_world 3
      demo_packet]
  show ?thesis
    by (simp add: demo_upload_def demo_session2_def new_session2_def demo_net2_def receiveNext_def demo_buffer_def
        split: prod.splits)
qed

end
