(* ===== verification/SessionV2_Server.thy ===== *)
theory SessionV2_Server
  imports SessionV2_Laws
begin

text \<open>
  The server's half of the second session: the segments cut from the send buffer, the FIN, and the status check.
\<close>

section \<open>Segments without a FIN\<close>

text \<open>The packets follow each other: each starts at the number where the one before ended.\<close>

fun in_sequence :: "('p, 'x) packet_ops_scheme \<Rightarrow> u32 \<Rightarrow> 'p list \<Rightarrow> bool" where
  "in_sequence P q [] = True"
| "in_sequence P q (p # ps) = (getSequenceNumber P p = q \<and>
     in_sequence P (q + word_of_nat (length (payload P p))) ps)"

lemma nextSegment2_spec:
  assumes "packet2_laws P" and "buffer_laws B c" and "\<not> receiveFromServerFinished s"
    and "unat seg \<le> payloadCapacity P p" and "off \<le> bound" and "bound \<le> position B (sendBuffer s)"
    and n: "n = min (unat seg) (unat bound - unat off)"
  obtains p' where "nextSegment2 P B bound seg ack off s p = (off + word_of_nat n, s, p')"
    "payload P p' = take n (drop (unat off) (c (sendBuffer s)))" "length (payload P p') = n"
    "getSequenceNumber P p' = sendUnacknowledged s + off" "getAcknowledgmentNumber P p' = ack"
    "\<not> isFin P p'" "payloadCapacity P p' = payloadCapacity P p"
    "unat (off + word_of_nat n) = unat off + n" "off + word_of_nat n \<le> bound"
proof -
  let ?amt = "min (ucast seg) (bound - off) :: u32"
  have ub: "unat bound \<le> length (c (sendBuffer s))" "length (c (sendBuffer s)) \<le> 65535"
    using assms(6) buffer_size [OF assms(2), of "sendBuffer s"] by (simp_all add: word_le_nat_alt)
  have "unat (bound - off) = unat bound - unat off" using assms(5) by (simp add: unat_sub)
  then have un: "unat ?amt = n" by (simp add: n min_def word_le_nat_alt)
  then have amt: "?amt = word_of_nat n" by (simp only: un [symmetric] of_nat_unat ucast_id)
  have le: "unat off + n \<le> unat bound" using n assms(5) by (simp add: word_le_nat_alt)
  then have uo: "unat (off + word_of_nat n) = unat off + n"
    using ub by (intro unat_add_small) simp
  then have ob: "off + word_of_nat n \<le> bound" "off \<le> off + word_of_nat n" using le by (simp_all add: word_le_nat_alt)
  let ?bs = "as_bytes B off (off + word_of_nat n) (sendBuffer s)"
  have "?bs = drop (unat off) (take (unat off + n) (c (sendBuffer s)))"
    using buffer_bytes [OF assms(2) ob(2), of "sendBuffer s"] uo le ub(1) by simp
  then have bs: "?bs = take n (drop (unat off) (c (sendBuffer s)))" by (simp add: drop_take)
  then have lb: "length ?bs = n" using le ub(1) by simp
  let ?p = "setTCPPayload P ?bs (makeNormal P (sendUnacknowledged s + off) ack p)"
  have cap: "length ?bs \<le> payloadCapacity P (makeNormal P (sendUnacknowledged s + off) ack p)"
    using lb n assms(4) packet2_header [OF assms(1)] by (simp add: makeNormal_laws)
  show ?thesis
  proof (rule that)
    show "nextSegment2 P B bound seg ack off s p = (off + word_of_nat n, s, ?p)"
      using assms(3) by (simp add: nextSegment2_def Let_def amt)
    show "payload P ?p = take n (drop (unat off) (c (sendBuffer s)))" "length (payload P ?p) = n"
      using setters2(15) [OF assms(1) cap] bs lb by simp_all
    show "getSequenceNumber P ?p = sendUnacknowledged s + off" "getAcknowledgmentNumber P ?p = ack" "\<not> isFin P ?p"
      "payloadCapacity P ?p = payloadCapacity P p"
      using assms(1) packet2_header [OF assms(1)] by (simp_all add: setters2 makeNormal_laws)
    show "unat (off + word_of_nat n) = unat off + n" "off + word_of_nat n \<le> bound" by (fact uo, fact ob)
  qed
qed

text \<open>When the loop goes on, and how the bytes of a segment and of those behind it fit together.\<close>

lemma moreSegments2_open:
  assumes "\<not> receiveFromServerFinished s" and "unat off \<le> 65535"
  shows "moreSegments2 bound seg push off s \<longleftrightarrow>
    (if push then unat off < unat bound else unat off + unat seg < unat bound)"
proof -
  have "unat (off + ucast seg) = unat off + unat seg"
    using assms(2) u16_less [of seg] by (subst unat_add_small') simp_all
  then show ?thesis using assms(1) by (simp add: moreSegments2_def word_less_nat_alt)
qed

lemma pieces_join:
  "a + n \<le> b \<Longrightarrow> take n (drop a xs) @ take (b - (a + n)) (drop (a + n) xs) = take (b - a) (drop a xs)"
  using take_add [of n "b - (a + n)" "drop a xs"] by (simp add: add.commute)

lemma loop_over:
  assumes "\<not> moreSegments2 bound seg push off s" and "\<not> receiveFromServerFinished s"
    and "off \<le> bound" and "unat bound \<le> 65535"
  shows "sendLoop2 P B bound seg push ack off s p w = Some (off, s, p, w)"
    "if push then off = bound else unat bound - unat off \<le> unat seg"
  using assms moreSegments2_open [OF assms(2), of off bound seg push]
  by (auto simp: sendLoop2.simps word_le_nat_alt word_unat_eq_iff)

text \<open>
  C13. While the server has not finished, the send loop ends, and the segments it writes carry exactly the bytes from the
  starting offset on, each at most one MSS long and numbered where the one before ended. With \<open>push\<close> they
  reach the bound; without it at most one more segment is left.
\<close>

theorem segments_sent:
  assumes "packet2_laws P" and "buffer_laws B c" and "\<not> receiveFromServerFinished s" and "0 < seg"
    and "unat seg \<le> payloadCapacity P p" and "off \<le> bound" and "bound \<le> position B (sendBuffer s)"
  shows "\<exists>off' p' w' ps. sendLoop2 P B bound seg push ack off s p w = Some (off', s, p', w') \<and>
    written (log w') = written (log w) @ ps \<and>
    concat (map (payload P) ps) = take (unat off' - unat off) (drop (unat off) (c (sendBuffer s))) \<and>
    in_sequence P (sendUnacknowledged s + off) ps \<and>
    list_all (\<lambda>q. length (payload P q) \<le> unat seg \<and> getAcknowledgmentNumber P q = ack) ps \<and>
    off \<le> off' \<and> off' \<le> bound \<and> (if push then off' = bound else unat bound - unat off' \<le> unat seg)"
  using assms(5,6)
proof (induction "unat bound - unat off" arbitrary: off p w rule: less_induct)
  case less
  have ub: "unat bound \<le> 65535"
    using assms(7) buffer_size [OF assms(2), of "sendBuffer s"] by (simp add: word_le_nat_alt)
  have us: "0 < unat seg" using assms(4) unat_gt_0 by (simp add: word_less_nat_alt)
  have ol: "unat off \<le> unat bound" using less.prems(2) by (simp add: word_le_nat_alt)
  have cond: "moreSegments2 bound seg push off s \<longleftrightarrow>
      (if push then unat off < unat bound else unat off + unat seg < unat bound)"
    using moreSegments2_open [OF assms(3)] ol ub by simp
  show ?case
  proof (cases "moreSegments2 bound seg push off s")
    case False
    then show ?thesis using less.prems(2) loop_over [OF False assms(3) less.prems(2) ub]
      by (intro exI [of _ off] exI [of _ p] exI [of _ w] exI [of _ "[]"] conjI) (simp_all split del: if_split)
  next
    case True
    define n where "n = min (unat seg) (unat bound - unat off)"
    have n0: "0 < n" using True cond us by (auto simp: n_def split: if_splits)
    obtain p1 where 1: "nextSegment2 P B bound seg ack off s p = (off + word_of_nat n, s, p1)"
      and p1: "payload P p1 = take n (drop (unat off) (c (sendBuffer s)))" "length (payload P p1) = n"
        "getSequenceNumber P p1 = sendUnacknowledged s + off" "getAcknowledgmentNumber P p1 = ack"
        "payloadCapacity P p1 = payloadCapacity P p"
      and o: "unat (off + word_of_nat n) = unat off + n" "off + word_of_nat n \<le> bound"
      by (rule nextSegment2_spec [OF assms(1-3) less.prems assms(7) n_def])
    have "unat off + n \<le> unat bound" using ol by (simp add: n_def)
    then have dec: "unat bound - unat (off + word_of_nat n) < unat bound - unat off" using n0 o(1) by simp
    have cap: "unat seg \<le> payloadCapacity P p1" using less.prems(1) p1(5) by simp
    obtain off' p' w' ps where ih: "sendLoop2 P B bound seg push ack (off + word_of_nat n) s p1 (writePacket p1 w) =
          Some (off', s, p', w')" "written (log w') = written (log (writePacket p1 w)) @ ps"
        "concat (map (payload P) ps) = take (unat off' - (unat off + n)) (drop (unat off + n) (c (sendBuffer s)))"
        "in_sequence P (sendUnacknowledged s + (off + word_of_nat n)) ps"
        "list_all (\<lambda>q. length (payload P q) \<le> unat seg \<and> getAcknowledgmentNumber P q = ack) ps"
        "off + word_of_nat n \<le> off'" "off' \<le> bound" "if push then off' = bound else unat bound - unat off' \<le> unat seg"
      using less.hyps [OF dec cap o(2), of "writePacket p1 w"] unfolding o(1) by blast
    have oo: "unat off + n \<le> unat off'" using ih(6) o(1) by (simp add: word_le_nat_alt)
    have ct: "concat (map (payload P) (p1 # ps)) = take (unat off' - unat off) (drop (unat off) (c (sendBuffer s)))"
      using ih(3) p1(1) pieces_join [OF oo] by simp
    have "off \<le> off'" using oo by (simp add: word_le_nat_alt)
    moreover have "sendLoop2 P B bound seg push ack off s p w = Some (off', s, p', w')"
      using True ih(1) by (subst sendLoop2.simps) (simp add: 1)
    moreover have "list_all (\<lambda>q. length (payload P q) \<le> unat seg \<and> getAcknowledgmentNumber P q = ack) (p1 # ps)"
      using ih(5) p1 by (simp add: n_def)
    moreover have "in_sequence P (sendUnacknowledged s + off) (p1 # ps)"
      using ih(4) p1 by (simp add: add.assoc)
    ultimately show ?thesis using ih(2,7,8) ct
      by (intro exI [of _ off'] exI [of _ p'] exI [of _ w'] exI [of _ "p1 # ps"]) simp
  qed
qed

theorem segments_sent_witness:
  "\<exists>off' p' w' ps. sendLoop2 demo_ops2 demo_buffer 3 2 True 501 0 (demo_session2\<lparr>sendBuffer := [1, 2, 3]\<rparr>) demo_packet
     empty_world = Some (off', demo_session2\<lparr>sendBuffer := [1, 2, 3]\<rparr>, p', w') \<and> written (log w') = ps \<and>
     concat (map (payload demo_ops2) ps) = [1, 2, 3]"
proof -
  have b: "(3 :: u32) \<le> position demo_buffer (sendBuffer (demo_session2\<lparr>sendBuffer := [1, 2, 3]\<rparr>))"
    by (simp add: demo_buffer_def)
  have f: "\<not> receiveFromServerFinished (demo_session2\<lparr>sendBuffer := [1, 2, 3]\<rparr>)"
    by (simp add: demo_session2_def new_session2_def)
  from segments_sent [OF demo_laws2 demo_buffer_laws f, where seg = 2 and p = demo_packet and off = 0 and bound = 3
      and push = True and ack = 501 and w = empty_world] b
  show ?thesis by (fastforce simp: empty_world_def)
qed

section \<open>The FIN\<close>

lemma nextSegment2_stays:
  assumes "off \<le> bound" and "nextSegment2 P B bound seg ack off s p = (off', s', p')"
  shows "off' \<le> bound \<and> receiveFromServerFinished s' = receiveFromServerFinished s"
proof -
  let ?amt = "min (ucast seg) (bound - off)"
  have "unat ?amt \<le> unat bound - unat off"
    using assms(1) by (simp add: min_def unat_sub word_le_nat_alt)
  moreover have "unat off \<le> unat bound" using assms(1) by (simp add: word_le_nat_alt)
  ultimately have "unat off + unat ?amt \<le> unat bound" by linarith
  then have "off + ?amt \<le> bound"
    using u32_less [of bound] by (simp add: word_le_nat_alt unat_add_small')
  then show ?thesis using assms(2) by (auto simp: nextSegment2_def Let_def split: if_splits)
qed

lemma finished_loop_diverges:
  fixes P :: "('a, 'c) packet_ops2_scheme" and B :: "'b buffer_ops"
  assumes "receiveFromServerFinished s" and "off \<le> bound" and "bound < - 1"
  shows "sendLoop2 P B bound seg True ack off s p w = None"
proof -
  have more: "moreSegments2 bound g True o' t" if "receiveFromServerFinished t" "o' \<le> bound" for t :: "'b session2" and o' g
  proof -
    have "unat bound < 2 ^ 32 - 1"
      using assms(3) by (simp add: word_less_nat_alt unsigned_minus_1_eq_mask mask_eq_exp_minus_1)
    then have "unat (bound + 1) = unat bound + 1" by (simp add: unat_word_ariths)
    then show ?thesis using that by (simp add: moreSegments2_def word_less_nat_alt word_le_nat_alt)
  qed
  have never: False if ret: "sendLoop2 P B bound seg True ack off s p w = Some r" for r
  proof -
    let ?Q = "\<lambda>(((((((((P' :: ('a, 'c) packet_ops2_scheme, B' :: 'b buffer_ops), bd :: u32), g :: u16), psh), ak :: u32),
        o' :: u32), t :: 'b session2), q :: 'a), v :: 'a world).
      \<lambda>r :: u32 \<times> ('a, 'b) conf2. \<not> (psh \<and> bd = bound \<and> receiveFromServerFinished t \<and> o' \<le> bound)"
    have "?Q (((((((((P, B), bound), seg), True), ack), off), s), p), w) r"
    proof (rule sendLoop2.raw_induct [where Pa = ?Q, OF _ ret])
      fix f :: "('a, 'c) packet_ops2_scheme \<Rightarrow> 'b buffer_ops \<Rightarrow> u32 \<Rightarrow> u16 \<Rightarrow> bool \<Rightarrow> u32 \<Rightarrow> u32 \<Rightarrow> 'b session2 \<Rightarrow> 'a \<Rightarrow>
          'a world \<Rightarrow> (u32 \<times> ('a, 'b) conf2) option"
        and P' B' bd g psh ak o' t q v r
      assume IH: "\<And>P' B' bd g psh ak o' t q v r. f P' B' bd g psh ak o' t q v = Some r \<Longrightarrow>
          ?Q (((((((((P', B'), bd), g), psh), ak), o'), t), q), v) r"
        and eq: "(if moreSegments2 bd g psh o' t
          then case nextSegment2 P' B' bd g ak o' t q of (a, b, c) \<Rightarrow> f P' B' bd g psh ak a b c (writePacket c v)
          else Some (o', t, q, v)) = Some r"
      have "\<not> (psh \<and> bd = bound \<and> receiveFromServerFinished t \<and> o' \<le> bound)"
      proof
        assume h: "psh \<and> bd = bound \<and> receiveFromServerFinished t \<and> o' \<le> bound"
        obtain a b c where n: "nextSegment2 P' B' bound g ak o' t q = (a, b, c)" by (metis prod_cases3)
        have "f P' B' bound g True ak a b c (writePacket c v) = Some r"
          using eq h more n by simp
        from IH [OF this] show False using nextSegment2_stays [OF _ n] h by simp
      qed
      then show "?Q (((((((((P', B'), bd), g), psh), ak), o'), t), q), v) r" by simp
    qed
    then show False using assms(1,2) by simp
  qed
  then show ?thesis by (meson not_None_eq)
qed

text \<open>
  C14. Once the server has closed its side, flushing towards the client does not return: the loop goes on while the offset is
  below the end plus one, but a segment that only carries the FIN does not advance it. It happens as soon as
  something is unacknowledged, or the client was silent for a fifth of the round trip time; the
  thread that serves all sessions of the client hangs there, writing FIN segments.
\<close>

theorem server_close_hangs:
  assumes "buffer_laws B c" and "state s = ESTABLISHED" and "receiveFromServerFinished s"
    and "\<not> flushToClientFinished s"
    and "sendNextOffset s \<noteq> 0 \<or> clock N (log w) - lastTimeAcceptedAcknowledgement s > ms (getMeanRTT s sdiv 5)"
  shows "flushDataToClient2 P N B s p w = None"
proof -
  let ?bound = "min (sendWindowRightEdge s) (position B (sendBuffer s))"
  have "unat (position B (sendBuffer s)) \<le> 65535" using buffer_size [OF assms(1), of "sendBuffer s"] by simp
  then have "unat ?bound \<le> 65535" by (simp add: min_def word_le_nat_alt)
  then have "?bound < - 1"
    by (simp add: word_less_nat_alt unsigned_minus_1_eq_mask mask_eq_exp_minus_1)
  then have "sendDataStartingFrom2 P B ?bound (clock N (log w)) 0 True s p (emit EvNow w) = None"
    using finished_loop_diverges [OF assms(3), of 0 ?bound P B "mss s"]
    by (simp add: sendDataStartingFrom2_def Let_def)
  then show ?thesis using assms(2-5) by (simp add: flushDataToClient2_def firstFlush2_def Let_def)
qed

theorem server_close_hangs_witness:
  "flushDataToClient2 demo_ops2 (demo_net2 (Some 0) None [] 0) demo_buffer
     (demo_session2\<lparr>sendBuffer := [1, 2, 3], sendNextOffset := 3, receiveFromServerFinished := True\<rparr>)
     demo_packet empty_world = None"
  using server_close_hangs [OF demo_buffer_laws,
      of "demo_session2\<lparr>sendBuffer := [1, 2, 3], sendNextOffset := 3, receiveFromServerFinished := True\<rparr>"
         "demo_net2 (Some 0) None [] 0" empty_world demo_ops2 demo_packet]
  by (simp add: demo_session2_def new_session2_def)

section \<open>Time\<close>

text \<open>
  A half-open session that has never seen an acknowledgement is closed by the first status check: its \<open>case\<close>
  runs into the test for silent connections, which measures from the start of the clock. The 30 seconds
  the handshake is meant to have are never waited for.
\<close>

theorem half_open_closed_at_once:
  assumes "state s = SYN_ACK_SENT" and "lastTimeAcceptedAcknowledgement s = 0" and "\<not> flushToClientFinished s"
    and "clock N (log (emit EvNow w)) > ms (getIntervalToNextProbe s + getMeanRTT s * 2)"
  shows "case checkStatus2 N s w of (alive, s', w') \<Rightarrow> \<not> alive \<and> state s' = CLOSED \<and> EvClose (socket s) \<in> set (log w')"
  using assms by (simp add: checkStatus2_def checkProbing2_def Let_def closeSession2_def)

theorem half_open_closed_at_once_witness:
  "fst (checkStatus2 (demo_net2 (Some 0) None [] (10 ^ 9)) (demo_session2\<lparr>state := SYN_ACK_SENT,
     lastTimeSentNewData := 10 ^ 9\<rparr>) (empty_world :: demo_packet world)) = False"
proof -
  let ?s = "demo_session2\<lparr>state := SYN_ACK_SENT, lastTimeSentNewData := 10 ^ 9\<rparr>"
  have m: "getMeanRTT ?s = 250"
    by (simp add: getMeanRTT_def demo_session2_def new_session2_def MIN_RTT_def sum_list_replicate signed_divide_int_def)
  from half_open_closed_at_once [of ?s "demo_net2 (Some 0) None [] (10 ^ 9)" "empty_world :: demo_packet world"]
  show ?thesis
    using m by (simp add: demo_session2_def new_session2_def demo_net2_def ms_def getIntervalToNextProbe_def split: prod.splits)
qed

end
