(* ===== verification/SessionV2_Run.thy ===== *)
theory SessionV2_Run
  imports SessionV2_Client SessionV2_Server
begin

text \<open>
  The invariant of the second session, kept by every call and so by every sequence of calls.
\<close>

section \<open>The invariant\<close>

text \<open>What the session relies on from a socket: it never receives more than it was asked for.\<close>

definition net2_laws :: "'p net2 \<Rightarrow> bool" where
  "net2_laws N = (\<forall>es f k n bs. try_receive N es f k = Some (n, bs) \<longrightarrow> length bs \<le> unat k)"

text \<open>
  What is sent and not acknowledged lies in the send buffer; there are always five round trip times, none
  below the minimum; the FIN is sent only when the server has finished, and acknowledged only when sent.
\<close>

definition session2_inv :: "('b \<Rightarrow> byte list) \<Rightarrow> 'b session2 \<Rightarrow> bool" where
  "session2_inv c s = (unat (sendNextOffset s) \<le> length (c (sendBuffer s)) \<and>
     length (rttHistory s) = 5 \<and> list_all (\<lambda>r. MIN_RTT \<le> r) (rttHistory s) \<and>
     (sentFinToClient s \<longrightarrow> receiveFromServerFinished s) \<and> (flushToClientFinished s \<longrightarrow> sentFinToClient s))"

lemma session2_inv_close [simp]: "session2_inv c (fst (closeSession2 s w)) = session2_inv c s"
  by (simp add: closeSession2_def session2_inv_def Let_def)

lemma session2_inv_reset [simp]: "session2_inv c (fst (resetClient2 P s p w)) = session2_inv c s"
  by (simp add: resetClient2_def Let_def case_prod_unfold)

lemma session2_inv_irrelevant [simp]:
  "session2_inv c (s\<lparr>state := x1\<rparr>) = session2_inv c s"
  "session2_inv c (s\<lparr>socket := x2\<rparr>) = session2_inv c s"
  "session2_inv c (s\<lparr>receiveFromClientFinished := x3\<rparr>) = session2_inv c s"
  "session2_inv c (s\<lparr>flushToServerFinished := x3\<rparr>) = session2_inv c s"
  "session2_inv c (s\<lparr>receiveBuffer := x4\<rparr>) = session2_inv c s"
  "session2_inv c (s\<lparr>sendUnacknowledged := x5\<rparr>) = session2_inv c s"
  "session2_inv c (s\<lparr>sendWindowRightEdge := x5\<rparr>) = session2_inv c s"
  "session2_inv c (s\<lparr>receiveSent := x5\<rparr>) = session2_inv c s"
  "session2_inv c (s\<lparr>sendRetryCount := x5\<rparr>) = session2_inv c s"
  "session2_inv c (s\<lparr>rttTrackedSendSequence := x5\<rparr>) = session2_inv c s"
  "session2_inv c (s\<lparr>rttTracking := x3\<rparr>) = session2_inv c s"
  "session2_inv c (s\<lparr>rttSendTime := x6\<rparr>) = session2_inv c s"
  "session2_inv c (s\<lparr>lastTimeSentNewData := x6\<rparr>) = session2_inv c s"
  "session2_inv c (s\<lparr>lastTimeAcceptedAcknowledgement := x6\<rparr>) = session2_inv c s"
  "session2_inv c (s\<lparr>sendWindowShift := x7\<rparr>) = session2_inv c s"
  "session2_inv c (s\<lparr>clientAddress := x8\<rparr>) = session2_inv c s"
  "session2_inv c (s\<lparr>serverAddress := x8\<rparr>) = session2_inv c s"
  by (simp_all add: session2_inv_def)

lemma session2_inv_serverFinished: "session2_inv c s \<Longrightarrow> session2_inv c (s\<lparr>receiveFromServerFinished := True\<rparr>)"
  by (simp add: session2_inv_def)

lemma session2_inv_pushRTT: "session2_inv c s \<Longrightarrow> session2_inv c (pushRTT r s)"
  by (cases "rttHistory s") (auto simp: session2_inv_def pushRTT_def list_all_iff)

lemma session2_inv_trackRTT: "session2_inv c s \<Longrightarrow> session2_inv c (trackRTT2 now s)"
  by (simp add: trackRTT2_def session2_inv_pushRTT)

lemma session2_inv_establish:
  assumes "buffer_laws B c" and "session2_inv c s"
  shows "session2_inv c (fst (establish2 P N B s f p w))"
  using assms buffer_size(4) [OF assms(1)]
  by (simp add: establish2_def Let_def reset2_def session2_inv_def list_all_iff MIN_RTT_def)

lemma receiveSyn2_inv:
  assumes "buffer_laws B c" and "session2_inv c s"
  shows "session2_inv c (fst (receiveSyn2 P N B s p w))"
  using assms(2)
  by (simp add: receiveSyn2_def Let_def case_prod_unfold session2_inv_establish [OF assms] split: states2.splits option.splits)

lemma receiveReset2_inv: "session2_inv c s \<Longrightarrow> session2_inv c (fst (receiveReset2 P B s p w))"
  by (simp add: receiveReset2_def Let_def case_prod_unfold)

lemma receiveHandshakeAck2_inv: "session2_inv c s \<Longrightarrow> session2_inv c (fst (receiveHandshakeAck2 P N s p w))"
  by (simp add: receiveHandshakeAck2_def Let_def case_prod_unfold session2_inv_pushRTT)

lemma takePayload2_inv: "session2_inv c s \<Longrightarrow> session2_inv c (fst (takePayload2 P N B s p w))"
  by (simp add: takePayload2_def Let_def case_prod_unfold)

lemma acknowledged2_inv:
  assumes "buffer_laws B c" and "session2_inv c s" and "0 \<le> amt" and "amt \<le> uint (sendNextOffset s)"
  shows "session2_inv c (fst (acknowledged2 B amt s w))"
proof (cases "0 < amt")
  case False
  then show ?thesis using assms(2) by (simp add: acknowledged2_def)
next
  case True
  define d where "d = (word_of_int amt :: u32)"
  have ud: "uint d = amt"
    using assms(3,4) unsigned_less [of "sendNextOffset s", where 'a = int]
    by (simp add: d_def uint_word_of_int_eq take_bit_int_eq_self)
  then have "d \<le> sendNextOffset s" using assms(4) by (simp add: word_le_def)
  then have le: "unat d \<le> unat (sendNextOffset s)" by (simp add: word_le_nat_alt)
  have ol: "unat (sendNextOffset s) \<le> length (c (sendBuffer s))" using assms(2) by (simp add: session2_inv_def)
  have "position B (sendBuffer s) \<ge> d"
    using le ol buffer_size(2) [OF assms(1), of "sendBuffer s"] by (simp add: word_le_nat_alt)
  then have up: "unat (position B (sendBuffer s) - d) = length (c (sendBuffer s)) - unat d"
    using buffer_size(2) [OF assms(1), of "sendBuffer s"] by (simp add: unat_sub)
  then have "length (c (compact B (position B (sendBuffer s) - d) (sendBuffer s))) = length (c (sendBuffer s)) - unat d"
    using buffer_compact [OF assms(1), of "position B (sendBuffer s) - d" "sendBuffer s"] le ol by simp
  moreover have "unat (sendNextOffset s - d) = unat (sendNextOffset s) - unat d"
    using le by (simp add: unat_sub word_le_nat_alt)
  ultimately show ?thesis
    using True assms(2) ol by (simp add: acknowledged2_def d_def [symmetric] session2_inv_def)
qed

lemma acknowledged2_fields:
  "receiveBuffer (fst (acknowledged2 B amt s w)) = receiveBuffer s"
  by (simp add: acknowledged2_def)

lemma receiveEstablished2_inv:
  fixes P :: "('a, 'x) packet_ops2_scheme"
  assumes "buffer_laws B c" and inv: "session2_inv c s"
  shows "session2_inv c (fst (receiveEstablished2 P N B s p w))"
proof -
  let ?d = "getAcknowledgmentNumber P p - sendUnacknowledged s"
  show ?thesis
  proof (cases "?d > sendNextOffset s + of_bool (sentFinToClient s)")
    case True
    then show ?thesis using inv by (simp add: receiveEstablished2_def Let_def case_prod_unfold)
  next
    case False
    have ol: "unat (sendNextOffset s) \<le> 65535"
      using inv buffer_size(1) [OF assms(1), of "sendBuffer s"] by (simp add: session2_inv_def)
    have "unat ?d \<le> unat (sendNextOffset s) + (if sentFinToClient s then 1 else 0)"
      using False ol by (simp add: word_less_nat_alt unat_word_ariths of_bool_def split: if_splits)
    then have "unat ?d < 2 ^ 31" using ol by (simp split: if_splits)
    then have sd: "sint ?d = uint ?d" by (rule sint_small)
    define s1 where "s1 = s\<lparr>lastTimeAcceptedAcknowledgement := clock N (log w),
      sendWindowRightEdge := push_bit (unat (sendWindowShift s)) (ucast (getWindowSize P p))\<rparr>"
    have inv1: "session2_inv c s1" using inv by (simp add: s1_def)
    have same: "sendNextOffset s1 = sendNextOffset s" "flushToServerFinished s1 = flushToServerFinished s"
      by (simp_all add: s1_def)
    have t: "session2_inv c (fst (takePayload2 P N B (trackRTT2 now t) p v))"
      if "session2_inv c t" for t and v :: "'a world" and now
      using takePayload2_inv [OF session2_inv_trackRTT [OF that]] .
    show ?thesis
    proof (cases "?d > sendNextOffset s")
      case True
      then have fin: "sentFinToClient s" using False by (auto simp: of_bool_def split: if_splits)
      then have "?d \<le> sendNextOffset s + 1" using False by (simp add: not_less)
      then have "?d = sendNextOffset s + 1" using inc_le [OF True] by (rule order_antisym)
      moreover have "unat (sendNextOffset s + 1) = unat (sendNextOffset s) + 1" using ol by (simp add: unat_word_ariths)
      ultimately have ud: "uint ?d = uint (sendNextOffset s) + 1" by (simp only: uint_nat of_nat_add of_nat_1)
      have f: "session2_inv c (s1\<lparr>flushToClientFinished := True\<rparr>)" using inv1 fin by (simp add: session2_inv_def s1_def)
      have a: "session2_inv c (fst (acknowledged2 B (uint ?d - 1) (s1\<lparr>flushToClientFinished := True\<rparr>) v))" for v :: "'a world"
        by (rule acknowledged2_inv [OF assms(1) f]) (simp_all add: ud s1_def)
      show ?thesis
        using inv inv1 True
        by (simp add: receiveEstablished2_def Let_def case_prod_unfold sd s1_def [symmetric] t [OF a] same)
    next
      case no: False
      have le: "uint ?d \<le> uint (sendNextOffset s1)" using no by (simp add: word_less_def s1_def)
      have a: "session2_inv c (fst (acknowledged2 B (uint ?d) s1 v))" for v :: "'a world"
        by (rule acknowledged2_inv [OF assms(1) inv1 _ le]) simp
      show ?thesis
        using inv inv1 no
        by (simp add: receiveEstablished2_def Let_def case_prod_unfold sd s1_def [symmetric] t [OF a] same)
    qed
  qed
qed

lemma receiveFromClient2_inv:
  assumes "buffer_laws B c" and "session2_inv c s"
  shows "session2_inv c (fst (snd (receiveFromClient2 P N B s p w)))"
  using assms(2)
  by (simp add: receiveFromClient2_def case_prod_unfold Let_def receiveSyn2_inv [OF assms] receiveReset2_inv
      receiveHandshakeAck2_inv receiveEstablished2_inv [OF assms] split: states2.splits)

lemma flushDataToServer2_inv:
  assumes "session2_inv c s"
  shows "session2_inv c (fst (flushDataToServer2 P N B s p w))"
  using assms
  by (simp add: flushDataToServer2_def connectionReady2_def flushed2_def Let_def case_prod_unfold split: option.splits)

section \<open>The loop towards the client\<close>

lemma sendLoop2_induct:
  fixes P :: "('a, 'c) packet_ops2_scheme" and B :: "'b buffer_ops"
  assumes ret: "sendLoop2 P B bound seg push ack off s p w = Some (off', s', p', w')" and start: "I off s"
    and step: "\<And>j t q j' t' q'. I j t \<Longrightarrow> moreSegments2 bound seg push j t \<Longrightarrow>
      nextSegment2 P B bound seg ack j t q = (j', t', q') \<Longrightarrow> I j' t'"
  shows "I off' s'"
proof -
  let ?Q = "\<lambda>(((((((((P' :: ('a, 'c) packet_ops2_scheme, B' :: 'b buffer_ops), bd :: u32), g :: u16), psh), ak :: u32),
      j' :: u32), t :: 'b session2), q :: 'a), v :: 'a world). \<lambda>r :: u32 \<times> ('a, 'b) conf2.
      P' = P \<and> B' = B \<and> bd = bound \<and> g = seg \<and> psh = push \<and> ak = ack \<and> I j' t \<longrightarrow> I (fst r) (fst (snd r))"
  have "?Q (((((((((P, B), bound), seg), push), ack), off), s), p), w) (off', s', p', w')"
  proof (rule sendLoop2.raw_induct [where Pa = ?Q, OF _ ret])
    fix f :: "('a, 'c) packet_ops2_scheme \<Rightarrow> 'b buffer_ops \<Rightarrow> u32 \<Rightarrow> u16 \<Rightarrow> bool \<Rightarrow> u32 \<Rightarrow> u32 \<Rightarrow> 'b session2 \<Rightarrow> 'a \<Rightarrow>
        'a world \<Rightarrow> (u32 \<times> ('a, 'b) conf2) option"
      and P' B' bd g psh ak j' t q v r
    assume IH: "\<And>P' B' bd g psh ak j' t q v r. f P' B' bd g psh ak j' t q v = Some r \<Longrightarrow>
        ?Q (((((((((P', B'), bd), g), psh), ak), j'), t), q), v) r"
      and eq: "(if moreSegments2 bd g psh j' t
        then case nextSegment2 P' B' bd g ak j' t q of (a, b, c) \<Rightarrow> f P' B' bd g psh ak a b c (writePacket c v)
        else Some (j', t, q, v)) = Some r"
    have "P' = P \<and> B' = B \<and> bd = bound \<and> g = seg \<and> psh = push \<and> ak = ack \<and> I j' t \<longrightarrow> I (fst r) (fst (snd r))"
    proof
      assume h: "P' = P \<and> B' = B \<and> bd = bound \<and> g = seg \<and> psh = push \<and> ak = ack \<and> I j' t"
      obtain a b c where n: "nextSegment2 P B bound seg ack j' t q = (a, b, c)" by (metis prod_cases3)
      show "I (fst r) (fst (snd r))"
      proof (cases "moreSegments2 bound seg push j' t")
        case True
        then have "f P B bound seg push ack a b c (writePacket c v) = Some r" using eq h n by simp
        from IH [OF this] show ?thesis using step [OF _ True n] h by simp
      next
        case False
        then show ?thesis using eq h by auto
      qed
    qed
    then show "?Q (((((((((P', B'), bd), g), psh), ak), j'), t), q), v) r" by simp
  qed
  then show ?thesis using start by simp
qed

text \<open>The loop changes nothing of the session but the mark of the FIN, and it does not pass the bytes it has.\<close>

lemma sendLoop2_shape:
  assumes ret: "sendLoop2 P B bound seg push ack off s p w = Some (off', s', p', w')"
    and "unat off \<le> n" and "unat bound \<le> n" and "n \<le> 65535"
  shows "unat off' \<le> n \<and> (s' = s \<or> receiveFromServerFinished s \<and> s' = s\<lparr>sentFinToClient := True\<rparr>)"
proof -
  let ?I = "\<lambda>j t. unat j \<le> n \<and> (t = s \<or> receiveFromServerFinished s \<and> t = s\<lparr>sentFinToClient := True\<rparr>)"
  show ?thesis
  proof (rule sendLoop2_induct [where I = ?I, OF ret])
    show "?I off s" using assms by simp
    fix j' t q a b c
    assume h: "?I j' t" and m: "moreSegments2 bound seg push j' t" and x: "nextSegment2 P B bound seg ack j' t q = (a, b, c)"
    have jj: "unat (j' + ucast seg) = unat j' + unat seg"
      using h assms(4) u16_less [of seg] by (subst unat_add_small') simp_all
    have "unat (bound + of_bool (receiveFromServerFinished t)) \<le> unat bound + 1"
      using assms(3,4) by (simp add: unat_word_ariths of_bool_def)
    then have "unat j' \<le> unat bound"
      using m jj by (auto simp: moreSegments2_def word_less_nat_alt split: if_splits)
    then have "a \<le> bound" using nextSegment2_stays [OF _ x] by (simp add: word_le_nat_alt)
    then have "unat a \<le> n" using assms(3) by (simp add: word_le_nat_alt)
    moreover have "b = s \<or> receiveFromServerFinished s \<and> b = s\<lparr>sentFinToClient := True\<rparr>"
      using x h by (auto simp: nextSegment2_def Let_def split: if_splits)
    ultimately show "?I a b" by simp
  qed
qed

lemma sendDataStartingFrom2_inv:
  assumes "buffer_laws B c" and inv: "session2_inv c s" and "unat off \<le> length (c (sendBuffer s))"
    and "unat bound \<le> length (c (sendBuffer s))"
    and ret: "sendDataStartingFrom2 P B bound now off push s p w = Some (s', p', w')"
  shows "session2_inv c s' \<and> sendBuffer s' = sendBuffer s"
proof -
  obtain off' t q v p0 ack where l: "sendLoop2 P B bound (mss s) push ack off s p0 w = Some (off', t, q, v)"
    and s': "s' = (if max (sendNextOffset t) off' \<noteq> sendNextOffset t
      then t\<lparr>sendNextOffset := max (sendNextOffset t) off', lastTimeSentNewData := now, sendRetryCount := 0\<rparr> else t)"
    using ret by (auto simp: sendDataStartingFrom2_def Let_def split: option.splits prod.splits)
  have sh: "unat off' \<le> length (c (sendBuffer s)) \<and> (t = s \<or> receiveFromServerFinished s \<and> t = s\<lparr>sentFinToClient := True\<rparr>)"
    by (rule sendLoop2_shape [OF l assms(3,4)]) (rule buffer_size(1) [OF assms(1)])
  then have "session2_inv c t" "sendBuffer t = sendBuffer s" using inv by (auto simp: session2_inv_def)
  then show ?thesis using sh by (auto simp: s' session2_inv_def max_def)
qed

lemma probe2_inv: "session2_inv c s \<Longrightarrow> session2_inv c (fst (probe2 P B now s p w))"
  by (simp add: probe2_def Let_def)

lemma flushDataToClient2_inv:
  assumes "buffer_laws B c" and inv: "session2_inv c s" and ret: "flushDataToClient2 P N B s p w = Some (s', p', w')"
  shows "session2_inv c s'"
proof (cases "state s \<noteq> ESTABLISHED \<or> flushToClientFinished s")
  case True
  then show ?thesis using ret inv by (simp add: flushDataToClient2_def)
next
  case False
  let ?b = "min (sendWindowRightEdge s) (position B (sendBuffer s))"
  let ?now = "clock N (log w)"
  have b: "unat ?b \<le> length (c (sendBuffer s))"
    using buffer_size(2) [OF assms(1), of "sendBuffer s"] by (simp add: min_def word_le_nat_alt)
  have step: "session2_inv c t' \<and> sendBuffer t' = sendBuffer s"
    if "session2_inv c t" "sendBuffer t = sendBuffer s" "j = 0 \<or> j = sendNextOffset t"
      "sendDataStartingFrom2 P B ?b ?now j psh t q v = Some (t', q', v')" for t t' q q' v v' j psh
  proof -
    have "unat j \<le> length (c (sendBuffer t))" using that(1,3) by (auto simp: session2_inv_def)
    then show ?thesis using sendDataStartingFrom2_inv [OF assms(1) that(1) _ _ that(4)] b that(2) by simp
  qed
  obtain t q v where f: "firstFlush2 P B ?b ?now s p (emit EvNow w) = Some (t, q, v)"
    using ret False by (auto simp: flushDataToClient2_def Let_def split: option.splits)
  have first: "session2_inv c t \<and> sendBuffer t = sendBuffer s"
    using f inv
    by (auto simp: firstFlush2_def Let_def split: if_splits option.splits
        dest: step [OF inv refl disjI1 [OF refl]] step [OF inv refl disjI2 [OF refl]])
  have "(case flushRest2 P B ?b ?now (receiveFromClientFinished s \<noteq> sentFinToClient s) t q v of
      None \<Rightarrow> None | Some (t, q, v) \<Rightarrow> Some (probe2 P B ?now t q v)) = Some (s', p', w')"
    using ret False by (simp add: flushDataToClient2_def Let_def f)
  then obtain x where x: "flushRest2 P B ?b ?now (receiveFromClientFinished s \<noteq> sentFinToClient s) t q v = Some x"
      "(case x of (t, q, v) \<Rightarrow> probe2 P B ?now t q v) = (s', p', w')"
    by (cases "flushRest2 P B ?b ?now (receiveFromClientFinished s \<noteq> sentFinToClient s) t q v")
      (simp_all split: prod.splits)
  obtain t' q' v' where "x = (t', q', v')" by (metis prod_cases3)
  then have r: "flushRest2 P B ?b ?now (receiveFromClientFinished s \<noteq> sentFinToClient s) t q v = Some (t', q', v')"
    and s': "s' = fst (probe2 P B ?now t' q' v')"
    using x by simp_all
  consider "sendDataStartingFrom2 P B ?b ?now (sendNextOffset t) True t q v = Some (t', q', v')" | "t' = t"
    using r unfolding flushRest2_def by (metis option.inject prod.inject)
  then have "session2_inv c t'"
  proof cases
    case 1
    then show ?thesis using step [OF conjunct1 [OF first] conjunct2 [OF first] disjI2 [OF refl] 1] by blast
  next
    case 2
    then show ?thesis using first by simp
  qed
  then show ?thesis by (simp add: s' probe2_inv)
qed

lemma receiveFromServer2_inv:
  assumes "buffer_laws B c" and "net2_laws N" and inv: "session2_inv c s"
    and ret: "receiveFromServer2 P N B s p w = Some (s', p', w')"
  shows "session2_inv c s'"
proof (cases "state s \<noteq> ESTABLISHED \<or> receiveFromServerFinished s")
  case True
  then show ?thesis using ret inv by (simp add: receiveFromServer2_def)
next
  case False
  let ?ans = "try_receive N (log w) (socket s) (available B (sendBuffer s))"
  have filled: "session2_inv c (s\<lparr>sendBuffer := fill B bs (sendBuffer s)\<rparr>)" if "?ans = Some (n, bs)" for n bs
  proof -
    have "length bs \<le> unat (available B (sendBuffer s))" using that assms(2) by (simp add: net2_laws_def)
    then have "length (c (sendBuffer s)) + length bs \<le> 65535"
      using buffer_size(1,3) [OF assms(1), of "sendBuffer s"] by simp
    then show ?thesis using inv buffer_put(2) [OF assms(1)] by (simp add: session2_inv_def)
  qed
  have fin: "session2_inv c (s\<lparr>receiveFromServerFinished := True\<rparr>)" using inv by (rule session2_inv_serverFinished)
  define r where "r = (case ?ans of
       None \<Rightarrow> (s\<lparr>receiveFromServerFinished := True\<rparr>,
         unsetFrom_receive (socket s) (emit (EvReceive (socket s) (unat (available B (sendBuffer s)))) w))
     | Some (n, bs) \<Rightarrow>
         if n = - 1 then (s, emit (EvReceive (socket s) (unat (available B (sendBuffer s)))) w)
         else if n = 0 then (s\<lparr>receiveFromServerFinished := True\<rparr>,
           unsetFrom_receive (socket s) (emit (EvReceive (socket s) (unat (available B (sendBuffer s)))) w))
         else (s\<lparr>sendBuffer := fill B bs (sendBuffer s)\<rparr>,
           emit (EvReceive (socket s) (unat (available B (sendBuffer s)))) w))"
  have r: "session2_inv c (fst r)" using fin inv filled by (auto simp: r_def split: option.splits)
  have "(case flushDataToClient2 P N B (fst r) p (snd r) of None \<Rightarrow> None | Some (s, p, w) \<Rightarrow> Some (s, p,
      if available B (sendBuffer s) = 0 then unsetFrom_receive (socket s) w else w)) = Some (s', p', w')"
    using ret False by (simp add: receiveFromServer2_def Let_def r_def [symmetric] case_prod_unfold)
  then obtain x where x: "flushDataToClient2 P N B (fst r) p (snd r) = Some x" "fst x = s'"
    by (cases "flushDataToClient2 P N B (fst r) p (snd r)") (simp_all split: prod.splits)
  then have "flushDataToClient2 P N B (fst r) p (snd r) = Some (s', fst (snd x), snd (snd x))" by auto
  then show ?thesis by (rule flushDataToClient2_inv [OF assms(1) r])
qed

section \<open>Runs\<close>

text \<open>
  What a session is called for. The packet is the one of the caller; a call that does not return leaves the
  state as it was, and nothing follows it.
\<close>

text \<open>
  The calls of a session. A call that does not return leaves the state in \<open>session_step2\<close>, and the run goes on: the runs
  are more than those of the code, and an invariant of them is one of the code.
\<close>

datatype 'p call2 =
    CallClient 'p
  | CallServer 'p
  | CallFlushServer 'p
  | CallFlushClient 'p
  | CallError 'p
  | CallCheck

definition session_step2 ::
    "('p, 'x) packet_ops2_scheme \<Rightarrow> 'p net2 \<Rightarrow> 'b buffer_ops \<Rightarrow> 'b session2 \<times> 'p world \<Rightarrow> 'p call2 \<Rightarrow>
     'b session2 \<times> 'p world" where
  "session_step2 P N B c e = (case c of (s, w) \<Rightarrow> (case e of
       CallClient p \<Rightarrow> (case receiveFromClient2 P N B s p w of (_, s, _, w) \<Rightarrow> (s, w))
     | CallServer p \<Rightarrow> (case receiveFromServer2 P N B s p w of None \<Rightarrow> (s, w) | Some (s, _, w) \<Rightarrow> (s, w))
     | CallFlushServer p \<Rightarrow> (case flushDataToServer2 P N B s p w of (s, _, w) \<Rightarrow> (s, w))
     | CallFlushClient p \<Rightarrow> (case flushDataToClient2 P N B s p w of None \<Rightarrow> (s, w) | Some (s, _, w) \<Rightarrow> (s, w))
     | CallError p \<Rightarrow> (case onSocketError2 P s p w of (s, _, w) \<Rightarrow> (s, w))
     | CallCheck \<Rightarrow> (case checkStatus2 N s w of (_, s, w) \<Rightarrow> (s, w))))"

lemma checkStatus2_inv: "session2_inv c s \<Longrightarrow> session2_inv c (fst (snd (checkStatus2 N s w)))"
  by (simp add: checkStatus2_def checkProbing2_def Let_def split: states2.splits)

lemma session_step2_inv:
  assumes "buffer_laws B c" and "net2_laws N" and "session2_inv c (fst x)"
  shows "session2_inv c (fst (session_step2 P N B x e))"
proof -
  obtain s w where x: "x = (s, w)" by (metis surj_pair)
  then have inv: "session2_inv c s" using assms(3) by simp
  show ?thesis
  proof (cases e)
    case (CallServer p)
    then show ?thesis using receiveFromServer2_inv [OF assms(1,2) inv, of P p w] inv
      by (auto simp: session_step2_def x split: option.splits prod.splits)
  next
    case (CallFlushClient p)
    then show ?thesis using flushDataToClient2_inv [OF assms(1) inv, of P N p w] inv
      by (auto simp: session_step2_def x split: option.splits prod.splits)
  qed (use inv in \<open>simp_all add: session_step2_def x case_prod_unfold receiveFromClient2_inv [OF assms(1)]
      flushDataToServer2_inv onSocketError2_def checkStatus2_inv\<close>)
qed

text \<open>A new session satisfies the invariant, and so does every session that a sequence of calls leads to.\<close>

lemma new_session2_inv: "session2_inv c (new_session2 N b b')"
  by (simp add: session2_inv_def new_session2_def MIN_RTT_def list_all_iff)

interpretation session2_run: step_invariant "session_step2 P N B" "\<lambda>_ _. buffer_laws B c \<and> net2_laws N"
  "\<lambda>x. session2_inv c (fst x)" for P :: "('p, 'x) packet_ops2_scheme" and N :: "'p net2" and B :: "'b buffer_ops"
    and c :: "'b \<Rightarrow> byte list"
  by unfold_locales (rule session_step2_inv, auto)

lemma run_ok_const: "run_ok f (\<lambda>_ _. True) s es"
  by (induction es arbitrary: s) simp_all

text \<open>
  C12. Whatever a session is called for, in whatever order, the bytes it counts as sent lie in its send buffer,
  it keeps five round trip times of at least the minimum each, and its flags about the FIN are
  consistent: acknowledged only if sent, sent only if the server had finished.
\<close>

theorem session2_run_inv:
  assumes "buffer_laws B c" and "net2_laws N"
  shows "session2_inv c (fst (run_steps (session_step2 P N B) (new_session2 N b b', w) es))"
proof (rule session2_run.run_keeps [where P = P and N = N and B = B and c = c])
  show "run_ok (session_step2 P N B) (\<lambda>_ _. buffer_laws B c \<and> net2_laws N) (new_session2 N b b', w) es"
    using assms run_ok_const [of "session_step2 P N B"] by simp
qed (simp add: new_session2_inv)

definition demo_run_net2 :: "demo_packet net2" where
  "demo_run_net2 = demo_net2 (Some 0) (Some 1) [1, 2, 3] 0"

theorem session2_run_inv_witness:
  "session2_inv (take 65535) (fst (run_steps
     (session_step2 demo_ops2 demo_run_net2 demo_buffer)
     (new_session2 demo_run_net2 [] [], empty_world)
     [CallClient (demo_packet\<lparr>dp_syn := True, dp_seq := 500\<rparr>), CallCheck]))"
proof (rule session2_run_inv [OF demo_buffer_laws])
  show "net2_laws demo_run_net2"
    by (auto simp: net2_laws_def demo_run_net2_def demo_net2_def)
qed

end
