(* ===== verification/HandlerV2.thy ===== *)
theory HandlerV2
  imports SessionV2_Run "HOL-Library.Monad_Syntax"
begin

text \<open>
  The handler of one client, \<open>src/handler/ClientHandler.h\<close>, compiled without \<open>LOGGING\<close>: the calls from other
  threads, and one round of \<open>handleClient\<close> phase by phase. The tunnels and the sessions are lists in the order
  of the code's lists, an iterator is an index. \<open>None\<close> is a round that goes past the end of a list or
  does not return.
\<close>

section \<open>Interfaces outside the repository\<close>

text \<open>
  \<open>DisposableTunnel\<close> comes from a submodule, so its methods are parameters. What a method asks of the
  handler, through the three functions that \<open>initTunnel\<close> installs, is the list of callbacks it returns.
\<close>

datatype 'u callback = NewTunnelResponse addr | DeleteTunnelRequest u32 | Unsent 'u

record ('t, 'u, 'p) tunnel_ops =
  tunnel_socket :: "'t \<Rightarrow> fd"
  tunnel_id :: "'t \<Rightarrow> u32"
  tunnel_open :: "'t \<Rightarrow> bool"
  send_object :: "fd \<Rightarrow> u32 \<Rightarrow> 'p world \<Rightarrow> bool \<times> 'p world"
  new_tunnel :: "u32 \<Rightarrow> fd \<Rightarrow> 'p world \<Rightarrow> 't \<times> 'p world"
  reset_tunnel :: "u32 \<Rightarrow> fd \<Rightarrow> 't \<Rightarrow> 'p world \<Rightarrow> unit \<times> 'u callback list \<times> 't \<times> 'p world"
  read_packets :: "'t \<Rightarrow> 'p world \<Rightarrow> 'p list \<times> 'u callback list \<times> 't \<times> 'p world"
  write_packet :: "'p \<Rightarrow> 't \<Rightarrow> 'p world \<Rightarrow> bool \<times> 'u callback list \<times> 't \<times> 'p world"
  flush_packets :: "'t \<Rightarrow> 'p world \<Rightarrow> unit \<times> 'u callback list \<times> 't \<times> 'p world"
  close_tunnel :: "'t \<Rightarrow> 'p world \<Rightarrow> unit \<times> 'u callback list \<times> 't \<times> 'p world"
  tunnel_status :: "'t \<Rightarrow> 'p world \<Rightarrow> bool \<times> 'u callback list \<times> 't \<times> 'p world"
  request_tunnel :: "'t \<Rightarrow> 'p world \<Rightarrow> bool \<times> 'u callback list \<times> 't \<times> 'p world"
  request_delete :: "u32 \<Rightarrow> 't \<Rightarrow> 'p world \<Rightarrow> bool \<times> 'u callback list \<times> 't \<times> 'p world"
  send_unsent :: "'u \<Rightarrow> 't \<Rightarrow> 'p world \<Rightarrow> 'u \<times> 'u callback list \<times> 't \<times> 'p world"
  remaining :: "'u \<Rightarrow> bool"
  protocol :: "'p \<Rightarrow> nat"

definition IPPROTO_TCP :: nat where "IPPROTO_TCP = 6"

text \<open>What \<open>select\<close> answers: the number of descriptors that are ready, and the three sets.\<close>

record ready =
  ready_count :: int
  ready_receive :: "fd set"
  ready_send :: "fd set"
  ready_error :: "fd set"

section \<open>State\<close>

definition NO_TUNNEL_TIMEOUT :: int where "NO_TUNNEL_TIMEOUT = 120000"
definition MAXIMUM_TUNNELS :: u32 where "MAXIMUM_TUNNELS = 100"
definition MAXIMUM_TCP_SESSIONS :: nat where "MAXIMUM_TCP_SESSIONS = 500"
definition HEALTHY_TUNNELS_COUNT :: u32 where "HEALTHY_TUNNELS_COUNT = 5"
definition TICK_DELAY :: int where "TICK_DELAY = 20"

text \<open>
  \<open>Data\<close>, without the mutexes and the descriptor sets, which are those of the world. The last
  field lists the calls of \<open>tunnelRequester\<close>.
\<close>

record ('t, 'b) client_data =
  clientId :: u32
  shouldStop :: bool
  started :: bool
  maxFD :: fd
  tunnelCandidates :: "fd list"
  tunnels :: "'t list"
  openTunnelsCount :: u32
  tcpSessions :: "'b session2 list"
  openTCPSessionsCount :: u32
  tunnelIDCount :: u32
  tunnelRequests :: "(addr \<times> u32) list"

definition new_client :: "('t, 'b) client_data" where
  "new_client = \<lparr>clientId = 0, shouldStop = True, started = False, maxFD = 0, tunnelCandidates = [], tunnels = [],
     openTunnelsCount = 0, tcpSessions = [], openTCPSessionsCount = 0, tunnelIDCount = 0, tunnelRequests = []\<rparr>"

type_synonym ('t, 'b, 'p) client = "('t, 'b) client_data \<times> 'p world"

section \<open>Calls from other threads\<close>

definition stop_client :: "('t, 'b) client_data \<Rightarrow> ('t, 'b) client_data" where
  "stop_client c = (if started c then c\<lparr>shouldStop := True\<rparr> else c)"

definition addTunnelSocket :: "fd \<Rightarrow> ('t, 'b) client_data \<Rightarrow> bool \<times> ('t, 'b) client_data" where
  "addTunnelSocket f c =
    (if \<not> started c then (False, c)
     else if length (tunnelCandidates c) + unat (openTunnelsCount c) = unat MAXIMUM_TUNNELS then (False, c)
     else (True, c\<lparr>tunnelCandidates := tunnelCandidates c @ [f]\<rparr>))"

text \<open>\<open>None\<close> is the exception.\<close>

definition start_client :: "u32 \<Rightarrow> ('t, 'b) client_data \<Rightarrow> ('t, 'b) client_data option" where
  "start_client i c = (if started c then None else Some (c\<lparr>started := True, shouldStop := False, clientId := i\<rparr>))"

section \<open>The tunnels and their callbacks\<close>

text \<open>A method of the tunnel at an index, without its callbacks.\<close>

definition at_tunnel ::
  "nat \<Rightarrow> ('t \<Rightarrow> 'p world \<Rightarrow> 'r \<times> 'u callback list \<times> 't \<times> 'p world) \<Rightarrow> ('t, 'b, 'p) client \<Rightarrow>
   ('r \<times> 'u callback list \<times> ('t, 'b, 'p) client) option" where
  "at_tunnel i f st = (case st of (c, w) \<Rightarrow>
     if i < length (tunnels c)
     then case f (tunnels c ! i) w of (r, cbs, t, w) \<Rightarrow> Some (r, cbs, c\<lparr>tunnels := (tunnels c)[i := t]\<rparr>, w)
     else None)"

text \<open>\<open>setOnDeleteTunnelRequest\<close>: the first open tunnel with the id is closed.\<close>

definition onDeleteTunnelRequest ::
  "('t, 'u, 'p) tunnel_ops \<Rightarrow> u32 \<Rightarrow> ('t, 'b, 'p) client \<Rightarrow> ('u callback list \<times> ('t, 'b, 'p) client) option" where
  "onDeleteTunnelRequest T k st =
    (case find (\<lambda>i. tunnel_id T (tunnels (fst st) ! i) = k) [0..<min (unat (openTunnelsCount (fst st))) (length (tunnels (fst st)))] of
       Some i \<Rightarrow> map_option snd (at_tunnel i (close_tunnel T) st)
     | None \<Rightarrow> if unat (openTunnelsCount (fst st)) \<le> length (tunnels (fst st)) then Some ([], st) else None)"

text \<open>\<open>setOnUnsentData\<close>: the data is offered to the open tunnels, \<open>k\<close> of which are left.\<close>

fun onUnsentData ::
  "('t, 'u, 'p) tunnel_ops \<Rightarrow> nat \<Rightarrow> nat \<Rightarrow> 'u \<Rightarrow> ('t, 'b, 'p) client \<Rightarrow> ('u callback list \<times> ('t, 'b, 'p) client) option" where
  "onUnsentData T 0 i u st = Some ([], st)"
| "onUnsentData T (Suc k) i u st =
    (if \<not> remaining T u then Some ([], st)
     else case at_tunnel i (send_unsent T u) st of None \<Rightarrow> None
       | Some (u, cbs, st) \<Rightarrow> map_option (\<lambda>(cbs', st). (cbs @ cbs', st)) (onUnsentData T k (Suc i) u st))"

definition callback_step ::
  "('t, 'u, 'p) tunnel_ops \<Rightarrow> 'u callback \<Rightarrow> ('t, 'b, 'p) client \<Rightarrow> ('u callback list \<times> ('t, 'b, 'p) client) option" where
  "callback_step T cb st = (case cb of
     NewTunnelResponse a \<Rightarrow>
       (case st of (c, w) \<Rightarrow> Some ([], c\<lparr>tunnelRequests := tunnelRequests c @ [(a, clientId c)]\<rparr>, w))
   | DeleteTunnelRequest k \<Rightarrow> onDeleteTunnelRequest T k st
   | Unsent u \<Rightarrow> onUnsentData T (unat (openTunnelsCount (fst st))) 0 u st)"

text \<open>A callback may make the tunnels it calls ask for more.\<close>

partial_function (option) run_callbacks ::
  "('t, 'u, 'p) tunnel_ops \<Rightarrow> 'u callback list \<Rightarrow> ('t, 'b, 'p) client \<Rightarrow> ('t, 'b, 'p) client option" where
  "run_callbacks T cbs st =
    (case cbs of [] \<Rightarrow> Some st
     | cb # cbs \<Rightarrow> (case callback_step T cb st of None \<Rightarrow> None
         | Some (further, st) \<Rightarrow> run_callbacks T (further @ cbs) st))"

definition on_tunnel ::
  "('t, 'u, 'p) tunnel_ops \<Rightarrow> nat \<Rightarrow> ('t \<Rightarrow> 'p world \<Rightarrow> 'r \<times> 'u callback list \<times> 't \<times> 'p world) \<Rightarrow>
   ('t, 'b, 'p) client \<Rightarrow> ('r \<times> ('t, 'b, 'p) client) option" where
  "on_tunnel T i f st = (case at_tunnel i f st of None \<Rightarrow> None
     | Some (r, cbs, st) \<Rightarrow> map_option (Pair r) (run_callbacks T cbs st))"

text \<open>
  A \<open>while\<close> loop over the open tunnels that stops at the first for which \<open>f\<close> succeeds: the index it
  stops at. \<open>k\<close> tunnels are left.
\<close>

fun until_tunnel ::
  "('t, 'u, 'p) tunnel_ops \<Rightarrow> ('t \<Rightarrow> 'p world \<Rightarrow> bool \<times> 'u callback list \<times> 't \<times> 'p world) \<Rightarrow> nat \<Rightarrow> nat \<Rightarrow>
   ('t, 'b, 'p) client \<Rightarrow> (nat \<times> ('t, 'b, 'p) client) option" where
  "until_tunnel T f 0 i st = Some (i, st)"
| "until_tunnel T f (Suc k) i st = (case on_tunnel T i f st of None \<Rightarrow> None
     | Some (ok, st) \<Rightarrow> if ok then Some (i, st) else until_tunnel T f k (Suc i) st)"

definition sendTCPPacketBack ::
  "('t, 'u, 'p) tunnel_ops \<Rightarrow> 'p \<Rightarrow> ('t, 'b, 'p) client \<Rightarrow> ('t, 'b, 'p) client option" where
  "sendTCPPacketBack T p st =
    map_option snd (until_tunnel T (write_packet T p) (unat (openTunnelsCount (fst st))) 0 st)"

text \<open>
  \<open>sendNewTunnelRequest\<close> as often as \<open>count\<close> says: as long as it succeeds with one tunnel, then with the next.
  What is left of the count is returned.
\<close>

fun request_tunnels ::
  "('t, 'u, 'p) tunnel_ops \<Rightarrow> nat \<Rightarrow> nat \<Rightarrow> ('t, 'b, 'p) client \<Rightarrow> (nat \<times> ('t, 'b, 'p) client) option" where
  "request_tunnels T i 0 st = Some (0, st)"
| "request_tunnels T i (Suc n) st = do {
     (ok, st) \<leftarrow> on_tunnel T i (request_tunnel T) st;
     if ok then request_tunnels T i n st else Some (Suc n, st) }"

fun request_from_all ::
  "('t, 'u, 'p) tunnel_ops \<Rightarrow> nat \<Rightarrow> nat \<Rightarrow> nat \<Rightarrow> ('t, 'b, 'p) client \<Rightarrow> ('t, 'b, 'p) client option" where
  "request_from_all T 0 i count st = Some st"
| "request_from_all T (Suc k) i count st =
    (if count = 0 then Some st
     else do { (count, st) \<leftarrow> request_tunnels T i count st; request_from_all T k (Suc i) count st })"

text \<open>
  Without \<open>LOGGING\<close> the body of the first \<open>if\<close> is the second one, so new tunnels are asked for only when no
  tunnel took the request.
\<close>

definition sendDeleteTunnelRequest ::
  "('t, 'u, 'p) tunnel_ops \<Rightarrow> u32 \<Rightarrow> ('t, 'b, 'p) client \<Rightarrow> ('t, 'b, 'p) client option" where
  "sendDeleteTunnelRequest T k st = do {
     let n = unat (openTunnelsCount (fst st));
     (ind, st) \<leftarrow> until_tunnel T (request_delete T k) n 0 st;
     if ind = n \<and> openTunnelsCount (fst st) < HEALTHY_TUNNELS_COUNT
     then request_from_all T n 0 n st else Some st }"

text \<open>
  \<open>splice\<close> of the element at an index to the end of a list, and the index of what followed it, which is
  the end of the list when nothing did.
\<close>

definition move_to_back :: "nat \<Rightarrow> 'a list \<Rightarrow> 'a list" where
  "move_to_back i xs = take i xs @ drop (Suc i) xs @ [xs ! i]"

definition following :: "nat \<Rightarrow> 'a list \<Rightarrow> nat" where
  "following i xs = (if Suc i = length xs then length xs else i)"

section \<open>Everything outside\<close>

record ('t, 'u, 'b, 'p) outside =
  packet :: "'p packet_ops2"
  network :: "'p net2"
  buffer :: "'b buffer_ops"
  empty_buffer :: 'b
  tunnel :: "('t, 'u, 'p) tunnel_ops"
  select_ready :: "fd \<Rightarrow> 'p world \<Rightarrow> ready"

section \<open>Packets for the sessions\<close>

text \<open>
  A session writes its packets to the log; the handler gives those that are new since \<open>w\<close> to the first
  open tunnel that takes them.
\<close>

fun deliver :: "('t, 'u, 'p) tunnel_ops \<Rightarrow> 'p list \<Rightarrow> ('t, 'b, 'p) client \<Rightarrow> ('t, 'b, 'p) client option" where
  "deliver T [] st = Some st"
| "deliver T (p # ps) st = do { st \<leftarrow> sendTCPPacketBack T p st; deliver T ps st }"

definition written_since :: "'p world \<Rightarrow> 'p world \<Rightarrow> 'p list" where
  "written_since w w' = written (drop (length (log w)) (log w'))"

fun offer_packet ::
  "('t, 'u, 'b, 'p) outside \<Rightarrow> 'p \<Rightarrow> 'b session2 list \<Rightarrow> 'p world \<Rightarrow> bool \<times> 'b session2 list \<times> 'p world" where
  "offer_packet E p [] w = (False, [], w)"
| "offer_packet E p (s # ss) w =
    (case receiveFromClient2 (packet E) (network E) (buffer E) s p w of (handled, s', p', w') \<Rightarrow>
       if handled then (True, s' # ss, w')
       else case offer_packet E p' ss w' of (h, ss', w'') \<Rightarrow> (h, s' # ss', w''))"

definition receive_packet ::
  "('t, 'u, 'b, 'p) outside \<Rightarrow> 'p \<Rightarrow> ('t, 'b, 'p) client \<Rightarrow> ('t, 'b, 'p) client option" where
  "receive_packet E p st = (case st of (c, w) \<Rightarrow>
     if protocol (tunnel E) p \<noteq> IPPROTO_TCP then Some (c, w)
     else case offer_packet E p (tcpSessions c) w of (handled, ss, w') \<Rightarrow>
       if handled then deliver (tunnel E) (written_since w w') (c\<lparr>tcpSessions := ss\<rparr>, w')
       else if length (tcpSessions c) = MAXIMUM_TCP_SESSIONS then Some (c, w)
       else case receiveFromClient2 (packet E) (network E) (buffer E)
                (new_session2 (network E) (empty_buffer E) (empty_buffer E)) p w of (_, s, _, w') \<Rightarrow>
         do { (c, w') \<leftarrow> deliver (tunnel E) (written_since w w') (c\<lparr>tcpSessions := tcpSessions c @ [s]\<rparr>, w');
              Some (if state s \<noteq> CLOSED then c\<lparr>openTCPSessionsCount := openTCPSessionsCount c + 1\<rparr> else c, w') })"

fun receive_packets ::
  "('t, 'u, 'b, 'p) outside \<Rightarrow> 'p list \<Rightarrow> ('t, 'b, 'p) client \<Rightarrow> ('t, 'b, 'p) client option" where
  "receive_packets E [] st = Some st"
| "receive_packets E (p # ps) st = do { st \<leftarrow> receive_packet E p st; receive_packets E ps st }"

text \<open>A call of the session at an index, with the handler's packet object, and the delivery of what it wrote.\<close>

definition on_session ::
  "('t, 'u, 'b, 'p) outside \<Rightarrow> nat \<Rightarrow> ('b session2 \<Rightarrow> 'p \<Rightarrow> 'p world \<Rightarrow> ('p, 'b) conf2 option) \<Rightarrow> 'p \<Rightarrow>
   ('t, 'b, 'p) client \<Rightarrow> ('p \<times> ('t, 'b, 'p) client) option" where
  "on_session E i f p st = (case st of (c, w) \<Rightarrow>
     if i < length (tcpSessions c)
     then do { (s, p, w') \<leftarrow> f (tcpSessions c ! i) p w;
               st \<leftarrow> deliver (tunnel E) (written_since w w') (c\<lparr>tcpSessions := (tcpSessions c)[i := s]\<rparr>, w');
               Some (p, st) }
     else None)"

section \<open>One round of \<open>handleClient\<close>\<close>

text \<open>The test before the wait, and what follows it; the Boolean is whether the loop goes on.\<close>

definition enter_round :: "('t, 'b) client_data \<Rightarrow> bool \<times> ('t, 'b) client_data" where
  "enter_round c = (if shouldStop c then (False, c\<lparr>started := False\<rparr>) else (True, c))"

definition wake_up :: "('t, 'b) client_data \<Rightarrow> bool" where
  "wake_up c = (openTunnelsCount c > 0 \<or> tunnelCandidates c \<noteq> [] \<or> shouldStop c)"

definition after_wait :: "('t, 'b) client_data \<Rightarrow> bool \<times> ('t, 'b) client_data" where
  "after_wait c = (if \<not> wake_up c then (False, c\<lparr>started := False\<rparr>)
     else if shouldStop c then (False, c\<lparr>started := False\<rparr>) else (True, c))"

text \<open>The sockets that wait to become tunnels.\<close>

fun admit_candidates ::
  "('t, 'u, 'p) tunnel_ops \<Rightarrow> fd list \<Rightarrow> ('t, 'b, 'p) client \<Rightarrow> ('t, 'b, 'p) client option" where
  "admit_candidates T [] st = Some st"
| "admit_candidates T (f # fs) (c, w) =
    (if openTunnelsCount c = MAXIMUM_TUNNELS then Some (c, w)
     else case send_object T f (tunnelIDCount c) w of (ok, w) \<Rightarrow>
       if \<not> ok then admit_candidates T fs (c, w)
       else let k = tunnelIDCount c; n = openTunnelsCount c; c = c\<lparr>tunnelIDCount := k + 1\<rparr> in
         if unat n = length (tunnels c)
         then case new_tunnel T k f w of (t, w) \<Rightarrow>
           admit_candidates T fs (c\<lparr>tunnels := tunnels c @ [t], openTunnelsCount := n + 1\<rparr>, w)
         else do { (_, c, w) \<leftarrow> on_tunnel T (unat n) (reset_tunnel T k f) (c\<lparr>openTunnelsCount := n + 1\<rparr>, w);
                   admit_candidates T fs (c\<lparr>openTunnelsCount := openTunnelsCount c + 1\<rparr>, w) })"

definition admit :: "('t, 'u, 'p) tunnel_ops \<Rightarrow> ('t, 'b, 'p) client \<Rightarrow> ('t, 'b, 'p) client option" where
  "admit T st = (if tunnelCandidates (fst st) = [] then Some st
     else do { (c, w) \<leftarrow> admit_candidates T (tunnelCandidates (fst st)) st; Some (c\<lparr>tunnelCandidates := []\<rparr>, w) })"

definition evalMaxFD :: "('t, 'u, 'p) tunnel_ops \<Rightarrow> ('t, 'b) client_data \<Rightarrow> ('t, 'b) client_data" where
  "evalMaxFD T c = c\<lparr>maxFD :=
     fold (\<lambda>s r. if state s \<noteq> CLOSED then max (socket s + 1) r else r) (tcpSessions c)
       (fold (\<lambda>t r. if tunnel_open T t then max (tunnel_socket T t + 1) r else r) (tunnels c) 0)\<rparr>"

text \<open>The tunnel at an index: read, flush, and take it out when it failed. The index of the next one.\<close>

definition read_tunnel ::
  "('t, 'u, 'b, 'p) outside \<Rightarrow> nat \<Rightarrow> ('t, 'b, 'p) client \<Rightarrow> ('t, 'b, 'p) client option" where
  "read_tunnel E i st = do {
     (ps, st) \<leftarrow> on_tunnel (tunnel E) i (read_packets (tunnel E)) st;
     receive_packets E ps st }"

definition drop_tunnel ::
  "('t, 'u, 'b, 'p) outside \<Rightarrow> nat \<Rightarrow> ('t, 'b, 'p) client \<Rightarrow> (nat \<times> ('t, 'b, 'p) client) option" where
  "drop_tunnel E i st = (case st of (c, w) \<Rightarrow>
     if i < length (tunnels c)
     then do { let k = tunnel_id (tunnel E) (tunnels c ! i);
               st \<leftarrow> sendDeleteTunnelRequest (tunnel E) k
                 (c\<lparr>openTunnelsCount := openTunnelsCount c - 1, tunnels := move_to_back i (tunnels c)\<rparr>, w);
               Some (following i (tunnels c), st) }
     else None)"

definition tunnel_in :: "('t, 'u, 'b, 'p) outside \<Rightarrow> nat \<Rightarrow> fd set \<Rightarrow> ('t, 'b, 'p) client \<Rightarrow> bool" where
  "tunnel_in E i S st = (tunnel_socket (tunnel E) (tunnels (fst st) ! i) \<in> S)"

definition serve_tunnel ::
  "('t, 'u, 'b, 'p) outside \<Rightarrow> ready \<Rightarrow> nat \<Rightarrow> int \<Rightarrow> ('t, 'b, 'p) client \<Rightarrow> (nat \<times> int \<times> ('t, 'b, 'p) client) option" where
  "serve_tunnel E R i count st =
    (if \<not> i < length (tunnels (fst st)) then None
     else do {
       (count, st) \<leftarrow> (if tunnel_in E i (ready_receive R) st
          then map_option (Pair (count - 1)) (read_tunnel E i st) else Some (count, st));
       (count, st) \<leftarrow> (if tunnel_in E i (ready_send R) st
          then map_option (\<lambda>(_, st). (count - 1, st)) (on_tunnel (tunnel E) i (flush_packets (tunnel E)) st)
          else Some (count, st));
       if tunnel_in E i (ready_error R) st
       then do { (_, st) \<leftarrow> on_tunnel (tunnel E) i (close_tunnel (tunnel E)) st;
                 (i, st) \<leftarrow> drop_tunnel E i st;
                 Some (i, count - 1, st) }
       else Some (Suc i, count, st) })"

fun serve_tunnels ::
  "('t, 'u, 'b, 'p) outside \<Rightarrow> ready \<Rightarrow> nat \<Rightarrow> nat \<Rightarrow> int \<Rightarrow> ('t, 'b, 'p) client \<Rightarrow> (int \<times> ('t, 'b, 'p) client) option" where
  "serve_tunnels E R 0 i count st = Some (count, st)"
| "serve_tunnels E R (Suc k) i count st =
    (if \<not> count > 0 then Some (count, st)
     else do { (i, count, st) \<leftarrow> serve_tunnel E R i count st; serve_tunnels E R k i count st })"

text \<open>
  The session at an index. The iterator moves only when the session failed, so the loop stays at the first
  session that did not fail.
\<close>

definition session_in :: "nat \<Rightarrow> fd set \<Rightarrow> ('t, 'b, 'p) client \<Rightarrow> bool" where
  "session_in i S st = (socket (tcpSessions (fst st) ! i) \<in> S)"

definition drop_session :: "nat \<Rightarrow> ('t, 'b, 'p) client \<Rightarrow> nat \<times> ('t, 'b, 'p) client" where
  "drop_session i st = (case st of (c, w) \<Rightarrow> (following i (tcpSessions c),
     c\<lparr>tcpSessions := move_to_back i (tcpSessions c), openTCPSessionsCount := openTCPSessionsCount c - 1\<rparr>, w))"

definition serve_session ::
  "('t, 'u, 'b, 'p) outside \<Rightarrow> ready \<Rightarrow> nat \<Rightarrow> int \<Rightarrow> 'p \<Rightarrow> ('t, 'b, 'p) client \<Rightarrow>
   (nat \<times> int \<times> 'p \<times> ('t, 'b, 'p) client) option" where
  "serve_session E R i count p st =
    (if \<not> i < length (tcpSessions (fst st)) then None
     else do {
       (count, p, st) \<leftarrow> (if session_in i (ready_receive R) st
          then map_option (Pair (count - 1)) (on_session E i (receiveFromServer2 (packet E) (network E) (buffer E)) p st)
          else Some (count, p, st));
       (count, p, st) \<leftarrow> (if session_in i (ready_send R) st
          then map_option (Pair (count - 1))
            (on_session E i (\<lambda>s p w. Some (flushDataToServer2 (packet E) (network E) (buffer E) s p w)) p st)
          else Some (count, p, st));
       if session_in i (ready_error R) st
       then do { (p, st) \<leftarrow> on_session E i (\<lambda>s p w. Some (onSocketError2 (packet E) s p w)) p st;
                 let (i, st) = drop_session i st;
                 Some (i, count - 1, p, st) }
       else Some (i, count, p, st) })"

fun serve_sessions ::
  "('t, 'u, 'b, 'p) outside \<Rightarrow> ready \<Rightarrow> nat \<Rightarrow> nat \<Rightarrow> int \<Rightarrow> 'p \<Rightarrow> ('t, 'b, 'p) client \<Rightarrow>
   (int \<times> 'p \<times> ('t, 'b, 'p) client) option" where
  "serve_sessions E R 0 i count p st = Some (count, p, st)"
| "serve_sessions E R (Suc k) i count p st =
    (if \<not> count > 0 then Some (count, p, st)
     else do { (i, count, p, st) \<leftarrow> serve_session E R i count p st; serve_sessions E R k i count p st })"

text \<open>The tick: every open tunnel and every counted session is checked, and flushed or taken out.\<close>

fun tick_tunnels ::
  "('t, 'u, 'b, 'p) outside \<Rightarrow> nat \<Rightarrow> nat \<Rightarrow> ('t, 'b, 'p) client \<Rightarrow> ('t, 'b, 'p) client option" where
  "tick_tunnels E 0 i st = Some st"
| "tick_tunnels E (Suc k) i st = do {
     (ok, st) \<leftarrow> on_tunnel (tunnel E) i (tunnel_status (tunnel E)) st;
     (i, st) \<leftarrow> (if ok then map_option (\<lambda>(_, st). (Suc i, st)) (on_tunnel (tunnel E) i (flush_packets (tunnel E)) st)
       else drop_tunnel E i st);
     tick_tunnels E k i st }"

definition check_session ::
  "('t, 'u, 'b, 'p) outside \<Rightarrow> nat \<Rightarrow> ('t, 'b, 'p) client \<Rightarrow> (bool \<times> ('t, 'b, 'p) client) option" where
  "check_session E i st = (case st of (c, w) \<Rightarrow>
     if i < length (tcpSessions c)
     then case checkStatus2 (network E) (tcpSessions c ! i) w of (ok, s, w) \<Rightarrow>
       Some (ok, c\<lparr>tcpSessions := (tcpSessions c)[i := s]\<rparr>, w)
     else None)"

fun tick_sessions ::
  "('t, 'u, 'b, 'p) outside \<Rightarrow> nat \<Rightarrow> nat \<Rightarrow> 'p \<Rightarrow> ('t, 'b, 'p) client \<Rightarrow> ('p \<times> ('t, 'b, 'p) client) option" where
  "tick_sessions E 0 i p st = Some (p, st)"
| "tick_sessions E (Suc k) i p st = do {
     (ok, st) \<leftarrow> check_session E i st;
     (i, p, st) \<leftarrow> (if ok
       then map_option (Pair (Suc i)) (on_session E i (flushDataToClient2 (packet E) (network E) (buffer E)) p st)
       else let (i, st) = drop_session i st in Some (i, p, st));
     tick_sessions E k i p st }"

text \<open>The local variables of \<open>handleClient\<close> that live from one round to the next.\<close>

record 'p locals =
  tcpPacket :: 'p
  lastTickTime :: int
  startTunnelsCount :: u32
  startTCPSessionsCount :: u32

definition poll ::
  "('t, 'u, 'b, 'p) outside \<Rightarrow> 'p locals \<Rightarrow> ('t, 'b) client_data \<Rightarrow> 'p locals \<times> ('t, 'b) client_data" where
  "poll E l c =
    (let c = (if openTunnelsCount c \<noteq> startTunnelsCount l \<or> openTCPSessionsCount c \<noteq> startTCPSessionsCount l
              then evalMaxFD (tunnel E) c else c)
     in (l\<lparr>startTunnelsCount := openTunnelsCount c, startTCPSessionsCount := openTCPSessionsCount c\<rparr>, c))"

definition tick_client ::
  "('t, 'u, 'b, 'p) outside \<Rightarrow> 'p locals \<Rightarrow> ('t, 'b, 'p) client \<Rightarrow> ('p locals \<times> ('t, 'b, 'p) client) option" where
  "tick_client E l st = (case st of (c, w) \<Rightarrow>
     let now = clock (network E) (log w); w = emit EvNow w in
     if now - lastTickTime l > ms TICK_DELAY then do {
       st \<leftarrow> tick_tunnels E (unat (openTunnelsCount c)) 0 (c, w);
       (p, st) \<leftarrow> tick_sessions E (unat (openTCPSessionsCount (fst st))) 0 (tcpPacket l) st;
       Some (l\<lparr>lastTickTime := now, tcpPacket := p\<rparr>, st) }
     else Some (l, c, w))"

text \<open>The round, from the end of the wait on.\<close>

definition handle_round ::
  "('t, 'u, 'b, 'p) outside \<Rightarrow> 'p locals \<Rightarrow> ('t, 'b, 'p) client \<Rightarrow> ('p locals \<times> ('t, 'b, 'p) client) option" where
  "handle_round E l st = do {
     (c, w) \<leftarrow> admit (tunnel E) st;
     let (l, c) = poll E l c;
     let R = select_ready E (maxFD c) w;
     (count, st) \<leftarrow> serve_tunnels E R (unat (openTunnelsCount c)) 0 (ready_count R) (c, w);
     (_, p, st) \<leftarrow> serve_sessions E R (unat (openTCPSessionsCount (fst st))) 0 count (tcpPacket l) st;
     tick_client E (l\<lparr>tcpPacket := p\<rparr>) st }"

end
