(* ===== verification/HandlerV2_Inv.thy ===== *)
theory HandlerV2_Inv
  imports HandlerV2
begin

text \<open>
  The counts of the client handler, which every phase of a round keeps, and the loops over the lists, which
  stay inside them as long as the counts are right.
\<close>

section \<open>What the tunnels leave alone\<close>

definition same_lists :: "('t, 'b, 'p) client \<Rightarrow> ('t, 'b, 'p) client \<Rightarrow> bool" where
  "same_lists st st' \<longleftrightarrow> length (tunnels (fst st')) = length (tunnels (fst st)) \<and>
     openTunnelsCount (fst st') = openTunnelsCount (fst st) \<and> tcpSessions (fst st') = tcpSessions (fst st) \<and>
     openTCPSessionsCount (fst st') = openTCPSessionsCount (fst st) \<and>
     tunnelCandidates (fst st') = tunnelCandidates (fst st)"

lemma same_lists_refl [simp]: "same_lists st st"
  by (simp add: same_lists_def)

lemma same_lists_trans: "same_lists a b \<Longrightarrow> same_lists b c \<Longrightarrow> same_lists a c"
  by (simp add: same_lists_def)

lemma at_tunnel_same: "at_tunnel i f st = Some (r, cbs, st') \<Longrightarrow> same_lists st st'"
  by (auto simp: at_tunnel_def same_lists_def split: prod.splits if_splits)

lemma onUnsentData_same: "onUnsentData T k i u st = Some (cbs, st') \<Longrightarrow> same_lists st st'"
proof (induction k arbitrary: i u st cbs)
  case (Suc k)
  show ?case
  proof (cases "remaining T u")
    case True
    then obtain u1 c1 s1 where a: "at_tunnel i (send_unsent T u) st = Some (u1, c1, s1)"
      using Suc.prems by (cases "at_tunnel i (send_unsent T u) st") auto
    then obtain c2 where "onUnsentData T k (Suc i) u1 s1 = Some (c2, st')"
      using Suc.prems True by auto
    then show ?thesis using same_lists_trans [OF at_tunnel_same [OF a] Suc.IH] by blast
  qed (use Suc.prems in simp)
qed simp

lemma callback_step_same:
  assumes "callback_step T cb st = Some (cbs, st')"
  shows "same_lists st st'"
proof (cases cb)
  case (NewTunnelResponse a)
  then show ?thesis using assms by (auto simp: callback_step_def same_lists_def split: prod.splits)
next
  case (DeleteTunnelRequest k)
  then show ?thesis using assms
    by (auto simp: callback_step_def onDeleteTunnelRequest_def split: option.splits if_splits intro: at_tunnel_same)
next
  case (Unsent u)
  then show ?thesis using assms by (intro onUnsentData_same) (simp add: callback_step_def)
qed

lemma run_callbacks_same:
  fixes T :: "('t, 'u, 'p) tunnel_ops" and st :: "('t, 'b, 'p) client"
  assumes "run_callbacks T cbs st = Some st'"
  shows "same_lists st st'"
  using assms
proof (rule run_callbacks.raw_induct [where P = "\<lambda>(_ :: ('t, 'u, 'p) tunnel_ops) _ (s :: ('t, 'b, 'p) client) s'. same_lists s s'", rotated])
  fix rc and T :: "('t, 'u, 'p) tunnel_ops" and cbs and st st' :: "('t, 'b, 'p) client"
  assume ih: "\<And>T cbs st st'. rc T cbs st = Some st' \<Longrightarrow> same_lists st st'"
    and eq: "(case cbs of [] \<Rightarrow> Some st | cb # cbs \<Rightarrow>
      (case callback_step T cb st of None \<Rightarrow> None | Some (further, st) \<Rightarrow> rc T (further @ cbs) st)) = Some st'"
  show "same_lists st st'"
  proof (cases cbs)
    case (Cons cb cbs')
    then obtain fu s1 where s: "callback_step T cb st = Some (fu, s1)"
      using eq by (cases "callback_step T cb st") auto
    then have "rc T (fu @ cbs') s1 = Some st'" using eq Cons by simp
    then show ?thesis by (rule same_lists_trans [OF callback_step_same [OF s] ih])
  qed (use eq in simp)
qed

lemma on_tunnel_same:
  assumes "on_tunnel T i f st = Some (r, st')"
  shows "same_lists st st'"
proof -
  obtain r1 cbs s1 where a: "at_tunnel i f st = Some (r1, cbs, s1)"
    using assms by (cases "at_tunnel i f st") (auto simp: on_tunnel_def)
  then have "run_callbacks T cbs s1 = Some st'" using assms by (auto simp: on_tunnel_def)
  then show ?thesis by (rule same_lists_trans [OF at_tunnel_same [OF a] run_callbacks_same])
qed

lemma until_tunnel_same: "until_tunnel T f k i st = Some (j, st') \<Longrightarrow> same_lists st st'"
proof (induction k arbitrary: i st)
  case (Suc k)
  then obtain ok s1 where o: "on_tunnel T i f st = Some (ok, s1)" by (cases "on_tunnel T i f st") auto
  show ?case
  proof (cases ok)
    case True
    then show ?thesis using Suc.prems o on_tunnel_same [OF o] by simp
  next
    case False
    then have "until_tunnel T f k (Suc i) s1 = Some (j, st')" using Suc.prems o by simp
    then show ?thesis by (rule same_lists_trans [OF on_tunnel_same [OF o] Suc.IH])
  qed
qed simp

lemma sendTCPPacketBack_same: "sendTCPPacketBack T p st = Some st' \<Longrightarrow> same_lists st st'"
  using until_tunnel_same by (fastforce simp: sendTCPPacketBack_def)

lemma deliver_same: "deliver T ps st = Some st' \<Longrightarrow> same_lists st st'"
proof (induction ps arbitrary: st)
  case (Cons p ps)
  then obtain s1 where "sendTCPPacketBack T p st = Some s1" and "deliver T ps s1 = Some st'"
    by (cases "sendTCPPacketBack T p st") auto
  then show ?case by (rule same_lists_trans [OF sendTCPPacketBack_same Cons.IH])
qed simp

lemma request_tunnels_same: "request_tunnels T i n st = Some (m, st') \<Longrightarrow> same_lists st st'"
proof (induction n arbitrary: st)
  case (Suc n)
  then obtain ok s1 where o: "on_tunnel T i (request_tunnel T) st = Some (ok, s1)"
    by (cases "on_tunnel T i (request_tunnel T) st") auto
  show ?case
  proof (cases ok)
    case True
    then have "request_tunnels T i n s1 = Some (m, st')" using Suc.prems o by simp
    then show ?thesis by (rule same_lists_trans [OF on_tunnel_same [OF o] Suc.IH])
  qed (use Suc.prems o on_tunnel_same [OF o] in simp)
qed simp

lemma request_from_all_same: "request_from_all T k i n st = Some st' \<Longrightarrow> same_lists st st'"
proof (induction k arbitrary: i n st)
  case (Suc k)
  show ?case
  proof (cases "n = 0")
    case False
    then obtain m s1 where o: "request_tunnels T i n st = Some (m, s1)"
      using Suc.prems by (cases "request_tunnels T i n st") auto
    then have "request_from_all T k (Suc i) m s1 = Some st'" using Suc.prems False by simp
    then show ?thesis by (rule same_lists_trans [OF request_tunnels_same [OF o] Suc.IH])
  qed (use Suc.prems in simp)
qed simp

lemma sendDelete_same:
  assumes "sendDeleteTunnelRequest T k st = Some st'"
  shows "same_lists st st'"
proof -
  let ?n = "unat (openTunnelsCount (fst st))"
  obtain ind s1 where u: "until_tunnel T (request_delete T k) ?n 0 st = Some (ind, s1)"
    using assms by (cases "until_tunnel T (request_delete T k) ?n 0 st") (auto simp: sendDeleteTunnelRequest_def)
  have "st' = s1 \<or> request_from_all T ?n 0 ?n s1 = Some st'"
    using assms u by (auto simp: sendDeleteTunnelRequest_def Let_def split: if_splits)
  then show ?thesis using until_tunnel_same [OF u] request_from_all_same same_lists_trans by blast
qed

section \<open>The counts\<close>

definition client_ok :: "('t, 'b) client_data \<Rightarrow> bool" where
  "client_ok c = (unat (openTunnelsCount c) \<le> length (tunnels c) \<and> length (tunnels c) \<le> unat MAXIMUM_TUNNELS \<and>
     unat (openTCPSessionsCount c) \<le> length (tcpSessions c) \<and> length (tcpSessions c) \<le> MAXIMUM_TCP_SESSIONS)"

lemma client_ok_same: "same_lists st st' \<Longrightarrow> client_ok (fst st') = client_ok (fst st)"
  by (simp add: same_lists_def client_ok_def)

text \<open>The tunnels are as many as before, and so are the open ones.\<close>

definition same_tunnels :: "('t, 'b, 'p) client \<Rightarrow> ('t, 'b, 'p) client \<Rightarrow> bool" where
  "same_tunnels st st' \<longleftrightarrow> length (tunnels (fst st')) = length (tunnels (fst st)) \<and>
     openTunnelsCount (fst st') = openTunnelsCount (fst st) \<and>
     tunnelCandidates (fst st') = tunnelCandidates (fst st) \<and> (client_ok (fst st) \<longrightarrow> client_ok (fst st'))"

lemma same_tunnels_refl [simp]: "same_tunnels st st"
  by (simp add: same_tunnels_def)

lemma same_tunnels_trans: "same_tunnels a b \<Longrightarrow> same_tunnels b c \<Longrightarrow> same_tunnels a c"
  by (simp add: same_tunnels_def)

lemma same_listsD: "same_lists st st' \<Longrightarrow> same_tunnels st st'"
  by (simp add: same_tunnels_def same_lists_def client_ok_def)

lemma offer_packet_length: "offer_packet E p ss w = (h, ss', w') \<Longrightarrow> length ss' = length ss"
  by (induction E p ss w arbitrary: h ss' w' rule: offer_packet.induct) (auto split: prod.splits if_splits)

lemma receive_packet_same:
  assumes "receive_packet E p st = Some st'"
  shows "same_tunnels st st'"
proof -
  obtain c w where st: "st = (c, w)" by (cases st)
  show ?thesis
  proof (cases "protocol (tunnel E) p = IPPROTO_TCP")
    case True
    obtain h ss w1 where o: "offer_packet E p (tcpSessions c) w = (h, ss, w1)" by (metis prod_cases3)
    consider (handled) h | (full) "\<not> h" "length (tcpSessions c) = MAXIMUM_TCP_SESSIONS"
      | (fresh) "\<not> h" "length (tcpSessions c) \<noteq> MAXIMUM_TCP_SESSIONS" by blast
    then show ?thesis
    proof cases
      case handled
      then have "deliver (tunnel E) (written_since w w1) (c\<lparr>tcpSessions := ss\<rparr>, w1) = Some st'"
        using assms True st o by (simp add: receive_packet_def)
      from deliver_same [OF this] show ?thesis
        using offer_packet_length [OF o] st by (auto simp: same_lists_def same_tunnels_def client_ok_def)
    next
      case full
      then show ?thesis using assms True st o by (simp add: receive_packet_def)
    next
      case fresh
      obtain h' s q w2 where r: "receiveFromClient2 (packet E) (network E) (buffer E)
          (new_session2 (network E) (empty_buffer E) (empty_buffer E)) p w = (h', s, q, w2)" by (metis prod_cases4)
      obtain s1 where d: "deliver (tunnel E) (written_since w w2) (c\<lparr>tcpSessions := tcpSessions c @ [s]\<rparr>, w2) = Some s1"
        and e: "st' = ((if state s \<noteq> CLOSED then (fst s1)\<lparr>openTCPSessionsCount := openTCPSessionsCount (fst s1) + 1\<rparr>
          else fst s1), snd s1)"
        using assms True st o fresh r
        by (cases "deliver (tunnel E) (written_since w w2) (c\<lparr>tcpSessions := tcpSessions c @ [s]\<rparr>, w2)")
          (auto simp: receive_packet_def)
      have "unat (openTCPSessionsCount c + 1) \<le> unat (openTCPSessionsCount c) + 1"
        by (simp add: unat_word_ariths)
      then show ?thesis using deliver_same [OF d] e fresh(2) st
        by (auto simp: same_lists_def same_tunnels_def client_ok_def)
    qed
  qed (use assms st in \<open>simp add: receive_packet_def\<close>)
qed

lemma receive_packets_same: "receive_packets E ps st = Some st' \<Longrightarrow> same_tunnels st st'"
proof (induction ps arbitrary: st)
  case (Cons p ps)
  then obtain s1 where "receive_packet E p st = Some s1" and "receive_packets E ps s1 = Some st'"
    by (cases "receive_packet E p st") auto
  then show ?case by (rule same_tunnels_trans [OF receive_packet_same Cons.IH])
qed simp

lemma read_tunnel_same:
  assumes "read_tunnel E i st = Some st'"
  shows "same_tunnels st st'"
proof -
  obtain ps s1 where o: "on_tunnel (tunnel E) i (read_packets (tunnel E)) st = Some (ps, s1)"
    using assms by (cases "on_tunnel (tunnel E) i (read_packets (tunnel E)) st") (auto simp: read_tunnel_def)
  then have "receive_packets E ps s1 = Some st'" using assms by (simp add: read_tunnel_def)
  then show ?thesis by (rule same_tunnels_trans [OF same_listsD [OF on_tunnel_same [OF o]] receive_packets_same])
qed

lemma move_to_back_length [simp]: "i < length xs \<Longrightarrow> length (move_to_back i xs) = length xs"
  by (simp add: move_to_back_def)

lemma following_bound: "i < length xs \<Longrightarrow> i + Suc k \<le> length xs \<Longrightarrow> following i xs + k \<le> length xs"
  by (simp add: following_def)

lemma unat_dec: "0 < unat (x :: u32) \<Longrightarrow> unat (x - 1) = unat x - 1"
  by (metis One_nat_def unat_1 unat_gt_0 unat_minus_one)

text \<open>What the loops keep when \<open>k\<close> tunnels are still to be visited from index \<open>i\<close> on.\<close>

definition visiting :: "nat \<Rightarrow> nat \<Rightarrow> ('t, 'b, 'p) client \<Rightarrow> bool" where
  "visiting k i st \<longleftrightarrow> client_ok (fst st) \<and> k \<le> unat (openTunnelsCount (fst st)) \<and> i + k \<le> length (tunnels (fst st))"

lemma visiting_same: "same_tunnels st st' \<Longrightarrow> visiting k i st \<Longrightarrow> visiting k i st'"
  by (simp add: visiting_def same_tunnels_def)

lemma visiting_next: "visiting (Suc k) i st \<Longrightarrow> visiting k (Suc i) st"
  by (simp add: visiting_def)

lemma visiting_open: "k = unat (openTunnelsCount (fst st)) \<Longrightarrow> client_ok (fst st) \<Longrightarrow> visiting k 0 st"
  by (simp add: visiting_def client_ok_def)

lemma visiting_drop:
  assumes "visiting (Suc k) i (c, w)"
  shows "visiting k (following i (tunnels c))
    (c\<lparr>openTunnelsCount := openTunnelsCount c - 1, tunnels := move_to_back i (tunnels c)\<rparr>, w)"
  using assms following_bound [of i "tunnels c" k] unat_dec [of "openTunnelsCount c"]
  by (auto simp: visiting_def client_ok_def)

lemma drop_tunnel_visiting:
  assumes "visiting (Suc k) i st" and "drop_tunnel E i st = Some (j, st')"
  shows "visiting k j st'"
proof -
  obtain c w where st: "st = (c, w)" by (cases st)
  let ?s1 = "(c\<lparr>openTunnelsCount := openTunnelsCount c - 1, tunnels := move_to_back i (tunnels c)\<rparr>, w)"
  have i: "i < length (tunnels c)" using assms(1) st by (simp add: visiting_def)
  then obtain d: "sendDeleteTunnelRequest (tunnel E) (tunnel_id (tunnel E) (tunnels c ! i)) ?s1 = Some st'"
    and "j = following i (tunnels c)"
    using assms(2) st by (cases "sendDeleteTunnelRequest (tunnel E) (tunnel_id (tunnel E) (tunnels c ! i)) ?s1")
      (auto simp: drop_tunnel_def)
  then show ?thesis
    using visiting_same [OF same_listsD [OF sendDelete_same [OF d]]] visiting_drop assms(1) st by blast
qed

lemma serve_tunnel_visiting:
  assumes "visiting (Suc k) i st" and "serve_tunnel E R i count st = Some (j, count', st')"
  shows "visiting k j st'"
proof -
  obtain n1 s1 where 1: "(if tunnel_in E i (ready_receive R) st
      then map_option (Pair (count - 1)) (read_tunnel E i st) else Some (count, st)) = Some (n1, s1)"
    and r1: "(do { (count, st) \<leftarrow> (if tunnel_in E i (ready_send R) s1
          then map_option (\<lambda>(_, st). (n1 - 1, st)) (on_tunnel (tunnel E) i (flush_packets (tunnel E)) s1)
          else Some (n1, s1));
       if tunnel_in E i (ready_error R) st
       then do { (_, st) \<leftarrow> on_tunnel (tunnel E) i (close_tunnel (tunnel E)) st;
                 (i, st) \<leftarrow> drop_tunnel E i st;
                 Some (i, count - 1, st) }
       else Some (Suc i, count, st) }) = Some (j, count', st')"
    using assms by (fastforce simp: serve_tunnel_def visiting_def Option.bind_eq_Some_conv)
  have v1: "visiting (Suc k) i s1"
    using 1 assms(1) read_tunnel_same [of E i st] by (auto split: if_splits intro: visiting_same)
  obtain n2 s2 where 2: "(if tunnel_in E i (ready_send R) s1
          then map_option (\<lambda>(_, st). (n1 - 1, st)) (on_tunnel (tunnel E) i (flush_packets (tunnel E)) s1)
          else Some (n1, s1)) = Some (n2, s2)"
    and r2: "(if tunnel_in E i (ready_error R) s2
       then do { (_, st) \<leftarrow> on_tunnel (tunnel E) i (close_tunnel (tunnel E)) s2;
                 (i, st) \<leftarrow> drop_tunnel E i st;
                 Some (i, n2 - 1, st) }
       else Some (Suc i, n2, s2)) = Some (j, count', st')"
    using r1 by (fastforce simp: Option.bind_eq_Some_conv)
  have v2: "visiting (Suc k) i s2"
    using 2 v1 visiting_same [OF same_listsD [OF on_tunnel_same]] by (fastforce split: if_splits)
  show ?thesis
  proof (cases "tunnel_in E i (ready_error R) s2")
    case True
    then obtain u s3 where o: "on_tunnel (tunnel E) i (close_tunnel (tunnel E)) s2 = Some (u, s3)"
      and d: "drop_tunnel E i s3 = Some (j, st')"
      using r2 by (fastforce simp: Option.bind_eq_Some_conv)
    show ?thesis using drop_tunnel_visiting [OF visiting_same [OF same_listsD [OF on_tunnel_same [OF o]] v2] d] .
  next
    case False
    then show ?thesis using r2 visiting_next [OF v2] by simp
  qed
qed

lemma serve_tunnels_ok:
  "visiting k i st \<Longrightarrow> serve_tunnels E R k i count st = Some (count', st') \<Longrightarrow> client_ok (fst st')"
proof (induction k arbitrary: i count st)
  case (Suc k)
  show ?case
  proof (cases "count > 0")
    case True
    then obtain j n s1 where "serve_tunnel E R i count st = Some (j, n, s1)" and "serve_tunnels E R k j n s1 = Some (count', st')"
      using Suc.prems(2) by (fastforce simp: Option.bind_eq_Some_conv)
    then show ?thesis using Suc.IH serve_tunnel_visiting [OF Suc.prems(1)] by blast
  qed (use Suc.prems in \<open>simp add: visiting_def\<close>)
qed (simp add: visiting_def)

section \<open>Sessions\<close>

text \<open>The sessions are as many as before, and so are the counted ones and the tunnels.\<close>

definition same_sessions :: "('t, 'b, 'p) client \<Rightarrow> ('t, 'b, 'p) client \<Rightarrow> bool" where
  "same_sessions st st' \<longleftrightarrow> length (tcpSessions (fst st')) = length (tcpSessions (fst st)) \<and>
     openTCPSessionsCount (fst st') = openTCPSessionsCount (fst st) \<and>
     length (tunnels (fst st')) = length (tunnels (fst st)) \<and>
     openTunnelsCount (fst st') = openTunnelsCount (fst st)"

lemma on_session_spec:
  assumes "on_session E i f p st = Some (q, st')"
  obtains s where "i < length (tcpSessions (fst st))" and "tcpSessions (fst st') = (tcpSessions (fst st))[i := s]"
    and "same_sessions st st'"
proof -
  obtain c w where st: "st = (c, w)" by (cases st)
  have i: "i < length (tcpSessions c)" using assms st by (simp add: on_session_def split: if_splits)
  obtain s q' w1 where f: "f (tcpSessions c ! i) p w = Some (s, q', w1)"
    using assms st i by (cases "f (tcpSessions c ! i) p w") (auto simp: on_session_def)
  have d: "deliver (tunnel E) (written_since w w1) (c\<lparr>tcpSessions := (tcpSessions c)[i := s]\<rparr>, w1) = Some st'"
    using assms st i f
    by (cases "deliver (tunnel E) (written_since w w1) (c\<lparr>tcpSessions := (tcpSessions c)[i := s]\<rparr>, w1)")
      (auto simp: on_session_def)
  show thesis
    using that [of s] deliver_same [OF d] i st by (simp add: same_lists_def same_sessions_def)
qed

definition visiting_sessions :: "nat \<Rightarrow> nat \<Rightarrow> ('t, 'b, 'p) client \<Rightarrow> bool" where
  "visiting_sessions k i st \<longleftrightarrow> client_ok (fst st) \<and> k \<le> unat (openTCPSessionsCount (fst st)) \<and>
     i + k \<le> length (tcpSessions (fst st))"

lemma visiting_sessions_same: "same_sessions st st' \<Longrightarrow> visiting_sessions k i st \<Longrightarrow> visiting_sessions k i st'"
  by (simp add: visiting_sessions_def same_sessions_def client_ok_def)

lemma visiting_sessions_less: "visiting_sessions (Suc k) i st \<Longrightarrow> visiting_sessions k i st"
  by (simp add: visiting_sessions_def)

lemma visiting_sessions_next: "visiting_sessions (Suc k) i st \<Longrightarrow> visiting_sessions k (Suc i) st"
  by (simp add: visiting_sessions_def)

lemma visiting_sessions_open:
  "k = unat (openTCPSessionsCount (fst st)) \<Longrightarrow> client_ok (fst st) \<Longrightarrow> visiting_sessions k 0 st"
  by (simp add: visiting_sessions_def client_ok_def)

lemma drop_session_visiting:
  assumes "visiting_sessions (Suc k) i st" and "drop_session i st = (j, st')"
  shows "visiting_sessions k j st'"
proof -
  obtain c w where st: "st = (c, w)" by (cases st)
  show ?thesis
    using assms st following_bound [of i "tcpSessions c" k] unat_dec [of "openTCPSessionsCount c"]
    by (auto simp: visiting_sessions_def client_ok_def drop_session_def)
qed

lemma on_session_visiting:
  "on_session E i f p st = Some (q, st') \<Longrightarrow> visiting_sessions k j st \<Longrightarrow> visiting_sessions k j st'"
  by (elim on_session_spec) (rule visiting_sessions_same)

lemma serve_session_visiting:
  assumes "visiting_sessions (Suc k) i st" and "serve_session E R i count p st = Some (j, count', p', st')"
  shows "visiting_sessions k j st'"
proof -
  let ?rcv = "receiveFromServer2 (packet E) (network E) (buffer E)"
  let ?snd = "\<lambda>s p w. Some (flushDataToServer2 (packet E) (network E) (buffer E) s p w)"
  let ?err = "\<lambda>s p w. Some (onSocketError2 (packet E) s p w)"
  obtain n1 p1 s1 where 1: "(if session_in i (ready_receive R) st
      then map_option (Pair (count - 1)) (on_session E i ?rcv p st) else Some (count, p, st)) = Some (n1, p1, s1)"
    and r1: "(do { (count, p, st) \<leftarrow> (if session_in i (ready_send R) s1
          then map_option (Pair (n1 - 1)) (on_session E i ?snd p1 s1) else Some (n1, p1, s1));
       if session_in i (ready_error R) st
       then do { (p, st) \<leftarrow> on_session E i ?err p st; let (i, st) = drop_session i st; Some (i, count - 1, p, st) }
       else Some (i, count, p, st) }) = Some (j, count', p', st')"
    using assms by (fastforce simp: serve_session_def visiting_sessions_def Option.bind_eq_Some_conv)
  have v1: "visiting_sessions (Suc k) i s1"
    using 1 assms(1) by (auto split: if_splits intro: on_session_visiting)
  obtain n2 p2 s2 where 2: "(if session_in i (ready_send R) s1
          then map_option (Pair (n1 - 1)) (on_session E i ?snd p1 s1) else Some (n1, p1, s1)) = Some (n2, p2, s2)"
    and r2: "(if session_in i (ready_error R) s2
       then do { (p, st) \<leftarrow> on_session E i ?err p2 s2; let (i, st) = drop_session i st; Some (i, n2 - 1, p, st) }
       else Some (i, n2, p2, s2)) = Some (j, count', p', st')"
    using r1 by (fastforce simp: Option.bind_eq_Some_conv)
  have v2: "visiting_sessions (Suc k) i s2"
    using 2 v1 by (auto split: if_splits intro: on_session_visiting)
  show ?thesis
  proof (cases "session_in i (ready_error R) s2")
    case True
    then obtain p3 s3 where o: "on_session E i ?err p2 s2 = Some (p3, s3)"
      and d: "drop_session i s3 = (j, st')"
      using r2 by (cases "on_session E i ?err p2 s2") (auto simp: Let_def split: prod.splits)
    show ?thesis using drop_session_visiting [OF on_session_visiting [OF o v2] d] .
  next
    case False
    then show ?thesis using r2 visiting_sessions_less [OF v2] by simp
  qed
qed

lemma serve_sessions_ok:
  "visiting_sessions k i st \<Longrightarrow> serve_sessions E R k i count p st = Some (count', p', st') \<Longrightarrow> client_ok (fst st')"
proof (induction k arbitrary: i count p st)
  case (Suc k)
  show ?case
  proof (cases "count > 0")
    case True
    then obtain j n q s1 where "serve_session E R i count p st = Some (j, n, q, s1)"
      and "serve_sessions E R k j n q s1 = Some (count', p', st')"
      using Suc.prems(2) by (fastforce simp: Option.bind_eq_Some_conv)
    then show ?thesis using Suc.IH serve_session_visiting [OF Suc.prems(1)] by blast
  qed (use Suc.prems in \<open>simp add: visiting_sessions_def\<close>)
qed (simp add: visiting_sessions_def)

section \<open>The tick\<close>

lemma tick_tunnels_ok:
  "visiting k i st \<Longrightarrow> tick_tunnels E k i st = Some st' \<Longrightarrow> client_ok (fst st')"
proof (induction k arbitrary: i st)
  case (Suc k)
  then obtain ok s1 where o: "on_tunnel (tunnel E) i (tunnel_status (tunnel E)) st = Some (ok, s1)"
    by (cases "on_tunnel (tunnel E) i (tunnel_status (tunnel E)) st") auto
  have v: "visiting (Suc k) i s1" by (rule visiting_same [OF same_listsD [OF on_tunnel_same [OF o]] Suc.prems(1)])
  show ?case
  proof (cases ok)
    case True
    then obtain u s2 where f: "on_tunnel (tunnel E) i (flush_packets (tunnel E)) s1 = Some (u, s2)"
      and t: "tick_tunnels E k (Suc i) s2 = Some st'"
      using Suc.prems(2) o by (cases "on_tunnel (tunnel E) i (flush_packets (tunnel E)) s1") auto
    show ?thesis using Suc.IH [OF visiting_next [OF visiting_same [OF same_listsD [OF on_tunnel_same [OF f]] v]] t] .
  next
    case False
    then obtain j s2 where d: "drop_tunnel E i s1 = Some (j, s2)" and t: "tick_tunnels E k j s2 = Some st'"
      using Suc.prems(2) o by (cases "drop_tunnel E i s1") auto
    show ?thesis using Suc.IH [OF drop_tunnel_visiting [OF v d] t] .
  qed
qed (simp add: visiting_def)

lemma check_session_same:
  "check_session E i st = Some (ok, st') \<Longrightarrow> same_sessions st st'"
  by (auto simp: check_session_def same_sessions_def split: prod.splits if_splits)

lemma tick_sessions_ok:
  "visiting_sessions k i st \<Longrightarrow> tick_sessions E k i p st = Some (p', st') \<Longrightarrow> client_ok (fst st')"
proof (induction k arbitrary: i p st)
  case (Suc k)
  then obtain ok s1 where o: "check_session E i st = Some (ok, s1)"
    by (cases "check_session E i st") auto
  have v: "visiting_sessions (Suc k) i s1" by (rule visiting_sessions_same [OF check_session_same [OF o] Suc.prems(1)])
  show ?case
  proof (cases ok)
    case True
    let ?f = "flushDataToClient2 (packet E) (network E) (buffer E)"
    obtain q s2 where f: "on_session E i ?f p s1 = Some (q, s2)" and t: "tick_sessions E k (Suc i) q s2 = Some (p', st')"
      using Suc.prems(2) o True by (cases "on_session E i ?f p s1") auto
    show ?thesis using Suc.IH [OF visiting_sessions_next [OF on_session_visiting [OF f v]] t] .
  next
    case False
    obtain j s2 where d: "drop_session i s1 = (j, s2)" by (cases "drop_session i s1")
    have t: "tick_sessions E k j p s2 = Some (p', st')" using Suc.prems(2) o False d by simp
    show ?thesis using Suc.IH [OF drop_session_visiting [OF v d] t] .
  qed
qed (simp add: visiting_sessions_def)

section \<open>Admission\<close>

text \<open>No closed tunnel waits to be used again.\<close>

definition all_open :: "('t, 'b) client_data \<Rightarrow> bool" where
  "all_open c = (unat (openTunnelsCount c) = length (tunnels c))"

lemma admit_candidates_ok:
  "client_ok c \<Longrightarrow> all_open c \<Longrightarrow> admit_candidates T fs (c, w) = Some st' \<Longrightarrow>
    client_ok (fst st') \<and> all_open (fst st')"
proof (induction fs arbitrary: c w)
  case (Cons f fs)
  note ok = Cons.prems(1) and all = Cons.prems(2) and adm = Cons.prems(3)
  obtain b w1 where s: "send_object T f (tunnelIDCount c) w = (b, w1)" by (cases "send_object T f (tunnelIDCount c) w")
  consider (full) "openTunnelsCount c = MAXIMUM_TUNNELS" | (failed) "openTunnelsCount c \<noteq> MAXIMUM_TUNNELS" "\<not> b"
    | (taken) "openTunnelsCount c \<noteq> MAXIMUM_TUNNELS" "b" by blast
  then show ?case
  proof cases
    case full
    then show ?thesis using ok all adm by auto
  next
    case failed
    then have "admit_candidates T fs (c, w1) = Some st'" using adm s by simp
    then show ?thesis by (rule Cons.IH [OF ok all])
  next
    case taken
    obtain t w2 where n: "new_tunnel T (tunnelIDCount c) f w1 = (t, w2)" by (cases "new_tunnel T (tunnelIDCount c) f w1")
    let ?c = "c\<lparr>tunnelIDCount := tunnelIDCount c + 1, tunnels := tunnels c @ [t], openTunnelsCount := openTunnelsCount c + 1\<rparr>"
    have len: "unat (openTunnelsCount c) = length (tunnels c)" using all by (simp add: all_open_def)
    then have r: "admit_candidates T fs (?c, w2) = Some st'"
      using adm s n taken by (simp add: Let_def)
    have "unat (openTunnelsCount c) \<noteq> unat MAXIMUM_TUNNELS" using taken(1) by (simp add: word_unat_eq_iff)
    then have lt: "length (tunnels c) < 100" using ok len by (simp add: client_ok_def MAXIMUM_TUNNELS_def)
    then have inc: "unat (openTunnelsCount c + 1) = length (tunnels c) + 1" using len by (simp add: unat_word_ariths)
    have "client_ok ?c" using ok inc lt by (simp add: client_ok_def MAXIMUM_TUNNELS_def)
    moreover have "all_open ?c" using inc by (simp add: all_open_def)
    ultimately show ?thesis using r by (rule Cons.IH)
  qed
qed auto

lemma admit_ok:
  assumes "client_ok (fst st)" and "tunnelCandidates (fst st) = [] \<or> all_open (fst st)" and "admit T st = Some st'"
  shows "client_ok (fst st')"
proof (cases "tunnelCandidates (fst st) = []")
  case False
  then obtain s1 where a: "admit_candidates T (tunnelCandidates (fst st)) st = Some s1"
    and e: "fst st' = (fst s1)\<lparr>tunnelCandidates := []\<rparr>"
    using assms(3) by (cases "admit_candidates T (tunnelCandidates (fst st)) st") (auto simp: admit_def)
  have "all_open (fst st)" using assms(2) False by simp
  then have "client_ok (fst s1)"
    using admit_candidates_ok [of "fst st" T _ "snd st"] assms(1) a by (metis prod.collapse)
  then show ?thesis using e by (simp add: client_ok_def)
qed (use assms in \<open>simp add: admit_def\<close>)

lemma poll_ok: "client_ok (snd (poll E l c)) = client_ok c"
  by (simp add: poll_def evalMaxFD_def client_ok_def Let_def)

lemma tick_client_ok:
  assumes "client_ok (fst st)" and "tick_client E l st = Some (l', st')"
  shows "client_ok (fst st')"
proof -
  obtain c w where st: "st = (c, w)" by (cases st)
  let ?w = "emit EvNow w"
  show ?thesis
  proof (cases "clock (network E) (log w) - lastTickTime l > ms TICK_DELAY")
    case True
    then obtain s1 q where t: "tick_tunnels E (unat (openTunnelsCount c)) 0 (c, ?w) = Some s1"
      and u: "tick_sessions E (unat (openTCPSessionsCount (fst s1))) 0 (tcpPacket l) s1 = Some (q, st')"
      using assms(2) st by (fastforce simp: tick_client_def Let_def Option.bind_eq_Some_conv)
    have "client_ok (fst s1)" using tick_tunnels_ok [OF visiting_open t] assms(1) st by simp
    then show ?thesis using tick_sessions_ok [OF visiting_sessions_open u] by simp
  qed (use assms st in \<open>auto simp: tick_client_def Let_def\<close>)
qed

text \<open>C16. A round of the client handler keeps its counts in order: the open tunnels are no more than the tunnels, the
  counted sessions no more than the sessions, and neither list grows past its maximum. The condition is that
  no tunnel that was closed before waits to be used again while a new socket is admitted.\<close>
theorem handle_round_ok:
  assumes "client_ok (fst st)" and "tunnelCandidates (fst st) = [] \<or> all_open (fst st)"
    and "handle_round E l st = Some (l', st')"
  shows "client_ok (fst st')"
proof -
  obtain c w where a: "admit (tunnel E) st = Some (c, w)"
    using assms(3) by (cases "admit (tunnel E) st") (auto simp: handle_round_def)
  obtain l1 c1 where p: "poll E l c = (l1, c1)" by (cases "poll E l c")
  let ?R = "select_ready E (maxFD c1) w"
  obtain count s1 where t: "serve_tunnels E ?R (unat (openTunnelsCount c1)) 0 (ready_count ?R) (c1, w) = Some (count, s1)"
    and r: "do { (_, p, st) \<leftarrow> serve_sessions E ?R (unat (openTCPSessionsCount (fst s1))) 0 count (tcpPacket l1) s1;
      tick_client E (l1\<lparr>tcpPacket := p\<rparr>) st } = Some (l', st')"
    using assms(3) a p by (fastforce simp: handle_round_def Let_def Option.bind_eq_Some_conv)
  obtain n q s2 where s: "serve_sessions E ?R (unat (openTCPSessionsCount (fst s1))) 0 count (tcpPacket l1) s1 = Some (n, q, s2)"
    and k: "tick_client E (l1\<lparr>tcpPacket := q\<rparr>) s2 = Some (l', st')"
    using r by (fastforce simp: Option.bind_eq_Some_conv)
  have "client_ok c" using admit_ok [OF assms(1,2) a] by simp
  then have "client_ok c1" using poll_ok [of E l c] p by simp
  then have "client_ok (fst s1)" using serve_tunnels_ok [OF visiting_open t] by simp
  then have "client_ok (fst s2)" using serve_sessions_ok [OF visiting_sessions_open s] by simp
  then show ?thesis using tick_client_ok [OF _ k] by simp
qed

section \<open>No step past the end of a list\<close>

text \<open>Tunnels that make no callback.\<close>

definition quiet :: "('t \<Rightarrow> 'p world \<Rightarrow> 'r \<times> 'u callback list \<times> 't \<times> 'p world) \<Rightarrow> bool" where
  "quiet f = (\<forall>t w. fst (snd (f t w)) = [])"

definition quiet_tunnels :: "('t, 'u, 'p) tunnel_ops \<Rightarrow> bool" where
  "quiet_tunnels T = ((\<forall>p. quiet (write_packet T p)) \<and> quiet (read_packets T) \<and> quiet (flush_packets T) \<and>
     quiet (close_tunnel T) \<and> quiet (tunnel_status T) \<and> quiet (request_tunnel T) \<and>
     (\<forall>k. quiet (request_delete T k)) \<and> (\<forall>k f. quiet (reset_tunnel T k f)))"

lemma quiet_tunnelsD [simp]:
  "quiet_tunnels T \<Longrightarrow> quiet (write_packet T p)" "quiet_tunnels T \<Longrightarrow> quiet (read_packets T)"
  "quiet_tunnels T \<Longrightarrow> quiet (flush_packets T)" "quiet_tunnels T \<Longrightarrow> quiet (close_tunnel T)"
  "quiet_tunnels T \<Longrightarrow> quiet (tunnel_status T)" "quiet_tunnels T \<Longrightarrow> quiet (request_tunnel T)"
  "quiet_tunnels T \<Longrightarrow> quiet (request_delete T k)" "quiet_tunnels T \<Longrightarrow> quiet (reset_tunnel T k f)"
  by (simp_all add: quiet_tunnels_def)

lemma run_no_callbacks [simp]: "run_callbacks T [] st = Some st"
  by (simp add: run_callbacks.simps)

lemma on_tunnel_quiet:
  assumes "quiet f" and "i < length (tunnels (fst st))"
  shows "on_tunnel T i f st \<noteq> None"
proof -
  obtain c w where st: "st = (c, w)" by (cases st)
  obtain r cbs t w1 where f: "f (tunnels c ! i) w = (r, cbs, t, w1)" by (metis prod_cases4)
  have "fst (snd (f (tunnels c ! i) w)) = []" using assms(1) by (simp add: quiet_def)
  then show ?thesis using f assms(2) st by (simp add: on_tunnel_def at_tunnel_def)
qed

lemma until_tunnel_quiet:
  assumes "quiet f"
  shows "i + k \<le> length (tunnels (fst st)) \<Longrightarrow> until_tunnel T f k i st \<noteq> None"
proof (induction k arbitrary: i st)
  case (Suc k)
  have "on_tunnel T i f st \<noteq> None" by (rule on_tunnel_quiet [OF assms]) (use Suc.prems in simp)
  then obtain ok s1 where o: "on_tunnel T i f st = Some (ok, s1)" by auto
  then have "Suc i + k \<le> length (tunnels (fst s1))" using on_tunnel_same [OF o] Suc.prems by (simp add: same_lists_def)
  from Suc.IH [OF this] o show ?case by simp
qed simp

lemma sendBack_quiet:
  assumes "quiet_tunnels T" and "client_ok (fst st)"
  shows "sendTCPPacketBack T p st \<noteq> None"
  using until_tunnel_quiet [of "write_packet T p" 0 "unat (openTunnelsCount (fst st))" st T] assms
  by (simp add: sendTCPPacketBack_def client_ok_def)

lemma deliver_quiet:
  assumes "quiet_tunnels T"
  shows "client_ok (fst st) \<Longrightarrow> deliver T ps st \<noteq> None"
proof (induction ps arbitrary: st)
  case (Cons p ps)
  have "sendTCPPacketBack T p st \<noteq> None" by (rule sendBack_quiet [OF assms Cons.prems])
  then obtain s1 where s: "sendTCPPacketBack T p st = Some s1" by auto
  have "client_ok (fst s1)" using Cons.prems client_ok_same [OF sendTCPPacketBack_same [OF s]] by simp
  from Cons.IH [OF this] s show ?case by simp
qed simp

lemma request_tunnels_quiet:
  assumes "quiet_tunnels T"
  shows "i < length (tunnels (fst st)) \<Longrightarrow> request_tunnels T i n st \<noteq> None"
proof (induction n arbitrary: st)
  case (Suc n)
  have "on_tunnel T i (request_tunnel T) st \<noteq> None" by (rule on_tunnel_quiet) (use assms Suc.prems in simp_all)
  then obtain ok s1 where o: "on_tunnel T i (request_tunnel T) st = Some (ok, s1)" by auto
  have "i < length (tunnels (fst s1))" using Suc.prems on_tunnel_same [OF o] by (simp add: same_lists_def)
  from Suc.IH [OF this] o show ?case by simp
qed simp

lemma request_from_all_quiet:
  assumes "quiet_tunnels T"
  shows "i + k \<le> length (tunnels (fst st)) \<Longrightarrow> request_from_all T k i n st \<noteq> None"
proof (induction k arbitrary: i n st)
  case (Suc k)
  have "request_tunnels T i n st \<noteq> None" using request_tunnels_quiet [OF assms, of i st n] Suc.prems by simp
  then obtain m s1 where o: "request_tunnels T i n st = Some (m, s1)" by auto
  have "Suc i + k \<le> length (tunnels (fst s1))" using Suc.prems request_tunnels_same [OF o] by (simp add: same_lists_def)
  from Suc.IH [OF this, of m] o show ?case by simp
qed simp

lemma sendDelete_quiet:
  assumes "quiet_tunnels T" and "unat (openTunnelsCount (fst st)) \<le> length (tunnels (fst st))"
  shows "sendDeleteTunnelRequest T k st \<noteq> None"
proof -
  let ?n = "unat (openTunnelsCount (fst st))"
  have "until_tunnel T (request_delete T k) ?n 0 st \<noteq> None" by (rule until_tunnel_quiet) (use assms in simp_all)
  then obtain j s1 where u: "until_tunnel T (request_delete T k) ?n 0 st = Some (j, s1)" by auto
  have "request_from_all T ?n 0 ?n s1 \<noteq> None"
    by (rule request_from_all_quiet [OF assms(1)])
      (use assms(2) until_tunnel_same [OF u] in \<open>simp add: same_lists_def\<close>)
  then show ?thesis using u by (simp add: sendDeleteTunnelRequest_def Let_def)
qed

lemma receive_packet_quiet:
  assumes "quiet_tunnels (tunnel E)" and "client_ok (fst st)"
  shows "receive_packet E p st \<noteq> None"
proof -
  obtain c w where st: "st = (c, w)" by (cases st)
  obtain h ss w1 where o: "offer_packet E p (tcpSessions c) w = (h, ss, w1)" by (metis prod_cases3)
  obtain h' s q w2 where r: "receiveFromClient2 (packet E) (network E) (buffer E)
          (new_session2 (network E) (empty_buffer E) (empty_buffer E)) p w = (h', s, q, w2)" by (metis prod_cases4)
  have 1: "deliver (tunnel E) (written_since w w1) (c\<lparr>tcpSessions := ss\<rparr>, w1) \<noteq> None"
    using offer_packet_length [OF o] assms(2) st by (intro deliver_quiet [OF assms(1)]) (simp add: client_ok_def)
  have 2: "deliver (tunnel E) (written_since w w2) (c\<lparr>tcpSessions := tcpSessions c @ [s]\<rparr>, w2) \<noteq> None"
    if "length (tcpSessions c) \<noteq> MAXIMUM_TCP_SESSIONS"
    using assms(2) st that by (intro deliver_quiet [OF assms(1)]) (auto simp: client_ok_def)
  show ?thesis using 1 2 o r st by (auto simp: receive_packet_def split: if_splits)
qed

lemma receive_packets_quiet:
  assumes "quiet_tunnels (tunnel E)"
  shows "client_ok (fst st) \<Longrightarrow> receive_packets E ps st \<noteq> None"
proof (induction ps arbitrary: st)
  case (Cons p ps)
  have "receive_packet E p st \<noteq> None" by (rule receive_packet_quiet [OF assms Cons.prems])
  then obtain s1 where s: "receive_packet E p st = Some s1" by auto
  have "client_ok (fst s1)" using Cons.prems receive_packet_same [OF s] by (simp add: same_tunnels_def)
  from Cons.IH [OF this] s show ?case by simp
qed simp

lemma read_tunnel_quiet:
  assumes "quiet_tunnels (tunnel E)" and "client_ok (fst st)" and "i < length (tunnels (fst st))"
  shows "read_tunnel E i st \<noteq> None"
proof -
  have "on_tunnel (tunnel E) i (read_packets (tunnel E)) st \<noteq> None" by (rule on_tunnel_quiet) (use assms in simp_all)
  then obtain ps s1 where o: "on_tunnel (tunnel E) i (read_packets (tunnel E)) st = Some (ps, s1)" by auto
  have "client_ok (fst s1)" using assms(2) client_ok_same [OF on_tunnel_same [OF o]] by simp
  from receive_packets_quiet [OF assms(1) this, of ps] o show ?thesis by (simp add: read_tunnel_def)
qed

lemma drop_tunnel_quiet:
  assumes "quiet_tunnels (tunnel E)" and "visiting (Suc k) i st"
  shows "drop_tunnel E i st \<noteq> None"
proof -
  obtain c w where st: "st = (c, w)" by (cases st)
  let ?s1 = "(c\<lparr>openTunnelsCount := openTunnelsCount c - 1, tunnels := move_to_back i (tunnels c)\<rparr>, w)"
  have i: "i < length (tunnels c)" using assms(2) st by (simp add: visiting_def)
  have "visiting k (following i (tunnels c)) ?s1" using visiting_drop assms(2) st by blast
  then have "sendDeleteTunnelRequest (tunnel E) (tunnel_id (tunnel E) (tunnels c ! i)) ?s1 \<noteq> None"
    by (intro sendDelete_quiet [OF assms(1)]) (simp add: visiting_def client_ok_def)
  then show ?thesis using i st by (auto simp: drop_tunnel_def Let_def)
qed

lemma serve_tunnel_quiet:
  assumes q: "quiet_tunnels (tunnel E)" and v: "visiting (Suc k) i st"
  shows "serve_tunnel E R i count st \<noteq> None"
proof -
  have i: "i < length (tunnels (fst s))" and ok: "client_ok (fst s)" if "visiting (Suc k) i s" for s
    using that by (simp_all add: visiting_def)
  let ?rd = "if tunnel_in E i (ready_receive R) st then map_option (Pair (count - 1)) (read_tunnel E i st) else Some (count, st)"
  have "?rd \<noteq> None" using read_tunnel_quiet [OF q ok [OF v] i [OF v]] by auto
  then obtain n1 s1 where 1: "?rd = Some (n1, s1)" by auto
  have v1: "visiting (Suc k) i s1"
    using 1 v read_tunnel_same [of E i st] by (auto split: if_splits intro: visiting_same)
  let ?fl = "if tunnel_in E i (ready_send R) s1
    then map_option (\<lambda>(_, st). (n1 - 1, st)) (on_tunnel (tunnel E) i (flush_packets (tunnel E)) s1) else Some (n1, s1)"
  have "?fl \<noteq> None" using on_tunnel_quiet [of "flush_packets (tunnel E)" i s1 "tunnel E"] i [OF v1] q by auto
  then obtain n2 s2 where 2: "?fl = Some (n2, s2)" by auto
  have v2: "visiting (Suc k) i s2"
    using 2 v1 visiting_same [OF same_listsD [OF on_tunnel_same]] by (fastforce split: if_splits)
  show ?thesis
  proof (cases "tunnel_in E i (ready_error R) s2")
    case True
    have "on_tunnel (tunnel E) i (close_tunnel (tunnel E)) s2 \<noteq> None" by (rule on_tunnel_quiet) (use i [OF v2] q in simp_all)
    then obtain u s3 where o: "on_tunnel (tunnel E) i (close_tunnel (tunnel E)) s2 = Some (u, s3)" by auto
    have "drop_tunnel E i s3 \<noteq> None"
      by (rule drop_tunnel_quiet [OF q visiting_same [OF same_listsD [OF on_tunnel_same [OF o]] v2]])
    then show ?thesis using i [OF v] 1 2 True o by (auto simp: serve_tunnel_def)
  next
    case False
    then show ?thesis using i [OF v] 1 2 by (simp add: serve_tunnel_def)
  qed
qed

lemma serve_tunnels_quiet:
  assumes "quiet_tunnels (tunnel E)"
  shows "visiting k i st \<Longrightarrow> serve_tunnels E R k i count st \<noteq> None"
proof (induction k arbitrary: i count st)
  case (Suc k)
  have "serve_tunnel E R i count st \<noteq> None" by (rule serve_tunnel_quiet [OF assms Suc.prems])
  then obtain j n s1 where s: "serve_tunnel E R i count st = Some (j, n, s1)" by auto
  have "serve_tunnels E R k j n s1 \<noteq> None" by (rule Suc.IH [OF serve_tunnel_visiting [OF Suc.prems s]])
  then show ?case using s by simp
qed simp

lemma tick_tunnels_quiet:
  assumes q: "quiet_tunnels (tunnel E)"
  shows "visiting k i st \<Longrightarrow> tick_tunnels E k i st \<noteq> None"
proof (induction k arbitrary: i st)
  case (Suc k)
  have i: "i < length (tunnels (fst s))" if "visiting (Suc k) i s" for s using that by (simp add: visiting_def)
  have "on_tunnel (tunnel E) i (tunnel_status (tunnel E)) st \<noteq> None" by (rule on_tunnel_quiet) (use i [OF Suc.prems] q in simp_all)
  then obtain ok s1 where o: "on_tunnel (tunnel E) i (tunnel_status (tunnel E)) st = Some (ok, s1)" by auto
  have v: "visiting (Suc k) i s1" by (rule visiting_same [OF same_listsD [OF on_tunnel_same [OF o]] Suc.prems])
  show ?case
  proof (cases ok)
    case True
    have "on_tunnel (tunnel E) i (flush_packets (tunnel E)) s1 \<noteq> None" by (rule on_tunnel_quiet) (use i [OF v] q in simp_all)
    then obtain u s2 where f: "on_tunnel (tunnel E) i (flush_packets (tunnel E)) s1 = Some (u, s2)" by auto
    have "tick_tunnels E k (Suc i) s2 \<noteq> None"
      by (rule Suc.IH [OF visiting_next [OF visiting_same [OF same_listsD [OF on_tunnel_same [OF f]] v]]])
    then show ?thesis using o f True by simp
  next
    case False
    have "drop_tunnel E i s1 \<noteq> None" by (rule drop_tunnel_quiet [OF q v])
    then obtain j s2 where d: "drop_tunnel E i s1 = Some (j, s2)" by auto
    have "tick_tunnels E k j s2 \<noteq> None" by (rule Suc.IH [OF drop_tunnel_visiting [OF v d]])
    then show ?thesis using o d False by simp
  qed
qed simp

end
