(* ===== verification/HandlerV2_Props.thy ===== *)
theory HandlerV2_Props
  imports HandlerV2_Inv
begin

text \<open>
  What one round of the client handler does: which session a packet reaches, which sessions are served, the
  largest descriptor, and what happens when a closed tunnel is used again. The witnesses are at the end.
\<close>

text \<open>A healthy tunnel passes every status check.\<close>

lemma tick_past_end:
  assumes q: "quiet_tunnels (tunnel E)" and h: "\<And>t w. fst (tunnel_status (tunnel E) t w)"
  shows "length (tunnels (fst st)) < i + k \<Longrightarrow> i \<le> length (tunnels (fst st)) \<Longrightarrow> tick_tunnels E k i st = None"
proof (induction k arbitrary: i st)
  case (Suc k)
  obtain c w where st: "st = (c, w)" by (cases st)
  show ?case
  proof (cases "i < length (tunnels c)")
    case False
    then show ?thesis using st by (simp add: on_tunnel_def at_tunnel_def)
  next
    case True
    have "on_tunnel (tunnel E) i (tunnel_status (tunnel E)) st \<noteq> None"
      by (rule on_tunnel_quiet) (use q True st in simp_all)
    then obtain ok s1 where o: "on_tunnel (tunnel E) i (tunnel_status (tunnel E)) st = Some (ok, s1)" by auto
    obtain r cbs t w1 where f: "tunnel_status (tunnel E) (tunnels c ! i) w = (r, cbs, t, w1)" by (metis prod_cases4)
    then have "ok = r" using o st True by (auto simp: on_tunnel_def at_tunnel_def)
    then have ok: "ok" using f h [of "tunnels c ! i" w] by simp
    have l1: "length (tunnels (fst s1)) = length (tunnels c)" using on_tunnel_same [OF o] st by (simp add: same_lists_def)
    have "on_tunnel (tunnel E) i (flush_packets (tunnel E)) s1 \<noteq> None"
      by (rule on_tunnel_quiet) (use q True l1 in simp_all)
    then obtain u s2 where g: "on_tunnel (tunnel E) i (flush_packets (tunnel E)) s1 = Some (u, s2)" by auto
    have "length (tunnels (fst s2)) = length (tunnels c)" using on_tunnel_same [OF g] l1 by (simp add: same_lists_def)
    then have "tick_tunnels E k (Suc i) s2 = None" using Suc.IH Suc.prems True st by simp
    then show ?thesis using o ok g by simp
  qed
qed simp

text \<open>
  C18. A closed tunnel that is used again is counted twice: with one closed tunnel at the end of the list, one socket
  to admit that can be sent its object, and tunnels that make no callbacks, the count becomes one more than there
  are tunnels. If moreover every tunnel passes its status check, so that none is dropped meanwhile, the next
  tick steps past the end of the list.
\<close>

theorem reused_tunnel_counted_twice:
  assumes "quiet_tunnels (tunnel E)"
    and "tunnelCandidates c = [f]" and "send_object (tunnel E) f (tunnelIDCount c) w = (True, w1)"
    and "unat (openTunnelsCount c) + 1 = length (tunnels c)" and "length (tunnels c) \<le> unat MAXIMUM_TUNNELS"
  shows "\<exists>st. admit (tunnel E) (c, w) = Some st \<and>
     unat (openTunnelsCount (fst st)) = length (tunnels (fst st)) + 1 \<and>
     ((\<forall>t w. fst (tunnel_status (tunnel E) t w)) \<longrightarrow>
        tick_tunnels E (unat (openTunnelsCount (fst st))) 0 st = None)"
proof -
  let ?n = "openTunnelsCount c" let ?k = "tunnelIDCount c"
  let ?c = "c\<lparr>tunnelIDCount := ?k + 1, openTunnelsCount := ?n + 1\<rparr>"
  have lt: "unat ?n < 100" using assms(4,5) by (simp add: MAXIMUM_TUNNELS_def)
  then have ne: "?n \<noteq> MAXIMUM_TUNNELS" by (auto simp: MAXIMUM_TUNNELS_def)
  have "on_tunnel (tunnel E) (unat ?n) (reset_tunnel (tunnel E) ?k f) (?c, w1) \<noteq> None"
    by (rule on_tunnel_quiet) (use assms(1,4) in simp_all)
  then obtain u c2 w2 where o: "on_tunnel (tunnel E) (unat ?n) (reset_tunnel (tunnel E) ?k f) (?c, w1) = Some (u, c2, w2)"
    by auto
  have same: "openTunnelsCount c2 = ?n + 1" "length (tunnels c2) = length (tunnels c)"
    using on_tunnel_same [OF o] by (simp_all add: same_lists_def)
  let ?st = "(c2\<lparr>openTunnelsCount := openTunnelsCount c2 + 1, tunnelCandidates := []\<rparr>, w2)"
  have "admit_candidates (tunnel E) [f] (c, w) = Some (c2\<lparr>openTunnelsCount := openTunnelsCount c2 + 1\<rparr>, w2)"
    using ne assms(3,4) o by (simp add: Let_def)
  then have "admit (tunnel E) (c, w) = Some ?st" using assms(2) by (simp add: admit_def)
  moreover have two: "unat (openTunnelsCount (fst ?st)) = length (tunnels (fst ?st)) + 1"
    using same assms(4) lt by (simp add: unat_word_ariths)
  moreover have "tick_tunnels E (unat (openTunnelsCount (fst ?st))) 0 ?st = None"
    if "\<forall>t w. fst (tunnel_status (tunnel E) t w)"
    by (rule tick_past_end [OF assms(1)]) (use two that in simp_all)
  ultimately show ?thesis by blast
qed

section \<open>The sessions\<close>

lemma offer_packet_first:
  assumes "list_all (\<lambda>t. \<not> canHandle2 (packet E) t p) ss" and "canHandle2 (packet E) s p"
    and "receiveFromClient2 (packet E) (network E) (buffer E) s p w = (h, s', q, w')"
  shows "offer_packet E p (ss @ s # ts) w = (True, ss @ s' # ts, w')"
  using assms(1)
proof (induction ss)
  case Nil
  then show ?case using assms(2,3) by (auto simp: receiveFromClient2_def)
next
  case (Cons t ss)
  then have "receiveFromClient2 (packet E) (network E) (buffer E) t p w = (False, t, p, w)"
    by (simp add: receiveFromClient2_def)
  then show ?case using Cons by simp
qed

lemma dispatch_to_first:
  assumes "protocol (tunnel E) p = IPPROTO_TCP" and "tcpSessions c = ss @ s # ts"
    and "list_all (\<lambda>t. \<not> canHandle2 (packet E) t p) ss" and "canHandle2 (packet E) s p"
    and "receive_packet E p (c, w) = Some (c', w')"
  shows "tcpSessions c' = ss @ fst (snd (receiveFromClient2 (packet E) (network E) (buffer E) s p w)) # ts \<and>
     openTCPSessionsCount c' = openTCPSessionsCount c"
proof -
  obtain h s' q w1 where r: "receiveFromClient2 (packet E) (network E) (buffer E) s p w = (h, s', q, w1)"
    by (metis prod_cases4)
  have "deliver (tunnel E) (written_since w w1) (c\<lparr>tcpSessions := ss @ s' # ts\<rparr>, w1) = Some (c', w')"
    using assms(5) offer_packet_first [OF assms(3,4) r, of ts] assms(1,2) by (simp add: receive_packet_def)
  from deliver_same [OF this] show ?thesis using r by (simp add: same_lists_def)
qed

text \<open>C17. A packet goes to the first session in the list that is closed or belongs to its connection, every other session
  stays as it is, and the count of the sessions that are served does not change, also when the packet opens a
  session that was closed.\<close>
theorem packet_dispatch:
  assumes "protocol (tunnel E) p = IPPROTO_TCP" and "tcpSessions c = ss @ s # ts"
    and "list_all (\<lambda>t. \<not> canHandle2 (packet E) t p) ss" and "canHandle2 (packet E) s p"
    and "receive_packet E p (c, w) = Some (c', w')"
  shows "tcpSessions c' = ss @ fst (snd (receiveFromClient2 (packet E) (network E) (buffer E) s p w)) # ts \<and>
     openTCPSessionsCount c' = openTCPSessionsCount c"
  by (rule dispatch_to_first [OF assms])

text \<open>A closed session that has not been moved to the end of the list takes the packets of every connection behind
  it: a packet that is not a SYN then reaches no session.\<close>
lemma closed_session_swallows:
  assumes "protocol (tunnel E) p = IPPROTO_TCP" and "tcpSessions c = ss @ s # ts"
    and "list_all (\<lambda>t. \<not> canHandle2 (packet E) t p) ss" and "state s = CLOSED" and "\<not> isSyn (packet E) p"
    and "receive_packet E p (c, w) = Some (c', w')"
  shows "tcpSessions c' = tcpSessions c"
proof -
  have can: "canHandle2 (packet E) s p" using assms(4) by (simp add: canHandle2_def)
  have "fst (snd (receiveFromClient2 (packet E) (network E) (buffer E) s p w)) = s"
    using assms(4,5) can by (simp add: receiveFromClient2_def receiveReset2_def case_prod_unfold)
  then show ?thesis using dispatch_to_first [OF assms(1-3) can assms(6)] assms(2) by simp
qed

lemma same_sessions_refl [simp]: "same_sessions st st"
  by (simp add: same_sessions_def)

lemma on_session_same: "on_session E i f p st = Some (q, st') \<Longrightarrow> same_sessions st st'"
  by (elim on_session_spec)

lemma on_session_others:
  "on_session E i f p st = Some (q, st') \<Longrightarrow> j \<noteq> i \<Longrightarrow> tcpSessions (fst st') ! j = tcpSessions (fst st) ! j"
  by (elim on_session_spec) simp

lemma serve_session_stays:
  assumes "ready_error R = {}" and "serve_session E R i count p st = Some (j, count', p', st')"
  shows "j = i" and "same_sessions st st'" and "n \<noteq> i \<Longrightarrow> tcpSessions (fst st') ! n = tcpSessions (fst st) ! n"
proof -
  let ?rcv = "receiveFromServer2 (packet E) (network E) (buffer E)"
  let ?snd = "\<lambda>s p w. Some (flushDataToServer2 (packet E) (network E) (buffer E) s p w)"
  obtain n1 p1 s1 where 1: "(if session_in i (ready_receive R) st
      then map_option (Pair (count - 1)) (on_session E i ?rcv p st) else Some (count, p, st)) = Some (n1, p1, s1)"
    and 2: "(if session_in i (ready_send R) s1
          then map_option (Pair (n1 - 1)) (on_session E i ?snd p1 s1) else Some (n1, p1, s1)) = Some (count', p', st')"
    and "i = j"
    using assms by (auto simp: serve_session_def session_in_def Option.bind_eq_Some_conv split: if_splits)
  then show "j = i" by simp
  have "same_sessions st s1" "same_sessions s1 st'"
    using 1 2 by (auto split: if_splits intro: on_session_same)
  then show "same_sessions st st'" by (simp add: same_sessions_def)
  assume n: "n \<noteq> i"
  have "tcpSessions (fst s1) ! n = tcpSessions (fst st) ! n"
    using 1 n by (auto split: if_splits dest: on_session_others)
  moreover have "tcpSessions (fst st') ! n = tcpSessions (fst s1) ! n"
    using 2 n by (auto split: if_splits dest: on_session_others)
  ultimately show "tcpSessions (fst st') ! n = tcpSessions (fst st) ! n" by simp
qed

lemma serve_sessions_stays:
  assumes "ready_error R = {}"
  shows "serve_sessions E R k i count p st = Some (count', p', st') \<Longrightarrow> n \<noteq> i \<Longrightarrow>
    tcpSessions (fst st') ! n = tcpSessions (fst st) ! n \<and> length (tcpSessions (fst st')) = length (tcpSessions (fst st))"
proof (induction k arbitrary: count p st)
  case (Suc k)
  show ?case
  proof (cases "count > 0")
    case True
    then obtain j m q s1 where s: "serve_session E R i count p st = Some (j, m, q, s1)"
      and r: "serve_sessions E R k j m q s1 = Some (count', p', st')"
      using Suc.prems(1) by (fastforce simp: Option.bind_eq_Some_conv)
    note t = serve_session_stays [OF assms s]
    show ?thesis using Suc.IH [of m q s1] r t(1,2) t(3) [OF Suc.prems(2)] Suc.prems(2) by (simp add: same_sessions_def)
  qed (use Suc.prems in simp)
qed simp

text \<open>C19. The loop that serves the sessions never leaves the first one: unless a socket failed, every other session is
  as it was, whatever \<open>select\<close> answered and however many sessions are counted.\<close>
theorem only_first_session_served:
  assumes "ready_error R = {}" and "serve_sessions E R k 0 count p st = Some (count', p', st')"
  shows "tl (tcpSessions (fst st')) = tl (tcpSessions (fst st))"
proof (rule nth_equalityI)
  show "length (tl (tcpSessions (fst st'))) = length (tl (tcpSessions (fst st)))"
    using serve_sessions_stays [OF assms, of 1] by simp
  show "tl (tcpSessions (fst st')) ! i = tl (tcpSessions (fst st)) ! i" if "i < length (tl (tcpSessions (fst st')))" for i
    using serve_sessions_stays [OF assms, of "Suc i"] that by (simp add: nth_tl)
qed

section \<open>The largest descriptor\<close>

lemma fold_max:
  "fold (\<lambda>x r. if P x then max (g x) r else r) xs (a :: int) = Max (insert a (g ` {x \<in> set xs. P x}))"
proof -
  have "fold (\<lambda>x r. if P x then max (g x) r else r) xs a = fold max (map g (filter P xs)) a"
    by (induction xs arbitrary: a) simp_all
  also have "\<dots> = Max (set (a # map g (filter P xs)))"
    by (simp only: Max.set_eq_fold)
  finally show ?thesis by simp
qed

lemma Max_insert_Max:
  assumes "finite A" and "A \<noteq> {}" and "finite B"
  shows "Max (insert (Max A) B) = Max (A \<union> (B :: int set))"
  using assms by (cases "B = {}") (simp_all add: Max_Un)

text \<open>\<open>evalMaxFD\<close> computes one more than the largest descriptor of an open tunnel or of a session that is not
  closed, and zero when there is none.\<close>
theorem evalMaxFD_is_maximum:
  "maxFD (evalMaxFD T c) = Max ({0} \<union> (\<lambda>t. tunnel_socket T t + 1) ` {t \<in> set (tunnels c). tunnel_open T t} \<union>
     (\<lambda>s. socket s + 1) ` {s \<in> set (tcpSessions c). state s \<noteq> CLOSED})"
proof -
  let ?A = "insert 0 ((\<lambda>t. tunnel_socket T t + 1) ` {t \<in> set (tunnels c). tunnel_open T t})"
  let ?B = "(\<lambda>s. socket s + 1) ` {s \<in> set (tcpSessions c). state s \<noteq> CLOSED}"
  have "Max (insert (Max ?A) ?B) = Max (?A \<union> ?B)" by (rule Max_insert_Max) simp_all
  then show ?thesis by (simp add: evalMaxFD_def fold_max)
qed

text \<open>As long as the counts are in order and the tunnels make no callbacks, the loop that serves the tunnels and
  the loop that checks them stay inside the list of tunnels and end, whatever \<open>select\<close> answers.\<close>
theorem tunnel_loops_in_bounds:
  assumes "quiet_tunnels (tunnel E)" and "client_ok c"
  shows "serve_tunnels E R (unat (openTunnelsCount c)) 0 count (c, w) \<noteq> None \<and>
     tick_tunnels E (unat (openTunnelsCount c)) 0 (c, w) \<noteq> None"
proof -
  have "visiting (unat (openTunnelsCount c)) 0 (c, w)" by (rule visiting_open) (use assms(2) in simp_all)
  then show ?thesis using serve_tunnels_quiet tick_tunnels_quiet assms(1) by blast
qed

section \<open>Witnesses\<close>

text \<open>A tunnel that is its socket, takes every packet and never has one.\<close>

definition demo_tunnel :: "(fd, unit, demo_packet) tunnel_ops" where
  "demo_tunnel = \<lparr>tunnel_socket = (\<lambda>t. t), tunnel_id = (\<lambda>t. word_of_int t), tunnel_open = (\<lambda>t. True),
     send_object = (\<lambda>f k w. (True, w)), new_tunnel = (\<lambda>k f w. (f, w)), reset_tunnel = (\<lambda>k f t w. ((), [], f, w)),
     read_packets = (\<lambda>t w. ([], [], t, w)), write_packet = (\<lambda>p t w. (True, [], t, w)),
     flush_packets = (\<lambda>t w. ((), [], t, w)), close_tunnel = (\<lambda>t w. ((), [], t, w)),
     tunnel_status = (\<lambda>t w. (True, [], t, w)), request_tunnel = (\<lambda>t w. (True, [], t, w)),
     request_delete = (\<lambda>k t w. (True, [], t, w)), send_unsent = (\<lambda>u t w. (u, [], t, w)),
     remaining = (\<lambda>u. False), protocol = (\<lambda>p. 6)\<rparr>"

definition demo_outside :: "(fd, unit, byte list, demo_packet) outside" where
  "demo_outside = \<lparr>packet = demo_ops2, network = demo_net2 (Some 0) None [] 1000000000, buffer = demo_buffer,
     empty_buffer = [], tunnel = demo_tunnel,
     select_ready = (\<lambda>n w. \<lparr>ready_count = 1, ready_receive = {4}, ready_send = {7}, ready_error = {}\<rparr>)\<rparr>"

definition demo_locals :: "demo_packet locals" where
  "demo_locals = \<lparr>tcpPacket = demo_packet, lastTickTime = 0, startTunnelsCount = 0, startTCPSessionsCount = 0\<rparr>"

lemma demo_outside_simps [simp]:
  "packet demo_outside = demo_ops2" "network demo_outside = demo_net2 (Some 0) None [] 1000000000"
  "buffer demo_outside = demo_buffer" "tunnel demo_outside = demo_tunnel" "protocol demo_tunnel p = 6"
  "send_object demo_tunnel f k w = (True, w)" "new_tunnel demo_tunnel k f w = (f, w)"
  "fst (tunnel_status demo_tunnel t w)" "tunnel_open demo_tunnel t" "tunnel_socket demo_tunnel t = t"
  by (simp_all add: demo_outside_def demo_tunnel_def)

lemma demo_quiet: "quiet_tunnels demo_tunnel"
  by (simp add: quiet_tunnels_def quiet_def demo_tunnel_def)

text \<open>One tunnel and two established sessions of different clients.\<close>

definition demo_client :: "(fd, byte list) client_data" where
  "demo_client = new_client\<lparr>started := True, shouldStop := False, tunnels := [4], openTunnelsCount := 1,
     tcpSessions := [demo_session2\<lparr>clientAddress := (3, 3)\<rparr>, demo_session2], openTCPSessionsCount := 2\<rparr>"

lemma demo_client_ok: "client_ok demo_client"
  by (simp add: client_ok_def demo_client_def new_client_def MAXIMUM_TUNNELS_def MAXIMUM_TCP_SESSIONS_def)

lemma tunnel_loops_in_bounds_witness:
  "serve_tunnels demo_outside (select_ready demo_outside 5 empty_world) (unat (openTunnelsCount demo_client)) 0 1
     (demo_client, empty_world) \<noteq> None"
  using tunnel_loops_in_bounds [OF _ demo_client_ok, of demo_outside] demo_quiet by simp

lemma reused_tunnel_counted_twice_witness:
  "\<exists>st. admit demo_tunnel (demo_client\<lparr>openTunnelsCount := 0, tunnelCandidates := [5]\<rparr>, empty_world) = Some st \<and>
     unat (openTunnelsCount (fst st)) = length (tunnels (fst st)) + 1 \<and>
     tick_tunnels demo_outside (unat (openTunnelsCount (fst st))) 0 st = None"
  using reused_tunnel_counted_twice [of demo_outside "demo_client\<lparr>openTunnelsCount := 0, tunnelCandidates := [5]\<rparr>" 5
      empty_world empty_world] demo_quiet
  by (auto simp: demo_client_def new_client_def MAXIMUM_TUNNELS_def)

text \<open>A segment for the second of them.\<close>

definition demo_from_client :: demo_packet where
  "demo_from_client = demo_packet\<lparr>dp_ack := True, dp_seq := 501, dp_ackno := 1001, dp_data := [65]\<rparr>"

lemma packet_dispatch_witness:
  "\<exists>c w. receive_packet demo_outside demo_from_client (demo_client, empty_world) = Some (c, w) \<and>
     tcpSessions c ! 0 = demo_session2\<lparr>clientAddress := (3, 3)\<rparr> \<and> openTCPSessionsCount c = 2"
proof -
  have "receive_packet demo_outside demo_from_client (demo_client, empty_world) \<noteq> None"
    by (rule receive_packet_quiet) (simp_all add: demo_quiet demo_client_ok)
  then obtain c w where r: "receive_packet demo_outside demo_from_client (demo_client, empty_world) = Some (c, w)" by auto
  show ?thesis
    using packet_dispatch [OF _ _ _ _ r, of "[demo_session2\<lparr>clientAddress := (3, 3)\<rparr>]" demo_session2 "[]"] r
    by (simp add: demo_client_def new_client_def demo_session2_def demo_from_client_def canHandle2_def IPPROTO_TCP_def demo_packet_def)
qed

lemma closed_session_swallows_witness:
  "\<exists>c w. receive_packet demo_outside demo_from_client
       (demo_client\<lparr>tcpSessions := [demo_session2\<lparr>state := CLOSED\<rparr>, demo_session2]\<rparr>, empty_world) = Some (c, w) \<and>
     tcpSessions c = [demo_session2\<lparr>state := CLOSED\<rparr>, demo_session2]"
proof -
  let ?c = "demo_client\<lparr>tcpSessions := [demo_session2\<lparr>state := CLOSED\<rparr>, demo_session2]\<rparr>"
  have "receive_packet demo_outside demo_from_client (?c, empty_world) \<noteq> None"
    using demo_client_ok by (intro receive_packet_quiet) (simp_all add: demo_quiet client_ok_def demo_client_def)
  then obtain c w where r: "receive_packet demo_outside demo_from_client (?c, empty_world) = Some (c, w)" by auto
  show ?thesis
    using closed_session_swallows [OF _ _ _ _ _ r, of "[]" "demo_session2\<lparr>state := CLOSED\<rparr>" "[demo_session2]"] r
    by (simp add: demo_from_client_def IPPROTO_TCP_def demo_packet_def)
qed

lemma only_first_session_served_witness:
  "\<exists>n p st. serve_sessions demo_outside \<lparr>ready_count = 2, ready_receive = {}, ready_send = {7, 8}, ready_error = {}\<rparr> 2 0 2
       demo_packet (demo_client, empty_world) = Some (n, p, st) \<and> tcpSessions (fst st) ! 1 = demo_session2"
proof -
  let ?R = "\<lparr>ready_count = 2, ready_receive = {}, ready_send = {7, 8}, ready_error = {}\<rparr>"
  have "serve_sessions demo_outside ?R 2 0 2 demo_packet (demo_client, empty_world) \<noteq> None"
    by (simp add: numeral_2_eq_2 serve_session_def session_in_def on_session_def demo_client_def new_client_def
        demo_session2_def new_session2_def flushDataToServer2_def demo_net2_def demo_buffer_def resetClient2_def
        Let_def closeSession2_def setEnds2_def written_since_def descriptor_defs demo_packet_def empty_world_def
        sendTCPPacketBack_def on_tunnel_def at_tunnel_def demo_tunnel_def)
  then obtain n p st where r: "serve_sessions demo_outside ?R 2 0 2 demo_packet (demo_client, empty_world) = Some (n, p, st)"
    by auto
  have "tl (tcpSessions (fst st)) = [demo_session2]"
    using only_first_session_served [OF _ r] by (simp add: demo_client_def)
  then have "tcpSessions (fst st) ! 1 = demo_session2" by (cases "tcpSessions (fst st)") simp_all
  then show ?thesis using r by blast
qed

lemma handle_round_ok_witness:
  "\<exists>l st. handle_round demo_outside demo_locals
       (new_client\<lparr>started := True, shouldStop := False, tunnelCandidates := [4]\<rparr>, empty_world) = Some (l, st) \<and>
     client_ok (fst st) \<and> tunnels (fst st) = [4]"
proof -
  let ?c = "new_client\<lparr>started := True, shouldStop := False, tunnelCandidates := [4]\<rparr> :: (fd, byte list) client_data"
  have "map_option (\<lambda>(l, st). tunnels (fst st)) (handle_round demo_outside demo_locals (?c, empty_world)) = Some [4]"
    by (simp add: new_client_def handle_round_def admit_def MAXIMUM_TUNNELS_def Let_def poll_def evalMaxFD_def
      demo_outside_def demo_tunnel_def demo_locals_def tick_client_def demo_net2_def ms_def TICK_DELAY_def
      serve_tunnel_def tunnel_in_def read_tunnel_def on_tunnel_def at_tunnel_def)
  then obtain l st where r: "handle_round demo_outside demo_locals (?c, empty_world) = Some (l, st)"
    and t: "tunnels (fst st) = [4]" by auto
  have "client_ok (fst (?c, empty_world :: demo_packet world))"
    by (simp add: client_ok_def new_client_def)
  from handle_round_ok [OF this _ r] t r show ?thesis
    by (auto simp: all_open_def new_client_def)
qed

end
