(* ===== verification/Constants.thy ===== *)
theory Constants
  imports TunPrelude
begin

text \<open>
  \<open>src/Constants.h\<close>: the segment types of the tunnel protocol and the bounds on the size of a
  packet.
\<close>

definition DATA_SEGMENT :: "8 word" where "DATA_SEGMENT = 1"
definition PING_SEGMENT :: "8 word" where "PING_SEGMENT = 2"
definition PING_RESPONSE_SEGMENT :: "8 word" where "PING_RESPONSE_SEGMENT = 3"
definition NEW_TUNNEL_REQUEST_SEGMENT :: "8 word" where "NEW_TUNNEL_REQUEST_SEGMENT = 4"
definition NEW_TUNNEL_RESPONSE_SEGMENT :: "8 word" where "NEW_TUNNEL_RESPONSE_SEGMENT = 5"
definition DELETE_TUNNEL_SEGMENT :: "8 word" where "DELETE_TUNNEL_SEGMENT = 6"

lemmas segment_defs = DATA_SEGMENT_def PING_SEGMENT_def PING_RESPONSE_SEGMENT_def
  NEW_TUNNEL_REQUEST_SEGMENT_def NEW_TUNNEL_RESPONSE_SEGMENT_def DELETE_TUNNEL_SEGMENT_def

definition MIN_PACKET_SIZE :: int where "MIN_PACKET_SIZE = 20"
definition MAX_PACKET_SIZE :: int where "MAX_PACKET_SIZE = 576 * 4"

text \<open>A \<open>char\<close> is signed.\<close>

definition isValidSegmentType :: "8 word \<Rightarrow> bool" where
  "isValidSegmentType t = (0 < sint t \<and> sint t < 7)"

definition isValidPacketSize :: "u16 \<Rightarrow> bool" where
  "isValidPacketSize n = (MIN_PACKET_SIZE < uint n \<and> uint n < MAX_PACKET_SIZE)"

text \<open>
  The valid segment types are exactly the six that have a name.
\<close>

theorem segment_types:
  "isValidSegmentType t \<longleftrightarrow> t \<in> {DATA_SEGMENT, PING_SEGMENT, PING_RESPONSE_SEGMENT,
     NEW_TUNNEL_REQUEST_SEGMENT, NEW_TUNNEL_RESPONSE_SEGMENT, DELETE_TUNNEL_SEGMENT}"
proof
  assume "isValidSegmentType t"
  then have "sint t \<in> {1, 2, 3, 4, 5, 6}" by (auto simp: isValidSegmentType_def)
  then have "word_of_int (sint t) \<in> (word_of_int ` {1, 2, 3, 4, 5, 6} :: 8 word set)" by blast
  then show "t \<in> {DATA_SEGMENT, PING_SEGMENT, PING_RESPONSE_SEGMENT,
     NEW_TUNNEL_REQUEST_SEGMENT, NEW_TUNNEL_RESPONSE_SEGMENT, DELETE_TUNNEL_SEGMENT}"
    by (simp add: segment_defs)
next
  assume "t \<in> {DATA_SEGMENT, PING_SEGMENT, PING_RESPONSE_SEGMENT,
     NEW_TUNNEL_REQUEST_SEGMENT, NEW_TUNNEL_RESPONSE_SEGMENT, DELETE_TUNNEL_SEGMENT}"
  then show "isValidSegmentType t"
    by (auto simp: isValidSegmentType_def segment_defs)
qed

end
