(* ===== verification/TunBytes.thy ===== *)
theory TunBytes
  imports TunPrelude
begin

unbundle bit_operations_syntax

text \<open>
  Machine integers in memory, on the little-endian machine the programs run on: writing and reading
  16- and 32-bit words as bytes, and the conversions to network order.
\<close>

definition le16 :: "u16 \<Rightarrow> byte list" where
  "le16 x = [ucast x, ucast (drop_bit 8 x)]"

definition le32 :: "u32 \<Rightarrow> byte list" where
  "le32 x = [ucast x, ucast (drop_bit 8 x), ucast (drop_bit 16 x), ucast (drop_bit 24 x)]"

definition rd16 :: "byte \<Rightarrow> byte \<Rightarrow> u16" where
  "rd16 a b = ucast a OR push_bit 8 (ucast b)"

definition rd32 :: "byte \<Rightarrow> byte \<Rightarrow> byte \<Rightarrow> byte \<Rightarrow> u32" where
  "rd32 a b c d = ucast a OR push_bit 8 (ucast b) OR push_bit 16 (ucast c) OR push_bit 24 (ucast d)"

definition htons :: "u16 \<Rightarrow> u16" where
  "htons x = rd16 (ucast (drop_bit 8 x)) (ucast x)"

definition htonl :: "u32 \<Rightarrow> u32" where
  "htonl x = rd32 (ucast (drop_bit 24 x)) (ucast (drop_bit 16 x)) (ucast (drop_bit 8 x)) (ucast x)"

lemma length_le [simp]: "length (le16 x) = 2" "length (le32 y) = 4"
  by (simp_all add: le16_def le32_def)

lemma rd16_le16 [simp]: "rd16 (ucast x) (ucast (drop_bit 8 x)) = x"
  unfolding rd16_def by (rule bit_word_eqI) (auto simp: bit_simps)

lemma rd32_le32 [simp]:
  "rd32 (ucast x) (ucast (drop_bit 8 x)) (ucast (drop_bit 16 x)) (ucast (drop_bit 24 x)) = x"
  unfolding rd32_def
proof (rule bit_word_eqI)
  fix n
  assume "n < LENGTH(32)"
  then consider "n < 8" | "8 \<le> n" "n < 16" | "16 \<le> n" "n < 24" | "24 \<le> n" "n < 32" by fastforce
  then show "bit (ucast (ucast x :: byte) OR push_bit 8 (ucast (ucast (drop_bit 8 x) :: byte)) OR
      push_bit 16 (ucast (ucast (drop_bit 16 x) :: byte)) OR
      push_bit 24 (ucast (ucast (drop_bit 24 x) :: byte)) :: u32) n = bit x n"
    by cases (auto simp: bit_simps)
qed

lemma htonl_htonl [simp]: "htonl (htonl x) = x"
proof -
  have "ucast (rd32 a b c d) = a" "ucast (drop_bit 8 (rd32 a b c d)) = b"
    "ucast (drop_bit 16 (rd32 a b c d)) = c" "ucast (drop_bit 24 (rd32 a b c d)) = d"
    for a b c d :: byte
    unfolding rd32_def by (rule bit_word_eqI; auto simp: bit_simps dest: bit_imp_le_length)+
  then show ?thesis unfolding htonl_def by simp
qed

lemma byte_less: "unat (b :: byte) < 256"
  using unsigned_less [of b] by simp

lemma unat_ucast_byte [simp]: "unat (ucast (b :: byte) :: u16) = unat b"
  using byte_less [of b] by (simp add: unsigned_ucast_eq take_bit_nat_eq_self)

lemma unat_rd16: "unat (rd16 a b) = unat a + 256 * unat b"
proof -
  have "(ucast a :: u16) AND push_bit 8 (ucast b) = 0"
    by (rule bit_word_eqI) (auto simp: bit_simps dest: bit_imp_le_length)
  then have "rd16 a b = ucast a + push_bit 8 (ucast b)"
    unfolding rd16_def by (metis word_plus_and_or add_0)
  moreover have "unat (push_bit 8 (ucast b :: u16)) = 256 * unat b"
    using byte_less [of b] by (simp add: push_bit_eq_mult unat_word_ariths)
  ultimately show ?thesis
    using byte_less [of a] byte_less [of b] by (simp add: unat_word_ariths)
qed

end
