(* ===== verification/TcpRaw.thy ===== *)
theory TcpRaw
  imports TunBytes
begin

unbundle bit_operations_syntax

text \<open>
  The hand-made TCP client of \<open>src/TCPRaw.c\<close>: its checksum, the packets it builds byte by byte, and
  the reader of sequence numbers. The struct members are kept as the machine has them, a
  little-endian one; the byte lists are the memory the code sends.
\<close>

section \<open>The checksum\<close>

text \<open>
  The loop over the 16-bit words of the buffer. A read past the end of the buffer is undefined
  and makes the result \<open>None\<close>; the index does not wrap, because the loop ends below the limit.
\<close>

function sum_words :: "byte list \<Rightarrow> nat \<Rightarrow> nat \<Rightarrow> u32 \<Rightarrow> (u32 \<times> nat) option" where
  "sum_words buf limit i acc =
    (if i < limit then
       if i + 1 < length buf
       then sum_words buf limit (i + 2) (acc + ucast (rd16 (buf ! i) (buf ! (i + 1))))
       else None
     else Some (acc, i))"
  by pat_completeness auto
termination by (relation "measure (\<lambda>(buf, limit, i, acc). limit - i)") auto

declare sum_words.simps [simp del]

lemma low_high:
  "unat (acc AND 0xFFFF :: u32) = unat acc mod 65536" "unat (drop_bit 16 (acc :: u32)) = unat acc div 65536"
proof -
  have "acc AND 0xFFFF = take_bit 16 acc"
    by (simp add: take_bit_eq_mask mask_eq_exp_minus_1)
  then show "unat (acc AND 0xFFFF :: u32) = unat acc mod 65536"
    by (simp only: unsigned_take_bit_eq) (simp add: take_bit_eq_mod)
  show "unat (drop_bit 16 (acc :: u32)) = unat acc div 65536"
    by (simp only: unat_drop_bit_eq) (simp add: drop_bit_eq_div)
qed

lemma fold_step:
  "unat ((acc AND 0xFFFF) + drop_bit 16 (acc :: u32)) = unat acc mod 65536 + unat acc div 65536"
proof -
  have "unat acc div 65536 < 65536" using u32_less [of acc] by (simp add: less_mult_imp_div_less)
  moreover have "unat acc mod 65536 < 65536" by simp
  ultimately show ?thesis
    using unat_add_small' [of "acc AND 0xFFFF" "drop_bit 16 acc"] by (simp only: low_high) simp
qed

function fold_carry :: "u32 \<Rightarrow> u32" where
  "fold_carry acc =
    (if drop_bit 16 acc \<noteq> 0 then fold_carry ((acc AND 0xFFFF) + drop_bit 16 acc) else acc)"
  by pat_completeness auto
termination
proof (relation "measure unat")
  fix acc :: u32
  assume "drop_bit 16 acc \<noteq> 0"
  then have "unat acc div 65536 \<noteq> 0" using low_high(2) [of acc] by (metis unat_eq_zero)
  then have "0 < unat acc div 65536" by simp
  moreover have "unat acc = unat acc mod 65536 + 65536 * (unat acc div 65536)" by simp
  ultimately show "((acc AND 0xFFFF) + drop_bit 16 acc, acc) \<in> measure unat"
    by (simp only: in_measure fold_step)
qed simp

declare fold_carry.simps [simp del]

definition checksum :: "byte list \<Rightarrow> u32 \<Rightarrow> u16 option" where
  "checksum buf sz =
    (case sum_words buf (unat (sz - 1)) 0 0 of None \<Rightarrow> None
     | Some (acc, i) \<Rightarrow>
         if sz AND 1 \<noteq> 0
         then if i < length buf then Some (ucast (NOT (fold_carry (acc + ucast (buf ! i))))) else None
         else Some (ucast (NOT (fold_carry acc))))"

text \<open>The reference: RFC 1071, on natural numbers.\<close>

fun words16 :: "byte list \<Rightarrow> nat list" where
  "words16 (a # b # r) = (unat a + 256 * unat b) # words16 r"
| "words16 [a] = [unat a]"
| "words16 [] = []"

definition ones_sum :: "byte list \<Rightarrow> nat" where
  "ones_sum bs = sum_list (words16 bs)"

lemma words16_append: "even (length xs) \<Longrightarrow> words16 (xs @ ys) = words16 xs @ words16 ys"
  by (induction xs rule: words16.induct) auto

lemma ones_sum_append: "even (length xs) \<Longrightarrow> ones_sum (xs @ ys) = ones_sum xs + ones_sum ys"
  by (simp add: ones_sum_def words16_append)

lemma ones_sum_le16: "ones_sum (le16 x) = unat x"
  using unat_rd16 [of "ucast x" "ucast (drop_bit 8 x)"] by (simp add: ones_sum_def le16_def)

lemma ones_sum_bound: "ones_sum bs \<le> 65535 * ((length bs + 1) div 2)"
proof (induction bs rule: words16.induct)
  case (1 a b r)
  have "unat a + 256 * unat b \<le> 65535" using byte_less [of a] byte_less [of b] by linarith
  with 1 show ?case by (simp add: ones_sum_def)
next
  case (2 a)
  then show ?case using byte_less [of a] by (simp add: ones_sum_def)
qed (simp add: ones_sum_def)

lemma fold_carry_spec:
  "unat (fold_carry s) < 65536 \<and> unat (fold_carry s) mod 65535 = unat s mod 65535 \<and>
   (fold_carry s = 0 \<longleftrightarrow> s = 0)"
proof (induction s rule: fold_carry.induct)
  case (1 s)
  show ?case
  proof (cases "drop_bit 16 s = 0")
    case True
    then have "unat s div 65536 = 0" using low_high(2) [of s] by simp
    then have "unat s < 65536" by (simp add: div_eq_0_iff)
    then show ?thesis using True by (simp add: fold_carry.simps [of s])
  next
    case False
    let ?t = "(s AND 0xFFFF) + drop_bit 16 s"
    have "unat s div 65536 \<noteq> 0" using False low_high(2) [of s] by (metis unat_eq_zero)
    then have nz: "?t \<noteq> 0" "s \<noteq> 0"
      using fold_step [of s] by (metis add_is_0 unat_0, metis div_0 unat_0)
    have "unat s = unat s mod 65536 + unat s div 65536 + 65535 * (unat s div 65536)"
      by (simp add: algebra_simps)
    then have "unat s mod 65535 = unat ?t mod 65535"
      using fold_step [of s] by (metis mod_mult_self2)
    with 1 [OF False] nz False show ?thesis by (simp add: fold_carry.simps [of s])
  qed
qed

lemma drop_two: "i + 1 < length xs \<Longrightarrow> drop i xs = xs ! i # xs ! (i + 1) # drop (i + 2) xs"
  by (metis Cons_nth_drop_Suc Suc_eq_plus1 Suc_lessD add_2_eq_Suc')

lemma sum_words_spec:
  assumes "even i" and "i \<le> length buf" and "buf \<noteq> []"
  shows "\<exists>acc' j. sum_words buf (length buf - 1) i acc = Some (acc', j) \<and>
    (if odd (length buf)
     then j < length buf \<and> acc' + ucast (buf ! j) = acc + word_of_nat (ones_sum (drop i buf))
     else acc' = acc + word_of_nat (ones_sum (drop i buf)))"
  using assms
proof (induction "length buf - i" arbitrary: i acc rule: less_induct)
  case less
  show ?case
  proof (cases "i < length buf - 1")
    case True
    then have i1: "i + 1 < length buf" by linarith
    let ?v = "rd16 (buf ! i) (buf ! (i + 1))"
    have d: "drop i buf = buf ! i # buf ! (i + 1) # drop (i + 2) buf" by (rule drop_two [OF i1])
    have "ones_sum (drop i buf) = unat ?v + ones_sum (drop (i + 2) buf)"
      unfolding d by (simp add: ones_sum_def unat_rd16)
    then have e: "acc + word_of_nat (ones_sum (drop i buf)) =
        acc + ucast ?v + word_of_nat (ones_sum (drop (i + 2) buf))"
      by (simp add: add.assoc)
    have "sum_words buf (length buf - 1) i acc =
        sum_words buf (length buf - 1) (i + 2) (acc + ucast ?v)"
      using True i1 by (subst sum_words.simps) simp
    moreover have "length buf - (i + 2) < length buf - i" "even (i + 2)" "i + 2 \<le> length buf"
      using less.prems i1 by auto
    note ih = less.hyps [OF this less.prems(3), of "acc + ucast ?v"]
    ultimately show ?thesis unfolding e by (simp only: ih)
  next
    case False
    then have s: "sum_words buf (length buf - 1) i acc = Some (acc, i)"
      by (subst sum_words.simps) simp
    show ?thesis
    proof (cases "i = length buf")
      case True
      then show ?thesis using s less.prems(1) by (simp add: ones_sum_def)
    next
      case neq: False
      then have i: "length buf = Suc i" using False less.prems(2,3) by (cases buf) auto
      then have "drop i buf = [buf ! i]" by (metis Cons_nth_drop_Suc drop_all lessI order_refl)
      then show ?thesis using s i less.prems(1) by (simp add: ones_sum_def)
    qed
  qed
qed

lemma and_1_odd: "(x :: u32) AND 1 \<noteq> 0 \<longleftrightarrow> odd (unat x)"
proof -
  have "unat (x AND 1) = unat x mod 2"
    by (simp only: unsigned_and_eq unsigned_1) (simp add: and_one_eq)
  then show ?thesis by (metis mod_2_eq_odd of_bool_eq(1) of_bool_eq(2) unat_0 unat_eq_zero zero_neq_one)
qed

lemma checksum_spec:
  assumes "buf \<noteq> []" and "length buf < 2 ^ 17"
  shows "checksum buf (word_of_nat (length buf)) =
    Some (ucast (NOT (fold_carry (word_of_nat (ones_sum buf)))))"
proof -
  let ?n = "word_of_nat (length buf) :: u32"
  have n: "unat ?n = length buf" using assms(2) by (simp add: unat_of_nat take_bit_nat_eq_self)
  have "0 < length buf" using assms(1) by simp
  then have lim: "unat (?n - 1) = length buf - 1"
    using n by (metis One_nat_def Suc_leI unat_1 unat_sub word_le_nat_alt)
  have odd: "?n AND 1 \<noteq> 0 \<longleftrightarrow> odd (length buf)"
    using and_1_odd [of ?n] by (simp only: n)
  obtain acc' j where "sum_words buf (length buf - 1) 0 0 = Some (acc', j)"
    "if odd (length buf)
     then j < length buf \<and> acc' + ucast (buf ! j) = 0 + word_of_nat (ones_sum (drop 0 buf))
     else acc' = 0 + word_of_nat (ones_sum (drop 0 buf))"
    using sum_words_spec [of 0 buf 0] assms(1) by auto
  then show ?thesis
    by (simp add: checksum_def lim odd split: if_splits)
qed

text \<open>The complement, on natural numbers.\<close>

lemma unat_checksum_word:
  assumes "unat (s :: u32) < 65536"
  shows "unat (ucast (NOT s) :: u16) = 65535 - unat s"
proof -
  have "(ucast (NOT s) :: u16) = NOT (ucast s)"
    by (rule bit_word_eqI) (auto simp: bit_simps)
  moreover have "unat (ucast s :: u16) = unat s"
    using assms by (simp add: unsigned_ucast_eq take_bit_nat_eq_self)
  moreover have "NOT (ucast s :: u16) = - 1 - ucast s" by (simp add: not_eq_complement)
  moreover have "unat (- 1 - (ucast s :: u16)) = unat (- 1 :: u16) - unat (ucast s :: u16)"
    by (rule unat_sub) simp
  moreover have "unat (- 1 :: u16) = 65535" by (simp add: unsigned_minus_1_eq_mask mask_eq_exp_minus_1)
  ultimately show ?thesis by simp
qed

text \<open>A buffer whose checksum field is filled in sums to minus zero.\<close>

lemma checksum_total:
  assumes "buf \<noteq> []" and "length buf < 2 ^ 16"
  obtains c where "checksum buf (word_of_nat (length buf)) = Some c"
    and "(ones_sum buf + unat c) mod 65535 = 0" and "0 < ones_sum buf + unat c"
    and "ones_sum buf < 2 ^ 31"
proof -
  let ?s = "word_of_nat (ones_sum buf) :: u32"
  have "ones_sum buf \<le> 65535 * ((length buf + 1) div 2)" by (rule ones_sum_bound)
  also have "\<dots> \<le> 65535 * 32768" using assms(2) by (intro mult_le_mono) auto
  finally have b: "ones_sum buf < 2 ^ 31" by simp
  then have us: "unat ?s = ones_sum buf" by (simp add: unat_of_nat take_bit_nat_eq_self)
  note f = fold_carry_spec [of ?s]
  let ?c = "ucast (NOT (fold_carry ?s)) :: u16"
  have uc: "unat ?c = 65535 - unat (fold_carry ?s)" by (rule unat_checksum_word) (use f in blast)
  then have tot: "unat ?c + unat (fold_carry ?s) = 65535" using f by linarith
  have "(ones_sum buf + unat ?c) mod 65535 = (unat (fold_carry ?s) + unat ?c) mod 65535"
    using f us by (metis mod_add_left_eq)
  also have "\<dots> = 0" using tot by (simp add: add.commute)
  finally have m: "(ones_sum buf + unat ?c) mod 65535 = 0" .
  have p: "0 < ones_sum buf + unat ?c"
  proof (cases "ones_sum buf = 0")
    case True
    then have "fold_carry ?s = 0" using f by simp
    then show ?thesis using uc by simp
  qed simp
  have "checksum buf (word_of_nat (length buf)) = Some ?c"
    using assms by (intro checksum_spec) simp_all
  from that [OF this m p b] show ?thesis .
qed

lemma only_multiple:
  assumes "n \<noteq> 0" and "n mod 65535 = 0" and "n < 65536"
  shows "n = (65535 :: nat)"
proof -
  obtain k where k: "n = 65535 * k" using assms(2) by auto
  have "k < 2" using assms(3) k by linarith
  moreover have "k \<noteq> 0" using assms(1) k by auto
  ultimately show ?thesis using k by simp
qed

lemma checksum_zero:
  assumes "buf \<noteq> []" and "length buf < 2 ^ 16" and "ones_sum buf mod 65535 = 0" and "0 < ones_sum buf"
  shows "checksum buf (word_of_nat (length buf)) = Some 0"
proof -
  let ?s = "word_of_nat (ones_sum buf) :: u32"
  have "ones_sum buf \<le> 65535 * ((length buf + 1) div 2)" by (rule ones_sum_bound)
  also have "\<dots> \<le> 65535 * 32768" using assms(2) by (intro mult_le_mono) auto
  finally have us: "unat ?s = ones_sum buf" by (simp add: unat_of_nat take_bit_nat_eq_self)
  note f = fold_carry_spec [of ?s]
  have "unat (fold_carry ?s) \<noteq> 0" using f us assms(4) by (metis less_irrefl unat_eq_zero unat_0)
  moreover have "unat (fold_carry ?s) mod 65535 = 0" using f us assms(3) by simp
  moreover have "unat (fold_carry ?s) < 65536" using f by simp
  ultimately have "unat (fold_carry ?s) = 65535"
    by (intro only_multiple)
  then have "unat (ucast (NOT (fold_carry ?s)) :: u16) = 0"
    using unat_checksum_word [of "fold_carry ?s"] by simp
  then have "(ucast (NOT (fold_carry ?s)) :: u16) = 0" by (simp only: unat_eq_zero)
  moreover have "checksum buf (word_of_nat (length buf)) = Some (ucast (NOT (fold_carry ?s)))"
    using assms by (intro checksum_spec) simp_all
  ultimately show ?thesis by simp
qed

lemma checksum_filled:
  assumes "even (length xs)" and "length (xs @ [0, 0] @ ys) < 2 ^ 16"
  shows "\<exists>c. checksum (xs @ [0, 0] @ ys) (word_of_nat (length (xs @ [0, 0] @ ys))) = Some c \<and>
    checksum (xs @ le16 c @ ys) (word_of_nat (length (xs @ le16 c @ ys))) = Some 0"
proof -
  let ?b = "xs @ [0, 0] @ ys"
  have ne: "?b \<noteq> []" by simp
  obtain c where
    c: "checksum ?b (word_of_nat (length ?b)) = Some c"
      "(ones_sum ?b + unat c) mod 65535 = 0" "0 < ones_sum ?b + unat c"
    by (rule checksum_total [OF ne assms(2)])
  have split: "ones_sum (xs @ l @ ys) = ones_sum xs + (ones_sum l + ones_sum ys)"
    if "length l = 2" for l
    using that by (simp only: ones_sum_append [OF assms(1)] ones_sum_append even_numeral)
  have "ones_sum [0, 0] = 0" by (simp add: ones_sum_def)
  then have s: "ones_sum (xs @ le16 c @ ys) = ones_sum ?b + unat c"
    using split [of "le16 c"] split [of "[0, 0]"] ones_sum_le16 [of c] by simp
  have "xs @ le16 c @ ys \<noteq> []" by (simp add: le16_def)
  moreover have "length (xs @ le16 c @ ys) < 2 ^ 16" using assms(2) by simp
  ultimately have "checksum (xs @ le16 c @ ys) (word_of_nat (length (xs @ le16 c @ ys))) = Some 0"
    using c(2,3) by (intro checksum_zero) (simp_all only: s not_False_eq_True)
  with c(1) show ?thesis by blast
qed

text \<open>
  C20. A checksum that is written where two zero bytes were verifies: for any buffer shorter than
  64 KiB with zeros at an even offset, the checksum routine returns, and run again on the buffer with the result
  stored there it returns 0. The folding loop terminates for every sum.
\<close>

theorem checksum_verifies:
  assumes "even (length xs)" and "length (xs @ [0, 0] @ ys) < 2 ^ 16"
  shows "\<exists>c. checksum (xs @ [0, 0] @ ys) (word_of_nat (length (xs @ [0, 0] @ ys))) = Some c \<and>
    checksum (xs @ le16 c @ ys) (word_of_nat (length (xs @ le16 c @ ys))) = Some 0"
  using checksum_filled [OF assms] .

theorem checksum_verifies_witness:
  "\<exists>c. checksum ([69, 0] @ [0, 0] @ [7]) 5 = Some c \<and> checksum ([69, 0] @ le16 c @ [7]) 5 = Some 0"
  using checksum_verifies [of "[69, 0]" "[7]"] by (auto simp: le16_def)

section \<open>Headers\<close>

record iphdr =
  ihl :: byte
  version :: byte
  tos :: byte
  tot_len :: u16
  id_field :: u16
  frag_off :: u16
  ttl :: byte
  protocol :: byte
  ip_check :: u16
  saddr :: u32
  daddr :: u32

record tcphdr =
  tcp_source :: u16
  dest :: u16
  seq :: u32
  ack_seq :: u32
  res1 :: byte
  doff :: byte
  fin :: bool
  syn :: bool
  rst :: bool
  psh :: bool
  ack :: bool
  urg :: bool
  res2 :: byte
  window :: u16
  tcp_check :: u16
  urg_ptr :: u16

record pseudo_header =
  source_address :: u32
  dest_address :: u32
  placeholder :: byte
  ps_protocol :: byte
  tcp_length :: u16

record sockaddr_in =
  sin_port :: u16
  s_addr :: u32

definition iphdr_bytes :: "iphdr \<Rightarrow> byte list" where
  "iphdr_bytes h = [(ihl h AND 15) OR push_bit 4 (version h), tos h] @ le16 (tot_len h) @
     le16 (id_field h) @ le16 (frag_off h) @ [ttl h, protocol h] @ le16 (ip_check h) @
     le32 (saddr h) @ le32 (daddr h)"

definition flag_bit :: "nat \<Rightarrow> bool \<Rightarrow> byte" where
  "flag_bit n b = (if b then push_bit n 1 else 0)"

definition tcphdr_bytes :: "tcphdr \<Rightarrow> byte list" where
  "tcphdr_bytes h = le16 (tcp_source h) @ le16 (dest h) @ le32 (seq h) @ le32 (ack_seq h) @
     [(res1 h AND 15) OR push_bit 4 (doff h),
      flag_bit 0 (fin h) OR flag_bit 1 (syn h) OR flag_bit 2 (rst h) OR flag_bit 3 (psh h) OR
      flag_bit 4 (ack h) OR flag_bit 5 (urg h) OR push_bit 6 (res2 h)] @
     le16 (window h) @ le16 (tcp_check h) @ le16 (urg_ptr h)"

definition pseudo_bytes :: "pseudo_header \<Rightarrow> byte list" where
  "pseudo_bytes h = le32 (source_address h) @ le32 (dest_address h) @ [placeholder h, ps_protocol h] @
     le16 (tcp_length h)"

definition DATAGRAM_LEN :: nat where "DATAGRAM_LEN = 4096"
definition OPT_SIZE :: nat where "OPT_SIZE = 20"
definition IPPROTO_TCP :: byte where "IPPROTO_TCP = 6"

lemma length_headers [simp]:
  "length (iphdr_bytes h) = 20" "length (tcphdr_bytes t) = 20" "length (pseudo_bytes q) = 12"
  by (simp_all add: iphdr_bytes_def tcphdr_bytes_def pseudo_bytes_def)

section \<open>The packets\<close>

text \<open>
  The three builders differ in the flags, the numbers, the options and the payload. The rest
  of each (the pseudo packet, the two checksums, the zero-filled datagram) is the same
  code, here \<open>finish_packet\<close>. The IP checksum is taken over \<open>tot_len\<close> bytes. A payload that does not
  fit in the datagram is a write past its end: \<open>None\<close>.
\<close>

definition finish_packet :: "iphdr \<Rightarrow> tcphdr \<Rightarrow> byte list \<Rightarrow> byte list \<Rightarrow> (byte list \<times> int) option" where
  "finish_packet iph tcph opts data =
    (let ps = \<lparr>source_address = saddr iph, dest_address = daddr iph, placeholder = 0,
               ps_protocol = IPPROTO_TCP,
               tcp_length = htons (word_of_nat (20 + OPT_SIZE + length data))\<rparr>;
         psize = 12 + 20 + OPT_SIZE + length data;
         pseudogram = pseudo_bytes ps @ tcphdr_bytes tcph @ opts @ data
     in if 20 + 20 + OPT_SIZE + length data > DATAGRAM_LEN then None
        else case checksum pseudogram (word_of_nat psize) of None \<Rightarrow> None
          | Some c1 \<Rightarrow>
              let tcph1 = tcph\<lparr>tcp_check := c1\<rparr>;
                  datagram = iphdr_bytes iph @ tcphdr_bytes tcph1 @ opts @ data @
                    replicate (DATAGRAM_LEN - (20 + 20 + OPT_SIZE + length data)) 0
              in case checksum datagram (ucast (tot_len iph)) of None \<Rightarrow> None
                | Some c2 \<Rightarrow>
                    Some (iphdr_bytes (iph\<lparr>ip_check := c2\<rparr>) @ drop 20 datagram,
                          uint (tot_len iph)))"

definition ip_header :: "sockaddr_in \<Rightarrow> sockaddr_in \<Rightarrow> nat \<Rightarrow> u32 \<Rightarrow> iphdr" where
  "ip_header src dst len r =
    \<lparr>ihl = 5, version = 4, tos = 0, tot_len = word_of_nat len,
     id_field = ucast (htonl (word_of_int (sint r smod 65535))), frag_off = 0, ttl = 64,
     protocol = IPPROTO_TCP, ip_check = 0, saddr = s_addr src, daddr = s_addr dst\<rparr>"

definition syn_options :: "byte list" where
  "syn_options = [2, 4] @ le16 (htons 1460) @ [4, 2] @ replicate 14 0"

definition create_syn_packet ::
  "sockaddr_in \<Rightarrow> sockaddr_in \<Rightarrow> u32 \<Rightarrow> u32 \<Rightarrow> (byte list \<times> int) option" where
  "create_syn_packet src dst r1 r2 =
    (let iph = ip_header src dst (20 + 20 + OPT_SIZE) r1;
         tcph = \<lparr>tcp_source = sin_port src, dest = sin_port dst,
                 seq = htonl r2, ack_seq = htonl 0, res1 = 0, doff = 10,
                 fin = False, syn = True, rst = False, psh = False, ack = False, urg = False,
                 res2 = 0, window = htons 5840, tcp_check = 0, urg_ptr = 0\<rparr>
     in finish_packet iph tcph syn_options [])"

definition create_ack_packet ::
  "sockaddr_in \<Rightarrow> sockaddr_in \<Rightarrow> u32 \<Rightarrow> u32 \<Rightarrow> u32 \<Rightarrow> (byte list \<times> int) option" where
  "create_ack_packet src dst sq ackno r =
    (let iph = ip_header src dst (20 + 20 + OPT_SIZE) r;
         tcph = \<lparr>tcp_source = sin_port src, dest = sin_port dst,
                 seq = htonl sq, ack_seq = htonl ackno, res1 = 0, doff = 10,
                 fin = False, syn = False, rst = False, psh = False, ack = True, urg = False,
                 res2 = 0, window = htons 5840, tcp_check = 0, urg_ptr = 0\<rparr>
     in finish_packet iph tcph (replicate OPT_SIZE 0) [])"

definition create_data_packet ::
  "sockaddr_in \<Rightarrow> sockaddr_in \<Rightarrow> u32 \<Rightarrow> u32 \<Rightarrow> byte list \<Rightarrow> u32 \<Rightarrow> (byte list \<times> int) option" where
  "create_data_packet src dst sq ackno data r =
    (let iph = ip_header src dst (20 + 20 + OPT_SIZE + length data) r;
         tcph = \<lparr>tcp_source = sin_port src, dest = sin_port dst,
                 seq = htonl sq, ack_seq = htonl ackno, res1 = 0, doff = 10,
                 fin = False, syn = False, rst = False, psh = True, ack = True, urg = False,
                 res2 = 0, window = htons 5840, tcp_check = 0, urg_ptr = 0\<rparr>
     in finish_packet iph tcph (replicate OPT_SIZE 0) data)"

definition read_seq_and_ack :: "byte list \<Rightarrow> (u32 \<times> u32) option" where
  "read_seq_and_ack packet =
    (if length packet < 32 then None
     else Some (htonl (rd32 (packet ! 24) (packet ! 25) (packet ! 26) (packet ! 27)),
                htonl (rd32 (packet ! 28) (packet ! 29) (packet ! 30) (packet ! 31))))"

text \<open>
  The receive loop: the datagrams the socket will deliver, \<open>None\<close> for an error. The buffer
  keeps what a shorter datagram does not overwrite. The result \<open>None\<close> is "still waiting".
\<close>

fun receive_from ::
  "byte list option list \<Rightarrow> byte list \<Rightarrow> u16 \<Rightarrow> (int \<times> byte list) option" where
  "receive_from [] buffer port = None"
| "receive_from (None # ds) buffer port = Some (- 1, buffer)"
| "receive_from (Some d # ds) buffer port =
     (let d' = take (length buffer) d; buffer' = d' @ drop (length d') buffer in
      if rd16 (buffer' ! 22) (buffer' ! 23) \<noteq> port then receive_from ds buffer' port
      else Some (int (length d'), buffer'))"

section \<open>What the packets say\<close>

lemma sum_words_prefix:
  assumes "limit < length bs"
  shows "sum_words (bs @ rest) limit i acc = sum_words bs limit i acc"
  using assms
proof (induction "limit - i" arbitrary: i acc rule: less_induct)
  case less
  show ?case
  proof (cases "i < limit")
    case True
    then have "i + 1 < length bs" using less.prems by linarith
    with True less show ?thesis
      by (subst (1 2) sum_words.simps) (simp add: nth_append)
  next
    case False
    then show ?thesis by (subst (1 2) sum_words.simps) simp
  qed
qed

lemma checksum_prefix:
  assumes "bs \<noteq> []" and "length bs < 2 ^ 16"
  shows "checksum (bs @ rest) (word_of_nat (length bs)) = checksum bs (word_of_nat (length bs))"
proof -
  let ?n = "word_of_nat (length bs) :: u32"
  have n: "unat ?n = length bs" using assms(2) by (simp add: unat_of_nat take_bit_nat_eq_self)
  have pos: "0 < length bs" using assms(1) by simp
  then have lim: "unat (?n - 1) = length bs - 1"
    using n by (metis One_nat_def Suc_leI unat_1 unat_sub word_le_nat_alt)
  have odd: "?n AND 1 \<noteq> 0 \<longleftrightarrow> odd (length bs)" using and_1_odd [of ?n] by (simp only: n)
  have pre: "sum_words (bs @ rest) (length bs - 1) 0 0 = sum_words bs (length bs - 1) 0 0"
    by (rule sum_words_prefix) (use pos in simp)
  obtain acc' j where "sum_words bs (length bs - 1) 0 0 = Some (acc', j)"
    "odd (length bs) \<longrightarrow> j < length bs"
    using sum_words_spec [of 0 bs 0] assms(1) by (auto split: if_splits)
  then show ?thesis unfolding checksum_def lim odd pre by (auto simp: nth_append)
qed

lemma checksum_some:
  assumes "bs \<noteq> []" and "length bs < 2 ^ 16"
  shows "\<exists>c. checksum (bs @ rest) (word_of_nat (length bs)) = Some c"
proof -
  have "checksum bs (word_of_nat (length bs)) =
      Some (ucast (NOT (fold_carry (word_of_nat (ones_sum bs)))))"
    by (rule checksum_spec) (use assms in simp_all)
  then show ?thesis using checksum_prefix [OF assms] by simp
qed

text \<open>The TCP header around its checksum field.\<close>

definition tcp_before :: "tcphdr \<Rightarrow> byte list" where
  "tcp_before h = take 16 (tcphdr_bytes h)"

lemma tcphdr_split:
  "tcphdr_bytes (h\<lparr>tcp_check := c\<rparr>) = tcp_before h @ le16 c @ le16 (urg_ptr h)"
  by (simp add: tcp_before_def tcphdr_bytes_def le16_def le32_def)

lemma length_tcp_before [simp]: "length (tcp_before h) = 16"
  by (simp add: tcp_before_def)

lemma le16_zero: "le16 0 = [0, 0]"
  by (simp add: le16_def)

definition packet_pseudo :: "iphdr \<Rightarrow> nat \<Rightarrow> pseudo_header" where
  "packet_pseudo iph n = \<lparr>source_address = saddr iph, dest_address = daddr iph, placeholder = 0,
     ps_protocol = IPPROTO_TCP, tcp_length = htons (word_of_nat n)\<rparr>"

lemma finish_packet_spec:
  assumes zero: "tcp_check tcph = 0" and opts: "length opts = 20"
    and fits: "length data \<le> 4036" and tl: "tot_len iph = word_of_nat (60 + length data)"
  shows "\<exists>c1 c2. finish_packet iph tcph opts data =
      Some (iphdr_bytes (iph\<lparr>ip_check := c2\<rparr>) @ tcphdr_bytes (tcph\<lparr>tcp_check := c1\<rparr>) @ opts @ data @
        replicate (4036 - length data) 0, int (60 + length data)) \<and>
    checksum (pseudo_bytes (packet_pseudo iph (40 + length data)) @
        tcphdr_bytes (tcph\<lparr>tcp_check := c1\<rparr>) @ opts @ data)
      (word_of_nat (52 + length data)) = Some 0"
proof -
  let ?ps = "pseudo_bytes (packet_pseudo iph (40 + length data))"
  let ?xs = "?ps @ tcp_before tcph"
  let ?ys = "le16 (urg_ptr tcph) @ opts @ data"
  have "tcph\<lparr>tcp_check := 0\<rparr> = tcph" using zero by simp
  then have z: "?ps @ tcphdr_bytes tcph @ opts @ data = ?xs @ [0, 0] @ ?ys"
    using tcphdr_split [where h = tcph and c = 0] by (simp add: le16_zero)
  have f: "?ps @ tcphdr_bytes (tcph\<lparr>tcp_check := c\<rparr>) @ opts @ data = ?xs @ le16 c @ ?ys" for c
    by (simp add: tcphdr_split)
  have len: "length (?xs @ [0, 0] @ ?ys) = 52 + length data"
    "length (?xs @ le16 c @ ?ys) = 52 + length data" for c
    using opts by simp_all
  have lt: "length (?xs @ [0, 0] @ ?ys) < 2 ^ 16" unfolding len using fits by simp
  have ev: "even (length ?xs)" by simp
  obtain c1 where c1: "checksum (?xs @ [0, 0] @ ?ys) (word_of_nat (52 + length data)) = Some c1"
    "checksum (?xs @ le16 c1 @ ?ys) (word_of_nat (52 + length data)) = Some 0"
    using checksum_filled [OF ev lt] unfolding len by blast
  let ?bs = "iphdr_bytes iph @ tcphdr_bytes (tcph\<lparr>tcp_check := c1\<rparr>) @ opts @ data"
  let ?z = "replicate (4036 - length data) (0 :: byte)"
  have lb: "length ?bs = 60 + length data" using opts by simp
  have "?bs \<noteq> []" using lb by auto
  then obtain c2 where c2: "checksum (?bs @ ?z) (word_of_nat (60 + length data)) = Some c2"
    using checksum_some [of ?bs ?z] fits unfolding lb by fastforce
  have un: "unat (tot_len iph) = 60 + length data"
    unfolding tl using fits by (simp only: unat_of_nat take_bit_nat_eq_self) (simp add: take_bit_nat_eq_self)
  have tl': "ucast (tot_len iph) = (word_of_nat (60 + length data) :: u32)"
    using un by (metis of_nat_unat)
  have tl2: "uint (tot_len iph) = int (60 + length data)" using un by (metis of_nat_unat ucast_id unat_eq_nat_uint uint_nat)
  have "finish_packet iph tcph opts data =
      Some (iphdr_bytes (iph\<lparr>ip_check := c2\<rparr>) @ tcphdr_bytes (tcph\<lparr>tcp_check := c1\<rparr>) @ opts @ data @
        ?z, int (60 + length data))"
    using c1(1) c2 fits z
    by (simp add: finish_packet_def Let_def OPT_SIZE_def DATAGRAM_LEN_def tl' tl2
        packet_pseudo_def)
  moreover have "checksum (?ps @ tcphdr_bytes (tcph\<lparr>tcp_check := c1\<rparr>) @ opts @ data)
      (word_of_nat (52 + length data)) = Some 0"
    using c1(2) by (simp only: f)
  ultimately show ?thesis by blast
qed

lemma nth_after: "length xs \<le> i \<Longrightarrow> (xs @ ys) ! i = ys ! (i - length xs)"
  by (simp add: nth_append)

lemma tcp_at:
  assumes "length xs = 20" and "i < 20"
  shows "(xs @ tcphdr_bytes h @ ys) ! (20 + i) = tcphdr_bytes h ! i"
  using assms by (simp add: nth_append)

lemma read_tcp_numbers:
  assumes "length xs = 20"
  shows "read_seq_and_ack (xs @ tcphdr_bytes h @ ys) = Some (htonl (seq h), htonl (ack_seq h))"
proof -
  have s: "tcphdr_bytes h ! 4 = ucast (seq h)" "tcphdr_bytes h ! 5 = ucast (drop_bit 8 (seq h))"
    "tcphdr_bytes h ! 6 = ucast (drop_bit 16 (seq h))" "tcphdr_bytes h ! 7 = ucast (drop_bit 24 (seq h))"
    "tcphdr_bytes h ! 8 = ucast (ack_seq h)" "tcphdr_bytes h ! 9 = ucast (drop_bit 8 (ack_seq h))"
    "tcphdr_bytes h ! 10 = ucast (drop_bit 16 (ack_seq h))"
    "tcphdr_bytes h ! 11 = ucast (drop_bit 24 (ack_seq h))"
    by (simp_all add: tcphdr_bytes_def le16_def le32_def)
  have t: "(xs @ tcphdr_bytes h @ ys) ! 24 = tcphdr_bytes h ! 4"
    "(xs @ tcphdr_bytes h @ ys) ! 25 = tcphdr_bytes h ! 5"
    "(xs @ tcphdr_bytes h @ ys) ! 26 = tcphdr_bytes h ! 6"
    "(xs @ tcphdr_bytes h @ ys) ! 27 = tcphdr_bytes h ! 7"
    "(xs @ tcphdr_bytes h @ ys) ! 28 = tcphdr_bytes h ! 8"
    "(xs @ tcphdr_bytes h @ ys) ! 29 = tcphdr_bytes h ! 9"
    "(xs @ tcphdr_bytes h @ ys) ! 30 = tcphdr_bytes h ! 10"
    "(xs @ tcphdr_bytes h @ ys) ! 31 = tcphdr_bytes h ! 11"
    using tcp_at [OF assms, of 4 h ys] tcp_at [OF assms, of 5 h ys] tcp_at [OF assms, of 6 h ys]
      tcp_at [OF assms, of 7 h ys] tcp_at [OF assms, of 8 h ys] tcp_at [OF assms, of 9 h ys]
      tcp_at [OF assms, of 10 h ys] tcp_at [OF assms, of 11 h ys]
    by simp_all
  show ?thesis using assms by (simp add: read_seq_and_ack_def t s)
qed

lemma data_packet_spec:
  assumes "length data \<le> 4036"
  shows "\<exists>dg. create_data_packet src dst sq ackno data r = Some (dg, int (60 + length data)) \<and>
    length dg = 4096 \<and> read_seq_and_ack dg = Some (sq, ackno) \<and>
    take (length data) (drop 60 dg) = data \<and>
    checksum (pseudo_bytes \<lparr>source_address = s_addr src, dest_address = s_addr dst, placeholder = 0,
        ps_protocol = 6, tcp_length = htons (word_of_nat (40 + length data))\<rparr> @
        take (40 + length data) (drop 20 dg)) (word_of_nat (52 + length data)) = Some 0"
proof -
  let ?iph = "ip_header src dst (20 + 20 + OPT_SIZE + length data) r"
  let ?tcph = "\<lparr>tcp_source = sin_port src, dest = sin_port dst,
                 seq = htonl sq, ack_seq = htonl ackno, res1 = 0, doff = 10,
                 fin = False, syn = False, rst = False, psh = True, ack = True, urg = False,
                 res2 = 0, window = htons 5840, tcp_check = 0, urg_ptr = 0\<rparr>"
  let ?o = "replicate 20 (0 :: byte)"
  have tl: "tot_len ?iph = word_of_nat (60 + length data)"
    by (simp add: ip_header_def OPT_SIZE_def)
  obtain c1 c2 where f: "finish_packet ?iph ?tcph ?o data =
      Some (iphdr_bytes (?iph\<lparr>ip_check := c2\<rparr>) @ tcphdr_bytes (?tcph\<lparr>tcp_check := c1\<rparr>) @ ?o @ data @
        replicate (4036 - length data) 0, int (60 + length data))"
    "checksum (pseudo_bytes (packet_pseudo ?iph (40 + length data)) @
        tcphdr_bytes (?tcph\<lparr>tcp_check := c1\<rparr>) @ ?o @ data) (word_of_nat (52 + length data)) = Some 0"
    using finish_packet_spec [of ?tcph ?o data ?iph, OF _ _ assms tl] by auto
  let ?dg = "iphdr_bytes (?iph\<lparr>ip_check := c2\<rparr>) @ tcphdr_bytes (?tcph\<lparr>tcp_check := c1\<rparr>) @ ?o @ data @
    replicate (4036 - length data) 0"
  have "create_data_packet src dst sq ackno data r = Some (?dg, int (60 + length data))"
    using f(1) by (simp add: create_data_packet_def Let_def OPT_SIZE_def)
  moreover have "length ?dg = 4096" using assms by simp
  moreover have "read_seq_and_ack ?dg = Some (sq, ackno)"
    by (subst read_tcp_numbers) simp_all
  moreover have "take (length data) (drop 60 ?dg) = data" by simp
  moreover have "take (40 + length data) (drop 20 ?dg) =
      tcphdr_bytes (?tcph\<lparr>tcp_check := c1\<rparr>) @ ?o @ data" by simp
  moreover have "packet_pseudo ?iph (40 + length data) =
      \<lparr>source_address = s_addr src, dest_address = s_addr dst, placeholder = 0,
        ps_protocol = 6, tcp_length = htons (word_of_nat (40 + length data))\<rparr>"
    by (simp add: packet_pseudo_def ip_header_def IPPROTO_TCP_def)
  ultimately show ?thesis using f(2) by (intro exI [of _ ?dg]) (simp only: simp_thms)
qed

text \<open>
  C21. A data packet is accepted by its receiver. Whatever the addresses, the numbers and a
  payload of at most 4036 bytes, the builder returns a datagram whose TCP checksum, computed again over
  the pseudo header and the segment as the receiver does, is 0.
\<close>

theorem data_packet_verifies:
  assumes "length data \<le> 4036"
  shows "\<exists>dg. create_data_packet src dst sq ackno data r = Some (dg, int (60 + length data)) \<and>
    checksum (pseudo_bytes \<lparr>source_address = s_addr src, dest_address = s_addr dst, placeholder = 0,
        ps_protocol = 6, tcp_length = htons (word_of_nat (40 + length data))\<rparr> @
        take (40 + length data) (drop 20 dg)) (word_of_nat (52 + length data)) = Some 0"
  using data_packet_spec [OF assms] by blast

theorem data_packet_verifies_witness:
  "\<exists>dg. create_data_packet \<lparr>sin_port = 1, s_addr = 2\<rparr> \<lparr>sin_port = 3, s_addr = 4\<rparr> 5 6 [71, 69, 84] 7 =
    Some (dg, 63)"
  using data_packet_verifies [of "[71, 69, 84]" "\<lparr>sin_port = 1, s_addr = 2\<rparr>" "\<lparr>sin_port = 3, s_addr = 4\<rparr>" 5 6 7]
  by auto

text \<open>
  The numbers and the payload survive the trip: reading the sequence and acknowledgment
  numbers of a built data packet gives the ones it was built with, and the payload is found behind 60 bytes
  of headers; a payload that does not fit is refused by the model as a write past the datagram.
\<close>

theorem data_packet_roundtrip:
  "case create_data_packet src dst sq ackno data r of
     None \<Rightarrow> 4036 < length data
   | Some (dg, n) \<Rightarrow> length data \<le> 4036 \<and> n = int (60 + length data) \<and> length dg = 4096 \<and>
       read_seq_and_ack dg = Some (sq, ackno) \<and> take (length data) (drop 60 dg) = data"
proof (cases "length data \<le> 4036")
  case True
  then show ?thesis using data_packet_spec [OF True, of src dst sq ackno r] by auto
next
  case False
  then have "create_data_packet src dst sq ackno data r = None"
    by (simp add: create_data_packet_def finish_packet_def Let_def OPT_SIZE_def DATAGRAM_LEN_def)
  with False show ?thesis by simp
qed

text \<open>
  The identification field of every packet is 0: the random number is
  converted to network order as 32 bits and then cut to 16, which keeps the two bytes that are
  always zero.
\<close>

theorem ip_id_zero:
  assumes "0 \<le> sint r"
  shows "id_field (ip_header src dst len r) = 0"
proof -
  have m: "sint r smod 65535 = sint r mod 65535" using assms by (auto simp: signed_modulo_int_def sgn_if)
  have "0 \<le> sint r mod 65535 \<and> sint r mod 65535 < 65536" by (simp add: order_less_trans [of _ 65535])
  then obtain k where k: "sint r smod 65535 = int k" "k < 65536"
    by (metis m nonneg_int_cases of_nat_less_numeral_iff)
  define w :: u32 where "w = word_of_nat k"
  have "unat w < 65536" using k(2) by (simp add: w_def unat_of_nat take_bit_nat_eq_self)
  then have "unat (drop_bit 16 w) = 0" by (simp only: low_high)
  then have z: "drop_bit 16 w = 0" by (simp only: unat_eq_zero)
  have hi: "\<not> bit w n" if "16 \<le> n" for n
  proof -
    have "bit (drop_bit 16 w) (n - 16) = bit w n" using that by (simp add: bit_drop_bit_eq)
    then show ?thesis using z by simp
  qed
  have "(ucast (htonl w) :: u16) = 0"
    unfolding htonl_def rd32_def
    by (rule bit_word_eqI) (auto simp: bit_simps hi dest: bit_imp_le_length)
  then show ?thesis by (simp add: ip_header_def k(1) w_def)
qed

theorem ip_id_zero_witness:
  "id_field (ip_header \<lparr>sin_port = 1, s_addr = 2\<rparr> \<lparr>sin_port = 3, s_addr = 4\<rparr> 60 12345) = 0"
  by (rule ip_id_zero) simp

section \<open>Waiting for a datagram\<close>

text \<open>
  The receive loop drops datagrams for other ports: it answers an error, or the length of the
  last datagram that arrived, with the buffer that datagram left, whose bytes 22 and 23 are the wanted
  port; every datagram before it left another port there.
\<close>

theorem receive_from_port:
  assumes "24 \<le> length buffer" and "receive_from ds buffer port = Some (n, buffer')"
  shows "length buffer' = length buffer \<and>
    (n = - 1 \<or> 0 \<le> n \<and> rd16 (buffer' ! 22) (buffer' ! 23) = port)"
  using assms
proof (induction ds buffer port rule: receive_from.induct)
  case (3 d ds buffer port)
  then show ?case by (auto simp: Let_def split: if_splits)
qed auto

theorem receive_from_port_witness:
  "\<exists>b. receive_from [Some (replicate 22 0 @ [1, 2]), Some (replicate 22 0 @ [3, 4])] (replicate 30 0) (rd16 3 4)
     = Some (24, b) \<and> rd16 (b ! 22) (b ! 23) = rd16 3 4"
proof -
  have "rd16 1 2 \<noteq> rd16 3 4" using unat_rd16 [of 1 2] unat_rd16 [of 3 4] by auto
  then have r: "receive_from [Some (replicate 22 0 @ [1, 2]), Some (replicate 22 0 @ [3, 4])]
      (replicate 30 0) (rd16 3 4) = Some (24, (replicate 22 0 @ [3, 4]) @ replicate 6 0)"
    by (simp add: Let_def nth_append)
  have "24 \<le> length (replicate 30 (0 :: byte))" by simp
  from receive_from_port [OF this r] r show ?thesis by simp
qed

end
