(* ===== verification/Stun.thy ===== *)
theory Stun
  imports TunBytes
begin

unbundle bit_operations_syntax

text \<open>
  The STUN client of \<open>src/stun/Stun.cpp\<close>: the binding request, the scan of the response's
  attributes for the mapped address, and the outcome of a request. The socket calls are a
  parameter; the response is the memory of the struct after the receive, which the code reads
  without looking at how much was received.
\<close>

definition kBindingRequest :: u16 where "kBindingRequest = 1"
definition kBindingResponse :: u16 where "kBindingResponse = 0x0101"
definition kXorMappedAddress :: u16 where "kXorMappedAddress = 0x0020"

text \<open>The bytes of \<open>StunRequest\<close>, with the twelve random numbers of its constructor.\<close>

definition stun_request :: "int list \<Rightarrow> byte list" where
  "stun_request rands = le16 (htons kBindingRequest) @ le16 (htons 0) @ le32 (htonl 0x2112A442) @
     map (\<lambda>r. word_of_int (r smod 256)) rands"

record stun_response =
  stun_message_type :: u16
  message_length :: u16
  magic_cookie :: u32
  transaction_id :: "byte list"
  attributes :: "byte list"

definition stun_response_of :: "byte list \<Rightarrow> stun_response" where
  "stun_response_of m = \<lparr>stun_message_type = rd16 (m ! 0) (m ! 1), message_length = rd16 (m ! 2) (m ! 3),
     magic_cookie = rd32 (m ! 4) (m ! 5) (m ! 6) (m ! 7),
     transaction_id = take 12 (drop 8 m), attributes = drop 20 m\<rparr>"

text \<open>\<open>std::to_string\<close> of a number that is not negative.\<close>

function show_nat :: "nat \<Rightarrow> string" where
  "show_nat n =
    (if n < 10 then [char_of (48 + n)] else show_nat (n div 10) @ [char_of (48 + n mod 10)])"
  by pat_completeness auto
termination by (relation "measure id") auto

declare show_nat.simps [simp del]

text \<open>
  The scan over the attributes: a read outside the array of 1000 bytes is undefined. Every round advances the
  index by at least 4, so the loop ends.
\<close>

datatype stun_scan = ScanFault | NotFound | Found string u16

definition attr16 :: "byte list \<Rightarrow> nat \<Rightarrow> u16" where
  "attr16 at i = htons (rd16 (at ! i) (at ! (i + 1)))"

definition mapped_ip :: "byte list \<Rightarrow> nat \<Rightarrow> string" where
  "mapped_ip at i =
     show_nat (unat (at ! (i + 8) XOR 0x21)) @ ''.'' @ show_nat (unat (at ! (i + 9) XOR 0x12)) @ ''.'' @
     show_nat (unat (at ! (i + 10) XOR 0xA4)) @ ''.'' @ show_nat (unat (at ! (i + 11) XOR 0x42)) @ ''.''"

function scan_attributes :: "byte list \<Rightarrow> int \<Rightarrow> nat \<Rightarrow> stun_scan" where
  "scan_attributes at len i =
    (if int i < len then
       if length at \<le> i + 3 then ScanFault
       else if attr16 at i = kXorMappedAddress then
         if length at \<le> i + 11 then ScanFault
         else Found (mapped_ip at i) (attr16 at (i + 6) XOR 0x2112)
       else scan_attributes at len (i + (4 + unat (attr16 at (i + 2))))
     else NotFound)"
  by pat_completeness auto
termination
proof (relation "measure (\<lambda>(at, len, i). nat (len - int i))")
  fix at :: "byte list" and len :: int and i :: nat
  assume "int i < len"
  then have "nat (len - int (i + (4 + unat (attr16 at (i + 2))))) < nat (len - int i)" by linarith
  then show "((at, len, i + (4 + unat (attr16 at (i + 2)))), at, len, i)
      \<in> measure (\<lambda>(at, len, i). nat (len - int i))"
    by (simp only: in_measure prod.case)
qed simp

declare scan_attributes.simps [simp del]

text \<open>What the socket calls answer; \<open>response\<close> is the memory of the response afterwards.\<close>

record stun_net =
  bind_result :: int
  sendto_result :: int
  recvfrom_result :: int
  response :: "byte list"

text \<open>
  The outcome: the result, the address and port (the initial ones when none was found) and
  whether the socket was closed; \<open>None\<close> is undefined behaviour.
\<close>

definition PerformStunRequest ::
  "stun_net \<Rightarrow> int list \<Rightarrow> (bool \<times> string \<times> u16 \<times> bool) option" where
  "PerformStunRequest net rands =
    (let req = stun_request rands; rs = stun_response_of (response net) in
     if bind_result net = - 1 then Some (False, '''', 0, False)
     else if sendto_result net = - 1 then Some (False, '''', 0, False)
     else if recvfrom_result net = - 1 then Some (False, '''', 0, False)
     else if transaction_id rs = drop 8 req then
       if sint (stun_message_type rs) \<noteq> uint (htons kBindingResponse) then Some (False, '''', 0, False)
       else
         let len = min (sint (htons (message_length rs))) 1000 in
         case scan_attributes (attributes rs) len 0 of
           ScanFault \<Rightarrow> None
         | NotFound \<Rightarrow> Some (True, '''', 0, True)
         | Found ip port \<Rightarrow> Some (True, ip, port, True)
     else Some (False, '''', 0, False))"

section \<open>The scan\<close>

text \<open>An attribute as RFC 5389 writes it, without padding: type, length, value.\<close>

definition attribute_bytes :: "u16 \<times> byte list \<Rightarrow> byte list" where
  "attribute_bytes a =
    le16 (htons (fst a)) @ le16 (htons (word_of_nat (length (snd a)))) @ snd a"

text \<open>The value of XOR-MAPPED-ADDRESS for an IPv4 address and a port.\<close>

definition xor_mapped_value :: "byte \<Rightarrow> byte \<Rightarrow> byte \<Rightarrow> byte \<Rightarrow> u16 \<Rightarrow> byte list" where
  "xor_mapped_value a b c d port =
    [0, 1] @ le16 (htons (port XOR 0x2112)) @ [a XOR 0x21, b XOR 0x12, c XOR 0xA4, d XOR 0x42]"

definition dotted :: "byte \<Rightarrow> byte \<Rightarrow> byte \<Rightarrow> byte \<Rightarrow> string" where
  "dotted a b c d = show_nat (unat a) @ ''.'' @ show_nat (unat b) @ ''.'' @
     show_nat (unat c) @ ''.'' @ show_nat (unat d)"

lemma htons_htons [simp]: "htons (htons x) = x"
proof -
  have "ucast (rd16 a b) = a" "ucast (drop_bit 8 (rd16 a b)) = b" for a b :: byte
    unfolding rd16_def by (rule bit_word_eqI; auto simp: bit_simps dest: bit_imp_le_length)+
  then show ?thesis unfolding htons_def by simp
qed

lemma attr16_at: "attr16 (xs @ le16 (htons x) @ ys) (length xs) = x"
  by (simp add: attr16_def le16_def nth_append)

lemma xor_same: "((x :: byte) XOR k) XOR k = x"
  by (rule bit_word_eqI) (auto simp: bit_simps)

lemma xor_same16: "((x :: u16) XOR k) XOR k = x"
  by (rule bit_word_eqI) (auto simp: bit_simps)

lemma scan_found:
  assumes "int (length xs) < len"
  shows "scan_attributes (xs @ attribute_bytes (kXorMappedAddress, xor_mapped_value a b c d port) @ ys)
    len (length xs) = Found (dotted a b c d @ ''.'') port"
proof -
  let ?v = "xor_mapped_value a b c d port"
  let ?at = "xs @ attribute_bytes (kXorMappedAddress, ?v) @ ys"
  let ?n = "length xs"
  have lv: "length ?v = 8" by (simp add: xor_mapped_value_def)
  have t: "attr16 ?at ?n = kXorMappedAddress"
    using attr16_at [of xs kXorMappedAddress] by (simp add: attribute_bytes_def)
  have "?at = (xs @ le16 (htons kXorMappedAddress) @ le16 (htons 8) @ [0, 1]) @
      le16 (htons (port XOR 0x2112)) @ [a XOR 0x21, b XOR 0x12, c XOR 0xA4, d XOR 0x42] @ ys"
    by (simp add: attribute_bytes_def lv) (simp add: xor_mapped_value_def)
  then have p: "attr16 ?at (?n + 6) = port XOR 0x2112"
    using attr16_at [of "xs @ le16 (htons kXorMappedAddress) @ le16 (htons 8) @ [0, 1]"] by simp
  have nth: "?at ! (?n + i) = (attribute_bytes (kXorMappedAddress, ?v) @ ys) ! i" for i
    by (simp add: nth_append)
  have ip: "mapped_ip ?at ?n = dotted a b c d @ ''.''"
    unfolding mapped_ip_def nth
    by (simp add: attribute_bytes_def xor_mapped_value_def le16_def dotted_def xor_same)
  have len: "?n + 11 < length ?at" by (simp add: attribute_bytes_def lv)
  then show ?thesis using assms t p ip
    by (subst scan_attributes.simps) (simp add: xor_same16)
qed

lemma scan_skip:
  assumes "t \<noteq> kXorMappedAddress" and "length v < 2 ^ 16" and "int (length xs) < len"
  shows "scan_attributes (xs @ attribute_bytes (t, v) @ ys) len (length xs) =
    scan_attributes (xs @ attribute_bytes (t, v) @ ys) len (length (xs @ attribute_bytes (t, v)))"
proof -
  let ?at = "xs @ attribute_bytes (t, v) @ ys"
  have a: "attr16 ?at (length xs) = t" using attr16_at [of xs t] by (simp add: attribute_bytes_def)
  have "?at = (xs @ le16 (htons t)) @ le16 (htons (word_of_nat (length v))) @ v @ ys"
    by (simp add: attribute_bytes_def)
  then have l: "attr16 ?at (length xs + 2) = word_of_nat (length v)"
    using attr16_at [of "xs @ le16 (htons t)"] by simp
  have "unat (word_of_nat (length v) :: u16) = length v"
    using assms(2) by (simp add: unat_of_nat take_bit_nat_eq_self)
  moreover have "length xs + 3 < length ?at" by (simp add: attribute_bytes_def)
  moreover have "length (xs @ attribute_bytes (t, v)) = length xs + (4 + length v)"
    by (simp add: attribute_bytes_def)
  ultimately show ?thesis
    using assms(1,3) a l by (subst scan_attributes.simps) simp
qed

lemma scan_finds:
  "\<lbrakk>\<forall>x \<in> set as. fst x \<noteq> kXorMappedAddress \<and> length (snd x) < 2 ^ 16;
    int (length (xs @ concat (map attribute_bytes as))) < len\<rbrakk> \<Longrightarrow>
   scan_attributes (xs @ concat (map attribute_bytes as) @
     attribute_bytes (kXorMappedAddress, xor_mapped_value a b c d port) @ ys) len (length xs) =
   Found (dotted a b c d @ ''.'') port"
proof (induction as arbitrary: xs)
  case Nil
  then show ?case using scan_found by simp
next
  case (Cons x as)
  obtain t v where x: "x = (t, v)" by fastforce
  let ?rest = "concat (map attribute_bytes as) @
     attribute_bytes (kXorMappedAddress, xor_mapped_value a b c d port) @ ys"
  have "scan_attributes (xs @ attribute_bytes (t, v) @ ?rest) len (length xs) =
      scan_attributes (xs @ attribute_bytes (t, v) @ ?rest) len (length (xs @ attribute_bytes (t, v)))"
    using Cons.prems x by (intro scan_skip) auto
  also have "\<dots> = Found (dotted a b c d @ ''.'') port"
    using Cons.IH [of "xs @ attribute_bytes (t, v)"] Cons.prems x by simp
  finally show ?case using x by simp
qed

text \<open>
  C22. A STUN response is understood: a success response with the request's transaction id, whose
  attributes are any list of others (without padding) followed by the mapped address of an IPv4
  endpoint, gives that endpoint's port and its dotted address (with one more dot at the
  end), and the socket is closed.
\<close>

theorem stun_finds_address:
  assumes "\<forall>x \<in> set as. fst x \<noteq> kXorMappedAddress \<and> length (snd x) < 2 ^ 16"
    and "bind_result net \<noteq> - 1" and "sendto_result net \<noteq> - 1" and "recvfrom_result net \<noteq> - 1"
    and "length rands = 12"
    and "body = concat (map attribute_bytes as) @
      attribute_bytes (kXorMappedAddress, xor_mapped_value a b c d port)"
    and "length body \<le> 1000"
    and "response net = le16 (htons kBindingResponse) @ le16 (htons (word_of_nat (length body))) @
      le32 (htonl 0x2112A442) @ drop 8 (stun_request rands) @ body @ pad"
  shows "PerformStunRequest net rands = Some (True, dotted a b c d @ ''.'', port, True)"
proof -
  let ?r = "response net" and ?t = "drop 8 (stun_request rands)"
  have lt: "length ?t = 12" using assms(5) by (simp add: stun_request_def)
  have attrs: "attributes (stun_response_of ?r) = body @ pad"
    "transaction_id (stun_response_of ?r) = ?t"
    using lt by (simp_all add: stun_response_of_def assms(8))
  have ml: "message_length (stun_response_of ?r) = htons (word_of_nat (length body))"
    "stun_message_type (stun_response_of ?r) = htons kBindingResponse"
    by (simp_all add: stun_response_of_def assms(8) le16_def)
  have ub: "uint (word_of_nat (length body) :: u16) = int (length body)"
    using assms(7) by (simp add: unsigned_of_nat take_bit_nat_eq_self)
  have si: "sint (word_of_nat (length body) :: u16) = int (length body)"
    by (subst sint_uint) (use assms(7) in \<open>simp add: ub signed_take_bit_int_eq_self order_trans [of _ 0]\<close>)
  have ty: "sint (htons kBindingResponse) = uint (htons kBindingResponse)"
    by (simp add: htons_def kBindingResponse_def rd16_def)
  have "0 < length (attribute_bytes (kXorMappedAddress, xor_mapped_value a b c d port))"
    by (simp add: attribute_bytes_def)
  then have "int (length ([] @ concat (map attribute_bytes as))) < int (length body)"
    using assms(6) by simp
  from scan_finds [OF assms(1) this, of a b c d port pad]
  have "scan_attributes (body @ pad) (int (length body)) 0 = Found (dotted a b c d @ ''.'') port"
    by (simp add: assms(6))
  then show ?thesis
    using assms(2-4,7) attrs ml ty
    by (simp add: PerformStunRequest_def Let_def si)
qed

text \<open>A response with a software attribute of four bytes and the address 10.0.0.1, port 9910.\<close>

theorem stun_finds_address_witness:
  "\<exists>net. PerformStunRequest net (replicate 12 5) = Some (True, dotted 10 0 0 1 @ ''.'', 9910, True)"
proof -
  let ?as = "[(0x8022, [116, 101, 115, 116])] :: (u16 \<times> byte list) list"
  let ?body = "concat (map attribute_bytes ?as) @
    attribute_bytes (kXorMappedAddress, xor_mapped_value 10 0 0 1 9910)"
  let ?net = "\<lparr>bind_result = 0, sendto_result = 20, recvfrom_result = 40,
    response = le16 (htons kBindingResponse) @ le16 (htons (word_of_nat (length ?body))) @
      le32 (htonl 0x2112A442) @ drop 8 (stun_request (replicate 12 5)) @ ?body @ replicate 980 0\<rparr>"
  have "PerformStunRequest ?net (replicate 12 5) = Some (True, dotted 10 0 0 1 @ ''.'', 9910, True)"
    by (rule stun_finds_address [where as = ?as and body = ?body and pad = "replicate 980 0"])
      (simp_all add: kXorMappedAddress_def attribute_bytes_def xor_mapped_value_def)
  then show ?thesis by blast
qed

lemma scan_in_bounds: "length at = 1000 \<Longrightarrow> len \<le> 989 \<Longrightarrow> scan_attributes at len i \<noteq> ScanFault"
proof (induction at len i rule: scan_attributes.induct)
  case (1 at len i)
  show ?case
  proof (cases "int i < len \<and> attr16 at i \<noteq> kXorMappedAddress")
    case True
    moreover from True have "\<not> length at \<le> i + 3" using "1.prems" by linarith
    ultimately have ih: "scan_attributes at len (i + (4 + unat (attr16 at (i + 2)))) \<noteq> ScanFault"
      using "1.IH" "1.prems" by blast
    show ?thesis using True \<open>\<not> length at \<le> i + 3\<close> ih
      by (subst scan_attributes.simps) simp
  next
    case False
    then have "\<not> int i < len \<or> attr16 at i = kXorMappedAddress \<and> \<not> length at \<le> i + 11"
      using "1.prems" by linarith
    then show ?thesis by (subst scan_attributes.simps) auto
  qed
qed

lemma scan_past_end: "scan_attributes ([0, 0, 3, 0xE2] @ replicate 996 0) 1000 0 = ScanFault"
proof -
  let ?at = "[0, 0, 3, 0xE2] @ replicate 996 (0 :: byte)"
  have a: "attr16 ?at 0 = 0" by (simp add: attr16_def rd16_def htons_def)
  have l: "unat (attr16 ?at 2) = 994"
    using unat_rd16 [of "0xE2" 3] by (simp add: attr16_def htons_def) (simp add: rd16_def)
  have "scan_attributes ?at 1000 0 = scan_attributes ?at 1000 998"
    using a l [unfolded numeral_2_eq_2]
    by (subst scan_attributes.simps) (simp add: kXorMappedAddress_def)
  also have "\<dots> = ScanFault" by (subst scan_attributes.simps) simp
  finally show ?thesis .
qed

text \<open>
  C23. The scan ends on every input, and stays inside the array of attributes when the announced length is
  at most 989; at the largest length the code accepts, 1000, a response can make it read past the end.
\<close>

theorem scan_bounds:
  "(\<forall>at len. length at = 1000 \<and> len \<le> 989 \<longrightarrow> scan_attributes at len 0 \<noteq> ScanFault) \<and>
   (\<exists>at. length at = 1000 \<and> scan_attributes at 1000 0 = ScanFault)"
proof (intro conjI allI impI)
  show "scan_attributes at len 0 \<noteq> ScanFault" if "length at = 1000 \<and> len \<le> 989" for at len
    using that scan_in_bounds by blast
  show "\<exists>at. length at = 1000 \<and> scan_attributes at 1000 0 = ScanFault"
    by (rule exI [of _ "[0, 0, 3, 0xE2] @ replicate 996 0"]) (simp add: scan_past_end [simplified])
qed

theorem scan_bounds_witness:
  "scan_attributes (replicate 1000 0) 500 0 \<noteq> ScanFault"
  using scan_bounds by simp

text \<open>
  Padding is not skipped. RFC 5389 pads every value to four bytes; after an attribute whose
  value has five bytes and its padding, the scan reads the rest at the wrong offset and does not
  find the mapped address that follows.
\<close>

theorem stun_padding_missed:
  assumes "t \<noteq> kXorMappedAddress" and "length v = 5"
  shows "scan_attributes (attribute_bytes (t, v) @ [0, 0, 0] @
    attribute_bytes (kXorMappedAddress, xor_mapped_value a b c d port) @ ys) 24 0 = NotFound"
proof -
  let ?rest = "[0, 0, 0] @ attribute_bytes (kXorMappedAddress, xor_mapped_value a b c d port) @ ys"
  let ?at = "attribute_bytes (t, v) @ ?rest"
  have lv: "length (attribute_bytes (t, v)) = 9" by (simp add: attribute_bytes_def assms(2))
  have nth: "?at ! (9 + i) = ?rest ! i" for i
    by (simp only: nth_append lv) simp
  have n: "?at ! 9 = 0" "?at ! 10 = 0" "?at ! 11 = 0" "?at ! 12 = 0" "?at ! 13 = 0x20" "?at ! 14 = 0"
    "?at ! 15 = 8" "?at ! 16 = 0"
    using nth [of 0] nth [of 1] nth [of 2] nth [of 3] nth [of 4] nth [of 5] nth [of 6] nth [of 7]
    by (simp_all add: attribute_bytes_def xor_mapped_value_def le16_def kXorMappedAddress_def htons_def
        rd16_def del: nth_append)
  have len: "length ?at = 24 + length ys"
    by (simp add: attribute_bytes_def xor_mapped_value_def assms(2))
  have "scan_attributes ?at 24 0 = scan_attributes ?at 24 9"
    using scan_skip [of t v "[]" 24 ?rest] assms lv by simp
  also have "\<dots> = scan_attributes ?at 24 13"
    using n len
    by (subst scan_attributes.simps)
      (simp add: attr16_def htons_def rd16_def kXorMappedAddress_def del: append.simps append_assoc)
  also have "\<dots> = scan_attributes ?at 24 2065"
    using n len unat_rd16 [of 0 8]
    by (subst scan_attributes.simps)
      (simp add: attr16_def htons_def rd16_def kXorMappedAddress_def del: append.simps append_assoc)
  also have "\<dots> = NotFound" by (subst scan_attributes.simps) simp
  finally show ?thesis .
qed

theorem stun_padding_missed_witness:
  "scan_attributes (attribute_bytes (0x8022, [1, 2, 3, 4, 5]) @ [0, 0, 0] @
    attribute_bytes (kXorMappedAddress, xor_mapped_value 10 0 0 1 9910) @ []) 24 0 = NotFound"
  by (rule stun_padding_missed) (simp_all add: kXorMappedAddress_def)

end
