(* ===== verification/ConnectionFetcher.thy ===== *)
theory ConnectionFetcher
  imports TunPrelude Stun "HOL-Library.Char_ord"
begin

text \<open>
  The client of the relay server, \<open>src/connection/ConnectionFetcher.h\<close> and \<open>.cpp\<close>: the
  validation of the server's name, the buffer that collects a response, and the fetch loop with
  its retries. curl, the STUN query, the JSON document and the address parser are outside; what
  they answer is an argument of one round of the loop.
\<close>

section \<open>The server name\<close>

text \<open>
  \<open>regex_search\<close> returns the leftmost match, and the longest one there since the star is greedy.
  The pattern matches the empty string, so there is a match at the first position: the longest
  prefix of allowed characters. The exception of the other branch is \<open>None\<close>.
\<close>

definition name_char :: "char \<Rightarrow> bool" where
  "name_char c = (c \<in> set ''-_ '' \<or>
     list_ex (\<lambda>(lo, hi). lo \<le> c \<and> c \<le> hi)
       [(CHR ''a'', CHR ''z''), (CHR ''A'', CHR ''Z''), (CHR ''0'', CHR ''9'')])"

fun regex_search :: "string \<Rightarrow> string option" where
  "regex_search name = Some (takeWhile name_char name)"

definition validateServerName :: "string \<Rightarrow> string option" where
  "validateServerName name = (case regex_search name of Some m \<Rightarrow> Some m | None \<Rightarrow> None)"

section \<open>The response buffer\<close>

text \<open>
  \<open>rb_alloc\<close> is the real size of the block: the initialiser of \<open>buf\<close> reads \<open>len\<close> before it has its
  value, so a new buffer has an unspecified size. The callback may find too little room and
  reallocate (\<open>Exited\<close> when that fails), or write past the block (\<open>Overflow\<close>).
\<close>

record response_data =
  rb_buf :: mem
  rb_alloc :: nat
  rb_len :: nat
  rb_ind :: nat

datatype read_error = Exited | Overflow

definition new_response :: "nat \<Rightarrow> mem \<Rightarrow> response_data" where
  "new_response garbage m = \<lparr>rb_buf = m, rb_alloc = garbage, rb_len = 1000, rb_ind = 0\<rparr>"

definition reader :: "bool \<Rightarrow> byte list \<Rightarrow> response_data \<Rightarrow> read_error + response_data" where
  "reader realloc_ok chunk r =
     (if rb_len r - rb_ind r < length chunk \<and> \<not> realloc_ok then Inl Exited
      else let r = (if rb_len r - rb_ind r < length chunk
                    then r\<lparr>rb_len := rb_len r + length chunk, rb_alloc := rb_len r + length chunk\<rparr>
                    else r)
           in if rb_alloc r < length chunk then Inl Overflow
              else Inr (r\<lparr>rb_buf := mem_write (rb_buf r) 0 chunk\<rparr>))"

text \<open>curl hands a response over in one or more pieces.\<close>

fun read_chunks :: "bool \<Rightarrow> byte list list \<Rightarrow> response_data \<Rightarrow> read_error + response_data" where
  "read_chunks ok [] r = Inr r"
| "read_chunks ok (c # cs) r =
     (case reader ok c r of Inl e \<Rightarrow> Inl e | Inr r \<Rightarrow> read_chunks ok cs r)"

section \<open>The fetcher\<close>

type_synonym endpoint = "u32 \<times> u16"

record connect_request =
  cr_id :: u32
  cr_addr :: endpoint

text \<open>One element of the array \<open>connections\<close>, with the values its three members convert to.\<close>

record connection =
  c_client_id :: int
  c_addr :: string
  c_port :: int

record response_doc =
  doc_id :: "u32 option"
  doc_connections :: "connection list option"

text \<open>
  The members of \<open>Data\<close>; \<open>f_url\<close> is the URL set in the curl handle, \<open>f_lastUpdate\<close> the local variable
  \<open>lastTimeUpdatedAddress\<close> of the thread, \<open>f_requests\<close> and \<open>f_errors\<close> record the calls of the two
  callbacks. Times are in milliseconds.
\<close>

record fetcher =
  f_serverName :: string
  f_serverURL :: string
  f_id :: u32
  f_publicAddr :: endpoint
  f_url :: "string option"
  f_started :: bool
  f_shouldRun :: bool
  f_fetchInterval :: int
  f_retryCount :: u32
  f_maxRetries :: u32
  f_lastUpdate :: int
  f_requests :: "connect_request list list"
  f_errors :: nat

definition MAX_RETRY :: u32 where "MAX_RETRY = 5"
definition DEFAULT_FETCH_INTERVAL :: int where "DEFAULT_FETCH_INTERVAL = 3000"
definition MIN_FETCH_INTERVAL :: int where "MIN_FETCH_INTERVAL = 1000"
definition STUN_INTERVAL :: int where "STUN_INTERVAL = 5000"

text \<open>The constructor: an empty callback and a missing curl handle are exceptions.\<close>

definition new_fetcher :: "string \<Rightarrow> string \<Rightarrow> bool \<Rightarrow> bool \<Rightarrow> fetcher option" where
  "new_fetcher name url callback_set curl_ok =
     (case validateServerName name of None \<Rightarrow> None
      | Some n \<Rightarrow> if \<not> callback_set \<or> \<not> curl_ok then None
        else Some \<lparr>f_serverName = n, f_serverURL = url, f_id = 0, f_publicAddr = (0, 0), f_url = None,
                   f_started = False, f_shouldRun = False, f_fetchInterval = DEFAULT_FETCH_INTERVAL,
                   f_retryCount = 0, f_maxRetries = MAX_RETRY, f_lastUpdate = 0, f_requests = [],
                   f_errors = 0\<rparr>)"

definition setFetchInterval :: "int \<Rightarrow> fetcher \<Rightarrow> fetcher" where
  "setFetchInterval t f = f\<lparr>f_fetchInterval := max t MIN_FETCH_INTERVAL\<rparr>"

definition setMaximumRetries :: "u32 \<Rightarrow> fetcher \<Rightarrow> fetcher" where
  "setMaximumRetries n f = f\<lparr>f_maxRetries := n\<rparr>"

text \<open>\<open>start\<close> also says whether a thread was created; the thread begins with a new time stamp.\<close>

definition start_fetcher :: "fetcher \<Rightarrow> bool \<times> fetcher" where
  "start_fetcher f = (if \<not> f_started f
     then (True, f\<lparr>f_started := True, f_shouldRun := True, f_lastUpdate := 0\<rparr>) else (False, f))"

definition stop_fetcher :: "fetcher \<Rightarrow> fetcher" where
  "stop_fetcher f = f\<lparr>f_shouldRun := False\<rparr>"

definition updateURL :: "(u32 \<Rightarrow> string) \<Rightarrow> fetcher \<Rightarrow> fetcher" where
  "updateURL ipString f = f\<lparr>f_url := Some (f_serverURL f @ ''?action=register&id='' @
     show_nat (unat (f_id f)) @ ''&addr='' @ ipString (fst (f_publicAddr f)) @ ''&port='' @
     show_nat (unat (snd (f_publicAddr f))))\<rparr>"

text \<open>
  What the world answers in one round: the clock, the result of the STUN query (\<open>None\<close> when it
  throws) and the clock after it, the HTTP status (\<open>None\<close> when curl fails), the pieces of the
  response.
\<close>

record answers =
  a_now :: int
  a_stun :: "endpoint option"
  a_stun_done :: int
  a_http :: "int option"
  a_chunks :: "byte list list"

definition updateAddress :: "(u32 \<Rightarrow> string) \<Rightarrow> answers \<Rightarrow> fetcher \<Rightarrow> bool \<times> fetcher" where
  "updateAddress ipString a f = (case a_stun a of None \<Rightarrow> (False, f)
     | Some res \<Rightarrow> let f = f\<lparr>f_lastUpdate := a_stun_done a\<rparr> in
         (True, if res \<noteq> f_publicAddr f then updateURL ipString (f\<lparr>f_publicAddr := res\<rparr>) else f))"

definition fetch_failed :: "fetcher \<Rightarrow> fetcher" where
  "fetch_failed f = (if f_retryCount f = f_maxRetries f
     then (stop_fetcher (f\<lparr>f_retryCount := 0\<rparr>))\<lparr>f_errors := f_errors f + 1\<rparr>
     else f\<lparr>f_retryCount := f_retryCount f + 1\<rparr>)"

text \<open>\<open>initialize(addr, AF_INET, name, port)\<close> is outside: \<open>None\<close> when it throws.\<close>

fun collect_requests ::
    "(string \<Rightarrow> u32 option) \<Rightarrow> u32 \<Rightarrow> connection list \<Rightarrow> connect_request list" where
  "collect_requests parseIp i [] = []"
| "collect_requests parseIp i (c # cs) =
     (if c_client_id c < 1 then collect_requests parseIp i cs
      else if c_port c < 1 \<or> c_port c > 65535 then collect_requests parseIp i cs
      else case parseIp (c_addr c) of None \<Rightarrow> collect_requests parseIp i cs
        | Some ip \<Rightarrow> \<lparr>cr_id = i, cr_addr = (ip, word_of_int (c_port c))\<rparr> # collect_requests parseIp i cs)"

definition apply_response ::
    "(u32 \<Rightarrow> string) \<Rightarrow> (string \<Rightarrow> u32 option) \<Rightarrow> response_doc \<Rightarrow> fetcher \<Rightarrow> fetcher" where
  "apply_response ipString parseIp d f =
    (let f = (case doc_id d of None \<Rightarrow> f
              | Some i \<Rightarrow> if i \<noteq> f_id f then updateURL ipString (f\<lparr>f_id := i\<rparr>) else f);
         f = (case doc_connections d of None \<Rightarrow> f
              | Some cs \<Rightarrow> let result = collect_requests parseIp (f_id f) cs in
                  if result \<noteq> [] then f\<lparr>f_requests := f_requests f @ [result]\<rparr> else f)
     in f\<lparr>f_retryCount := 0\<rparr>)"

text \<open>
  One round of the loop, with the response buffer that lives as long as the thread. \<open>Inl\<close> is the
  end of the process. \<open>parseDoc\<close> is \<open>deserializeJson\<close> on the bytes of the buffer.
\<close>

definition fetch_round ::
    "(u32 \<Rightarrow> string) \<Rightarrow> (string \<Rightarrow> u32 option) \<Rightarrow> (mem \<Rightarrow> response_doc) \<Rightarrow> bool \<Rightarrow> answers \<Rightarrow>
     fetcher \<times> response_data \<Rightarrow> read_error + fetcher \<times> response_data" where
  "fetch_round ipString parseIp parseDoc realloc_ok a s =
    (let (f, r) = s in
     if \<not> f_shouldRun f then Inr (f\<lparr>f_started := False\<rparr>, r) else
     let due = (a_now a - f_lastUpdate f \<ge> STUN_INTERVAL);
         (ok, f) = (if due then updateAddress ipString a f else (True, f)) in
     if \<not> ok then Inr (fetch_failed f, r) else
     case read_chunks realloc_ok (a_chunks a) (r\<lparr>rb_ind := 0\<rparr>) of Inl e \<Rightarrow> Inl e
     | Inr r \<Rightarrow> if a_http a \<noteq> Some 200 then Inr (fetch_failed f, r)
                else Inr (apply_response ipString parseIp (parseDoc (rb_buf r)) f, r))"


fun fetch_run ::
    "(u32 \<Rightarrow> string) \<Rightarrow> (string \<Rightarrow> u32 option) \<Rightarrow> (mem \<Rightarrow> response_doc) \<Rightarrow> bool \<Rightarrow> answers list \<Rightarrow>
     fetcher \<times> response_data \<Rightarrow> read_error + fetcher \<times> response_data" where
  "fetch_run ips pip pd ok [] s = Inr s"
| "fetch_run ips pip pd ok (a # as) s =
     (case fetch_round ips pip pd ok a s of Inl e \<Rightarrow> Inl e | Inr s \<Rightarrow> fetch_run ips pip pd ok as s)"

section \<open>The name and the buffer\<close>

text \<open>No name is refused: a forbidden character only cuts the name short.\<close>

lemma name_never_rejected:
  "\<exists>p. validateServerName name = Some p \<and> (\<forall>c\<in>set p. name_char c) \<and>
       (\<exists>rest. name = p @ rest \<and> (rest \<noteq> [] \<longrightarrow> \<not> name_char (hd rest)))"
  by (rule exI [of _ "takeWhile name_char name"])
    (auto simp: validateServerName_def dest: set_takeWhileD
       intro!: exI [of _ "dropWhile name_char name"] hd_dropWhile)

lemma reader_buf: "reader ok c r = Inr r' \<Longrightarrow> rb_buf r' = mem_write (rb_buf r) 0 c"
  by (auto simp: reader_def Let_def split: if_splits)

lemma reader_room: "reader ok c r = Inr r' \<Longrightarrow> length c \<le> rb_alloc r'"
  by (auto simp: reader_def Let_def split: if_splits)

lemma read_chunks_append:
  "read_chunks ok (cs @ ds) r =
     (case read_chunks ok cs r of Inl e \<Rightarrow> Inl e | Inr r' \<Rightarrow> read_chunks ok ds r')"
  by (induction cs arbitrary: r) (auto split: sum.split)

text \<open>
  The response buffer holds the last piece of a response and not the response: every piece is
  copied to the start of the buffer, so after any number of pieces the buffer begins with the last
  one, and a response that arrives in two pieces of the same length leaves no byte of the first.
\<close>

theorem response_keeps_last_piece:
  assumes r1: "read_chunks ok cs r = Inr r1" and "read_chunks ok (cs @ [a, c]) r = Inr r'"
    and "length a \<le> length c"
  shows "rb_buf r' = mem_write (rb_buf r1) 0 c \<and> mem_read (rb_buf r') 0 (length c) = c"
proof -
  obtain r2 where r2: "reader ok a r1 = Inr r2" and r': "reader ok c r2 = Inr r'"
    using assms(2) r1 by (auto simp: read_chunks_append split: sum.splits)
  have "rb_buf r' = mem_write (mem_write (rb_buf r1) 0 a) 0 c"
    using reader_buf [OF r2] reader_buf [OF r'] by simp
  also have "\<dots> = mem_write (rb_buf r1) 0 c"
    using assms(3) by (auto simp: mem_write_def)
  finally show ?thesis
    by simp
qed

theorem response_keeps_last_piece_witness:
  "mem_read (rb_buf (projr (read_chunks True [[1, 2], [3, 4]] (new_response 1000 (\<lambda>_. 0))))) 0 2 = [3, 4]"
  using response_keeps_last_piece [of True "[]" "new_response 1000 (\<lambda>_. 0)" "new_response 1000 (\<lambda>_. 0)"
      "[1, 2]" "[3, 4]" "projr (read_chunks True [[1, 2], [3, 4]] (new_response 1000 (\<lambda>_. 0)))"]
  by (auto simp: reader_def new_response_def Let_def numeral_2_eq_2)

section \<open>Retries\<close>

text \<open>The world while the relay and the STUN server cannot be reached.\<close>

definition unreachable :: "answers \<Rightarrow> bool" where
  "unreachable a = (a_stun a = None \<and> a_http a = None \<and> a_chunks a = [])"

lemma unreachable_round:
  assumes "unreachable a" and "f_shouldRun f"
  shows "\<exists>r'. fetch_round ips pip pd ok a (f, r) = Inr (fetch_failed f, r')"
  using assms by (auto simp: fetch_round_def unreachable_def updateAddress_def Let_def)

lemma retries_count:
  assumes "\<forall>a\<in>set as. unreachable a" and "f_shouldRun f" and "f_retryCount f \<le> f_maxRetries f"
    and "length as \<le> unat (f_maxRetries f) - unat (f_retryCount f)"
  shows "\<exists>r'. fetch_run ips pip pd ok as (f, r) =
    Inr (f\<lparr>f_retryCount := f_retryCount f + of_nat (length as)\<rparr>, r')"
  using assms
proof (induction as arbitrary: f r)
  case Nil
  then show ?case by simp
next
  case (Cons a as)
  have ne: "f_retryCount f \<noteq> f_maxRetries f" and lt: "f_retryCount f < f_maxRetries f"
    using Cons.prems(3,4) by (auto simp: order.order_iff_strict)
  obtain r1 where r1: "fetch_round ips pip pd ok a (f, r) = Inr (fetch_failed f, r1)"
    using unreachable_round Cons.prems by fastforce
  have up: "unat (f_retryCount f + 1) = unat (f_retryCount f) + 1"
    using lt unsigned_less [of "f_maxRetries f", where 'a = nat] by (simp add: unat_word_ariths word_less_nat_alt)
  have f': "fetch_failed f = f\<lparr>f_retryCount := f_retryCount f + 1\<rparr>"
    using ne by (simp add: fetch_failed_def)
  have "\<exists>r'. fetch_run ips pip pd ok as (fetch_failed f, r1) = Inr (fetch_failed f
      \<lparr>f_retryCount := f_retryCount (fetch_failed f) + of_nat (length as)\<rparr>, r')"
    using Cons.prems lt up by (intro Cons.IH) (auto simp: f' inc_le)
  then show ?case
    using r1 by (auto simp: f' algebra_simps)
qed


lemma fetch_run_append:
  "fetch_run ips pip pd ok (as @ bs) s =
     (case fetch_run ips pip pd ok as s of Inl e \<Rightarrow> Inl e | Inr s' \<Rightarrow> fetch_run ips pip pd ok bs s')"
  by (induction as arbitrary: s) (auto split: sum.split)


definition demo_fetcher :: fetcher where
  "demo_fetcher = (snd (start_fetcher (the (new_fetcher ''a'' ''http://r'' True True))))\<lparr>f_maxRetries := 1\<rparr>"

definition silent :: "int \<Rightarrow> answers" where
  "silent t = \<lparr>a_now = t, a_stun = None, a_stun_done = t, a_http = None, a_chunks = []\<rparr>"


section \<open>The requests that reach the callback\<close>

definition request_ok :: "connect_request list \<Rightarrow> bool" where
  "request_ok rs = (rs \<noteq> [] \<and> (\<forall>q\<in>set rs. snd (cr_addr q) \<noteq> 0 \<and> cr_id q = cr_id (hd rs)))"

lemma collect_requests_all:
  "\<forall>q\<in>set (collect_requests pip i cs). cr_id q = i \<and> snd (cr_addr q) \<noteq> 0 \<and>
     (\<exists>c\<in>set cs. 1 \<le> c_client_id c \<and> 1 \<le> c_port c \<and> c_port c \<le> 65535 \<and>
        pip (c_addr c) = Some (fst (cr_addr q)) \<and> uint (snd (cr_addr q)) = c_port c)"
proof (induction cs)
  case Nil
  then show ?case by simp
next
  case (Cons c cs)
  have port: "uint (word_of_int p :: u16) = p" if "1 \<le> p" "p \<le> 65535" for p
    using that by (simp add: uint_word_of_int)
  have "(word_of_int p :: u16) \<noteq> 0" if "1 \<le> p" "p \<le> 65535" for p
    using port [OF that] that by auto
  then show ?case
    using Cons.IH port by (auto split: option.splits)
qed

lemma collect_requests_ok:
  "collect_requests pip i cs \<noteq> [] \<Longrightarrow> request_ok (collect_requests pip i cs)"
  using collect_requests_all [of pip i cs] by (simp add: request_ok_def)

lemma apply_response_ok:
  "\<forall>rs\<in>set (f_requests f). request_ok rs \<Longrightarrow>
   \<forall>rs\<in>set (f_requests (apply_response ips pip d f)). request_ok rs"
  using collect_requests_ok
  by (auto simp: apply_response_def Let_def updateURL_def split: option.splits if_splits)

lemma fetch_round_ok:
  assumes "fetch_round ips pip pd ok a (f, r) = Inr (f', r')" and "\<forall>rs\<in>set (f_requests f). request_ok rs"
  shows "\<forall>rs\<in>set (f_requests f'). request_ok rs"
proof -
  have failed: "f_requests (fetch_failed g) = f_requests g" for g
    by (simp add: fetch_failed_def stop_fetcher_def)
  have addr: "f_requests (snd (updateAddress ips a g)) = f_requests g" for g
    by (simp add: updateAddress_def updateURL_def Let_def split: option.split)
  show ?thesis
    using assms apply_response_ok [of f ips pip] apply_response_ok [of "snd (updateAddress ips a f)" ips pip]
    unfolding fetch_round_def Let_def
    by (auto simp: case_prod_unfold failed addr split: if_splits sum.splits)
qed

text \<open>
  Every batch that the fetcher hands to its callback is not empty, has only ports the range
  check let through, and gives all its requests one and the same id: the fetcher's own and not
  that of the client that wants to connect.
\<close>

theorem requests_validated:
  assumes "fetch_run ips pip pd ok as (f, r) = Inr (f', r')" and "f_requests f = []"
  shows "\<forall>rs\<in>set (f_requests f'). request_ok rs"
proof -
  have "\<forall>rs\<in>set (f_requests f'). request_ok rs"
    if "fetch_run ips pip pd ok as (f, r) = Inr (f', r')" "\<forall>rs\<in>set (f_requests f). request_ok rs" for f r
    using that
  proof (induction as arbitrary: f r)
    case (Cons a as)
    then show ?case
      by (cases "fetch_round ips pip pd ok a (f, r)") (auto dest!: fetch_round_ok)
  qed simp
  then show ?thesis
    using assms by simp
qed

definition offered :: response_doc where
  "offered = \<lparr>doc_id = Some 9, doc_connections = Some
     [\<lparr>c_client_id = 4, c_addr = ''x'', c_port = 80\<rparr>, \<lparr>c_client_id = 5, c_addr = ''x'', c_port = 70000\<rparr>]\<rparr>"

definition answering :: answers where
  "answering = \<lparr>a_now = 0, a_stun = None, a_stun_done = 0, a_http = Some 200, a_chunks = []\<rparr>"

theorem requests_validated_witness:
  "f_requests (fst (projr (fetch_run (\<lambda>_. []) (\<lambda>_. Some 7) (\<lambda>_. offered) True [answering]
     (demo_fetcher, new_response 0 (\<lambda>_. 0))))) = [[\<lparr>cr_id = 9, cr_addr = (7, 80)\<rparr>]] \<and>
   request_ok [\<lparr>cr_id = 9, cr_addr = (7, 80)\<rparr>]"
  using requests_validated [of "\<lambda>_. []" "\<lambda>_. Some 7" "\<lambda>_. offered" True "[answering]" demo_fetcher
      "new_response 0 (\<lambda>_. 0)"]
  by (simp add: answering_def offered_def demo_fetcher_def new_fetcher_def start_fetcher_def
      validateServerName_def fetch_round_def apply_response_def updateURL_def Let_def STUN_INTERVAL_def)

end
