(* ===== verification/JsonData.thy ===== *)
theory JsonData
  imports TunPrelude
begin

text \<open>
  The data model of the JSON library that the relay client uses (\<open>external/ArduinoJson\<close>):
  variants, error codes, the memory pool with its strings on the left and its slots on the
  right, the two string storages, and the filter of the deserializer. A variant here is the tree that the
  linked slots represent. The operations on IEEE doubles are a parameter.
\<close>

section \<open>Variants\<close>

type_synonym u64 = "64 word"

datatype 'f jvariant =
    JNull
  | JBool bool
  | JUnsigned u64
  | JSigned u64
  | JFloat 'f
  | JString string
  | JRaw string
  | JArray "'f jvariant list"
  | JObject "(string \<times> 'f jvariant) list"

datatype code = Ok | EmptyInput | IncompleteInput | InvalidInput | NoMemory | TooDeep

fun code_c_str :: "code \<Rightarrow> string" where
  "code_c_str Ok = ''Ok''"
| "code_c_str EmptyInput = ''EmptyInput''"
| "code_c_str IncompleteInput = ''IncompleteInput''"
| "code_c_str InvalidInput = ''InvalidInput''"
| "code_c_str NoMemory = ''NoMemory''"
| "code_c_str TooDeep = ''TooDeep''"

record 'f float_ops =
  make_float :: "u64 \<Rightarrow> int \<Rightarrow> 'f"
  neg_float :: "'f \<Rightarrow> 'f"
  inf_float :: 'f
  zero_float :: 'f
  float_nonzero :: "'f \<Rightarrow> bool"
  float_is_one :: "'f \<Rightarrow> bool"

abbreviation NUL :: char where "NUL \<equiv> CHR 0x00"

text \<open>Keys are stored as pointers and compared as C strings: up to the first NUL.\<close>

definition cstr :: "string \<Rightarrow> string" where
  "cstr s = takeWhile (\<lambda>c. c \<noteq> NUL) s"

fun isFloat :: "'f jvariant \<Rightarrow> bool" where
  "isFloat (JUnsigned _) = True"
| "isFloat (JSigned _) = True"
| "isFloat (JFloat _) = True"
| "isFloat _ = False"

definition isEnclosed :: "'f jvariant \<Rightarrow> bool" where
  "isEnclosed v = (\<not> isFloat v)"

fun asBoolean :: "'f float_ops \<Rightarrow> 'f jvariant \<Rightarrow> bool" where
  "asBoolean F (JBool b) = b"
| "asBoolean F (JSigned n) = (n \<noteq> 0)"
| "asBoolean F (JUnsigned n) = (n \<noteq> 0)"
| "asBoolean F (JFloat f) = float_nonzero F f"
| "asBoolean F JNull = False"
| "asBoolean F _ = True"

text \<open>The comparison of a variant with \<open>true\<close>: numbers and booleans compare as numbers.\<close>

fun equals_true :: "'f float_ops \<Rightarrow> 'f jvariant \<Rightarrow> bool" where
  "equals_true F (JFloat f) = float_is_one F f"
| "equals_true F (JSigned n) = (n = 1)"
| "equals_true F (JUnsigned n) = (n = 1)"
| "equals_true F (JBool b) = b"
| "equals_true F _ = False"

section \<open>Members and elements\<close>

definition getMember :: "string \<Rightarrow> (string \<times> 'f jvariant) list \<Rightarrow> 'f jvariant option" where
  "getMember k ms = map_of ms (cstr k)"

fun setMember :: "string \<Rightarrow> 'f jvariant \<Rightarrow> (string \<times> 'f jvariant) list \<Rightarrow> (string \<times> 'f jvariant) list" where
  "setMember k v [] = []"
| "setMember k v ((k', v') # ms) = (if k' = k then (k', v) # ms else (k', v') # setMember k v ms)"

fun variant_member :: "string \<Rightarrow> 'f jvariant \<Rightarrow> 'f jvariant" where
  "variant_member k (JObject ms) = (case getMember k ms of Some v \<Rightarrow> v | None \<Rightarrow> JNull)"
| "variant_member k _ = JNull"

fun variant_element :: "nat \<Rightarrow> 'f jvariant \<Rightarrow> 'f jvariant" where
  "variant_element i (JArray vs) = (if i < length vs then vs ! i else JNull)"
| "variant_element i _ = JNull"

section \<open>The filter\<close>

text \<open>\<open>AllowAllFilter\<close>, or a \<open>Filter\<close> around a variant.\<close>

datatype 'f jfilter = AllowAll | Filter "'f jvariant"

fun allow :: "'f float_ops \<Rightarrow> 'f jfilter \<Rightarrow> bool" where
  "allow F AllowAll = True"
| "allow F (Filter v) = asBoolean F v"

fun allowArray :: "'f float_ops \<Rightarrow> 'f jfilter \<Rightarrow> bool" where
  "allowArray F AllowAll = True"
| "allowArray F (Filter v) = (equals_true F v \<or> (case v of JArray _ \<Rightarrow> True | _ \<Rightarrow> False))"

fun allowObject :: "'f float_ops \<Rightarrow> 'f jfilter \<Rightarrow> bool" where
  "allowObject F AllowAll = True"
| "allowObject F (Filter v) = (equals_true F v \<or> (case v of JObject _ \<Rightarrow> True | _ \<Rightarrow> False))"

fun allowValue :: "'f float_ops \<Rightarrow> 'f jfilter \<Rightarrow> bool" where
  "allowValue F AllowAll = True"
| "allowValue F (Filter v) = equals_true F v"

definition wildcard :: "'f jvariant \<Rightarrow> 'f jvariant \<Rightarrow> 'f jvariant" where
  "wildcard v m = (if m = JNull then variant_member ''*'' v else m)"

fun elementFilter :: "'f float_ops \<Rightarrow> 'f jfilter \<Rightarrow> 'f jfilter" where
  "elementFilter F AllowAll = AllowAll"
| "elementFilter F (Filter v) = (if equals_true F v then Filter v
     else Filter (wildcard v (variant_element 0 v)))"

fun memberFilter :: "'f float_ops \<Rightarrow> string \<Rightarrow> 'f jfilter \<Rightarrow> 'f jfilter" where
  "memberFilter F k AllowAll = AllowAll"
| "memberFilter F k (Filter v) = (if equals_true F v then Filter v
     else Filter (wildcard v (variant_member k v)))"

section \<open>The memory pool\<close>

text \<open>
  \<open>p_text\<close> are the bytes from \<open>_begin\<close> to \<open>_left\<close>, \<open>p_right\<close> and \<open>p_end\<close> the offsets of \<open>_right\<close> and \<open>_end\<close>
  from \<open>_begin\<close>. A slot takes 32 bytes on a 64-bit machine.
\<close>

record pool =
  p_text :: string
  p_right :: nat
  p_end :: nat
  p_overflowed :: bool

definition SLOT_SIZE :: nat where "SLOT_SIZE = 32"

definition new_pool :: "nat \<Rightarrow> pool" where
  "new_pool capa = \<lparr>p_text = [], p_right = capa, p_end = capa, p_overflowed = False\<rparr>"

definition pool_size :: "pool \<Rightarrow> nat" where
  "pool_size p = length (p_text p) + (p_end p - p_right p)"

definition clear_pool :: "pool \<Rightarrow> pool" where
  "clear_pool p = p\<lparr>p_text := [], p_right := p_end p, p_overflowed := False\<rparr>"

definition canAlloc :: "nat \<Rightarrow> pool \<Rightarrow> bool" where
  "canAlloc n p = (length (p_text p) + n \<le> p_right p)"

definition markAsOverflowed :: "pool \<Rightarrow> pool" where
  "markAsOverflowed p = p\<lparr>p_overflowed := True\<rparr>"

definition freeZone :: "pool \<Rightarrow> nat" where
  "freeZone p = p_right p - length (p_text p)"

text \<open>The slot is a fresh one: only its success matters to a tree of variants.\<close>

definition allocVariant :: "pool \<Rightarrow> bool \<times> pool" where
  "allocVariant p = (if \<not> canAlloc SLOT_SIZE p then (False, markAsOverflowed p)
     else (True, p\<lparr>p_right := p_right p - SLOT_SIZE\<rparr>))"

text \<open>
  The search for a string already in the pool walks from terminator to terminator. The offset
  it returns is relative to where it starts.
\<close>

function findString :: "string \<Rightarrow> string \<Rightarrow> nat option" where
  "findString str zone =
    (if length str < length zone then
       if zone ! length str = NUL \<and> take (length str) zone = str then Some 0
       else map_option (\<lambda>i. i + length (takeWhile (\<lambda>c. c \<noteq> NUL) zone) + 1)
              (findString str (tl (dropWhile (\<lambda>c. c \<noteq> NUL) zone)))
     else None)"
  by pat_completeness auto
termination
proof (relation "measure (\<lambda>(str, zone). length zone)")
  fix str zone :: string
  assume "length str < length zone"
  moreover have "length (dropWhile (\<lambda>c. c \<noteq> NUL) zone) \<le> length zone" by (rule length_dropWhile_le)
  ultimately show "((str, tl (dropWhile (\<lambda>c. c \<noteq> NUL) zone)), str, zone) \<in> measure (\<lambda>(str, zone). length zone)"
    by simp
qed simp

declare findString.simps [simp del]

text \<open>\<open>saveStringFromFreeZone\<close>: the text was already written behind \<open>_left\<close> by the storage.\<close>

definition saveStringFromFreeZone :: "string \<Rightarrow> pool \<Rightarrow> nat \<times> pool" where
  "saveStringFromFreeZone str p = (case findString str (p_text p) of Some i \<Rightarrow> (i, p)
     | None \<Rightarrow> (length (p_text p), p\<lparr>p_text := p_text p @ str @ [NUL]\<rparr>))"

definition saveString :: "string \<Rightarrow> pool \<Rightarrow> nat option \<times> pool" where
  "saveString str p = (case findString str (p_text p) of Some i \<Rightarrow> (Some i, p)
     | None \<Rightarrow> if \<not> canAlloc (length str + 1) p then (None, markAsOverflowed p)
         else (Some (length (p_text p)), p\<lparr>p_text := p_text p @ str @ [NUL]\<rparr>))"

definition addPadding :: "nat \<Rightarrow> nat" where
  "addPadding n = (n + 7) div 8 * 8"

definition squash :: "pool \<Rightarrow> nat \<times> pool" where
  "squash p = (let new_right = addPadding (length (p_text p)) in
     if new_right \<ge> p_right p then (0, p)
     else (p_right p - new_right,
           p\<lparr>p_right := new_right, p_end := new_right + (p_end p - p_right p)\<rparr>))"

definition pool_inv :: "pool \<Rightarrow> bool" where
  "pool_inv p = (length (p_text p) \<le> p_right p \<and> p_right p \<le> p_end p)"


section \<open>The string storages\<close>

text \<open>
  What the deserializer needs of a storage and the pool behind it (its template parameter
  \<open>TStringStorage\<close> together with \<open>_pool\<close>).
\<close>

record 'm mem_ops =
  startString :: "'m \<Rightarrow> 'm"
  append_char :: "char \<Rightarrow> 'm \<Rightarrow> 'm"
  isValid :: "'m \<Rightarrow> bool"
  str :: "'m \<Rightarrow> string"
  save :: "'m \<Rightarrow> string \<times> 'm"
  addSlot :: "'m \<Rightarrow> bool \<times> 'm"

text \<open>\<open>StringCopier\<close> writes into the free zone of the pool and needs room for the terminator.\<close>

record copier =
  c_pool :: pool
  c_text :: string
  c_capacity :: nat

definition copier_start :: "copier \<Rightarrow> copier" where
  "copier_start c = (let n = freeZone (c_pool c) in
     c\<lparr>c_capacity := n, c_text := [],
       c_pool := (if n = 0 then markAsOverflowed (c_pool c) else c_pool c)\<rparr>)"

definition copier_append :: "char \<Rightarrow> copier \<Rightarrow> copier" where
  "copier_append ch c = (if length (c_text c) + 1 < c_capacity c then c\<lparr>c_text := c_text c @ [ch]\<rparr>
     else c\<lparr>c_pool := markAsOverflowed (c_pool c)\<rparr>)"

definition copier_save :: "copier \<Rightarrow> string \<times> copier" where
  "copier_save c = (c_text c, c\<lparr>c_pool := snd (saveStringFromFreeZone (c_text c) (c_pool c))\<rparr>)"

definition copier_addSlot :: "copier \<Rightarrow> bool \<times> copier" where
  "copier_addSlot c = (case allocVariant (c_pool c) of (ok, p) \<Rightarrow> (ok, c\<lparr>c_pool := p\<rparr>))"

definition copier_ops :: "copier mem_ops" where
  "copier_ops = \<lparr>startString = copier_start, append_char = copier_append,
     isValid = (\<lambda>c. \<not> p_overflowed (c_pool c)), str = c_text, save = copier_save,
     addSlot = copier_addSlot\<rparr>"

text \<open>
  \<open>StringMover\<close> writes into the input itself: \<open>m_write\<close> is the offset of \<open>_writePtr\<close> in the input,
  \<open>m_text\<close> the bytes from \<open>_startPtr\<close> to it. \<open>str\<close> also writes a terminator at \<open>_writePtr\<close>: since the offset and the unread rest
  together never get longer, it lies before the unread rest or on its first character, which the latch holds already when
  \<open>str\<close> is called behind a key. The memory of the input is not part of the model, so that this write has no effect here.
\<close>

record mover =
  m_pool :: pool
  m_text :: string
  m_write :: nat

definition mover_start :: "mover \<Rightarrow> mover" where
  "mover_start m = m\<lparr>m_text := []\<rparr>"

definition mover_append :: "char \<Rightarrow> mover \<Rightarrow> mover" where
  "mover_append ch m = m\<lparr>m_text := m_text m @ [ch], m_write := m_write m + 1\<rparr>"

definition mover_save :: "mover \<Rightarrow> string \<times> mover" where
  "mover_save m = (m_text m, m\<lparr>m_write := m_write m + 1\<rparr>)"

definition mover_addSlot :: "mover \<Rightarrow> bool \<times> mover" where
  "mover_addSlot m = (case allocVariant (m_pool m) of (ok, p) \<Rightarrow> (ok, m\<lparr>m_pool := p\<rparr>))"

definition mover_ops :: "mover mem_ops" where
  "mover_ops = \<lparr>startString = mover_start, append_char = mover_append, isValid = (\<lambda>_. True),
     str = m_text, save = mover_save, addSlot = mover_addSlot\<rparr>"

end
