(* ===== verification/JsonText.thy ===== *)
theory JsonText
  imports JsonData "HOL-Library.Char_ord"
begin

text \<open>
  The text level of the JSON library: the one-character latch before the input, escape
  sequences, UTF-16 surrogates, UTF-8, and numbers.
\<close>

section \<open>The latch\<close>

text \<open>
  \<open>Latch.hpp\<close>: \<open>current\<close> loads a character once, \<open>clear\<close> drops it. A reader that is at its end
  returns \<open>-1\<close>, which reads as NUL.
\<close>

record latch =
  l_rest :: string
  l_current :: char
  l_loaded :: bool

definition load :: "latch \<Rightarrow> latch" where
  "load l = (case l_rest l of [] \<Rightarrow> l\<lparr>l_current := NUL, l_loaded := True\<rparr>
     | c # cs \<Rightarrow> l\<lparr>l_rest := cs, l_current := c, l_loaded := True\<rparr>)"

definition latch_current :: "latch \<Rightarrow> char \<times> latch" where
  "latch_current l = (let l = (if l_loaded l then l else load l) in (l_current l, l))"

definition latch_clear :: "latch \<Rightarrow> latch" where
  "latch_clear l = l\<lparr>l_loaded := False\<rparr>"

text \<open>
  The deserializer below works on the characters not yet cleared. \<open>unread\<close> maps a latch to them;
  a loaded NUL is the end of the text whatever follows it.
\<close>

definition peek :: "string \<Rightarrow> char" where
  "peek cs = (case cs of [] \<Rightarrow> NUL | c # _ \<Rightarrow> c)"

definition unread :: "latch \<Rightarrow> string" where
  "unread l = (if l_loaded l then if l_current l = NUL then [] else l_current l # l_rest l
     else takeWhile (\<lambda>c. c \<noteq> NUL) (l_rest l))"

section \<open>Escape sequences\<close>

definition escape_table :: string where
  "escape_table = [CHR ''/'', CHR ''/'', CHR 0x22, CHR 0x22, CHR 0x5C, CHR 0x5C, CHR ''b'', CHR 0x08,
     CHR ''f'', CHR 0x0C, CHR ''n'', CHR 0x0A, CHR ''r'', CHR 0x0D, CHR ''t'', CHR 0x09]"

fun escape_scan :: "char \<Rightarrow> string \<Rightarrow> char" where
  "escape_scan c (p0 # p1 # ps) = (if p1 \<noteq> c then escape_scan c ps else p0)"
| "escape_scan c _ = NUL"

definition escapeChar :: "char \<Rightarrow> char" where
  "escapeChar c = escape_scan c (drop 2 escape_table)"

fun unescape_scan :: "char \<Rightarrow> string \<Rightarrow> char" where
  "unescape_scan c (p0 # p1 # ps) = (if p0 = c then p1 else unescape_scan c ps)"
| "unescape_scan c _ = NUL"

definition unescapeChar :: "char \<Rightarrow> char" where
  "unescapeChar c = unescape_scan c escape_table"

section \<open>Code points\<close>

definition isHighSurrogate :: "u16 \<Rightarrow> bool" where
  "isHighSurrogate u = (u \<ge> 0xD800 \<and> u < 0xDC00)"

definition isLowSurrogate :: "u16 \<Rightarrow> bool" where
  "isLowSurrogate u = (u \<ge> 0xDC00 \<and> u < 0xE000)"

text \<open>
  \<open>Codepoint::append\<close>: the new high surrogate, and the code point when one is complete. The
  shift and the sum are computed in \<open>int\<close>, which is wide enough.
\<close>

definition codepoint_append :: "u16 \<Rightarrow> u16 \<Rightarrow> u16 \<times> u32 option" where
  "codepoint_append high u =
     (if isHighSurrogate u then (and u 0x3FF, None)
      else if isLowSurrogate u
      then (high, Some (0x10000 + or (push_bit 10 (ucast high)) (and (ucast u) 0x3FF)))
      else (high, Some (ucast u)))"

definition char8 :: "'a::len word \<Rightarrow> char" where
  "char8 w = char_of (unat w)"

text \<open>\<open>encodeCodepoint\<close> builds the bytes in reverse order in a buffer; here in the order it appends them.\<close>

definition encodeCodepoint :: "u32 \<Rightarrow> string" where
  "encodeCodepoint cp =
    (if cp < 0x80 then [char8 cp]
     else let b0 = char8 (and (or cp 0x80) 0xBF);
              cp16 = ucast (drop_bit 6 cp) :: u16
       in if cp16 < 0x20 then [char8 (or cp16 0xC0), b0]
          else let b1 = char8 (and (or cp16 0x80) 0xBF);
                   cp16' = drop_bit 6 cp16
            in if cp16' < 0x10 then [char8 (or cp16' 0xE0), b1, b0]
               else let b2 = char8 (and (or cp16' 0x80) 0xBF)
                 in [char8 (or (drop_bit 6 cp16') 0xF0), b2, b1, b0])"

text \<open>\<open>char\<close> is signed: the bytes from 128 on are below \<open>'A'\<close>.\<close>

definition decodeHex :: "char \<Rightarrow> byte" where
  "decodeHex c = (let b = of_char c :: byte in
     if sint b < 65 then b - 48 else and b (not 0x20) - 65 + 10)"

section \<open>Numbers\<close>

definition is_digit :: "char \<Rightarrow> bool" where
  "is_digit c = (of_char c \<in> {48..57::nat})"

definition digit_val :: "char \<Rightarrow> u64" where
  "digit_val c = of_nat (of_char c - 48)"

definition maxUint :: u64 where "maxUint = - 1"
definition mantissa_max :: u64 where "mantissa_max = 2 ^ 52 - 1"
definition exponent_max :: int where "exponent_max = 308"

text \<open>
  The first loop of \<open>parseNumber\<close>. It stops before a digit that would overflow, but the second test comes
  after the mantissa was multiplied.
\<close>

fun read_mantissa :: "u64 \<Rightarrow> string \<Rightarrow> u64 \<times> string" where
  "read_mantissa m [] = (m, [])"
| "read_mantissa m (c # cs) =
     (if \<not> is_digit c then (m, c # cs)
      else if m > maxUint div 10 then (m, c # cs)
      else let m' = m * 10 in
        if m' > maxUint - digit_val c then (m', c # cs) else read_mantissa (m' + digit_val c) cs)"

function shrink_mantissa :: "u64 \<Rightarrow> int \<Rightarrow> u64 \<times> int" where
  "shrink_mantissa m off = (if m > mantissa_max then shrink_mantissa (m div 10) (off + 1) else (m, off))"
  by pat_completeness auto
termination
proof (relation "measure (\<lambda>(m, off). unat m)")
  fix m :: u64 and off :: int
  assume "mantissa_max < m"
  then have "0 < unat m" by (metis unat_gt_0 word_not_simps(1))
  then show "((m div 10, off + 1), (m, off)) \<in> measure (\<lambda>(m, off). unat m)"
    by (simp add: unat_div)
qed simp

declare shrink_mantissa.simps [simp del]

text \<open>
  \<open>exponent_offset\<close> has 16 bits and wraps after 32767 digits. Cutting the mantissa adds at most 4 to it, and \<open>exponent\<close>, which
  has 32 bits, stays below 2 to the power of 19, since \<open>read_exponent\<close> stops above \<open>exponent_max\<close>.
\<close>

definition exponent16 :: "int \<Rightarrow> int" where
  "exponent16 n = sint (word_of_int n :: 16 word)"

fun read_decimals :: "u64 \<Rightarrow> int \<Rightarrow> string \<Rightarrow> u64 \<times> int \<times> string" where
  "read_decimals m off [] = (m, off, [])"
| "read_decimals m off (c # cs) =
     (if \<not> is_digit c then (m, off, c # cs)
      else if m < mantissa_max div 10 then read_decimals (m * 10 + digit_val c) (exponent16 (off - 1)) cs
      else read_decimals m off cs)"

text \<open>\<open>None\<close> when the exponent is too large, which ends the function at once.\<close>

fun read_exponent :: "int \<Rightarrow> int \<Rightarrow> string \<Rightarrow> (int \<times> string) option" where
  "read_exponent off e [] = Some (e, [])"
| "read_exponent off e (c # cs) =
     (if \<not> is_digit c then Some (e, c # cs)
      else let e = e * 10 + uint (digit_val c) in
        if e + off > exponent_max then None else read_exponent off e cs)"

definition signed_float :: "'f float_ops \<Rightarrow> bool \<Rightarrow> 'f \<Rightarrow> 'f" where
  "signed_float F neg f = (if neg then neg_float F f else f)"

text \<open>The part of \<open>parseNumber\<close> after the integers have returned.\<close>

definition parse_float_tail :: "'f float_ops \<Rightarrow> bool \<Rightarrow> u64 \<Rightarrow> string \<Rightarrow> 'f jvariant option" where
  "parse_float_tail F neg m s =
    (let (m, off) = shrink_mantissa m 0;
         off = exponent16 (off + int (length (takeWhile is_digit s)));
         s = dropWhile is_digit s;
         (m, off, s) = (if peek s = CHR ''.'' then read_decimals m off (tl s) else (m, off, s))
     in if peek s = CHR ''e'' \<or> peek s = CHR ''E''
        then let neg_exp = (peek (tl s) = CHR ''-'');
                 s = (if neg_exp \<or> peek (tl s) = CHR ''+'' then tl (tl s) else tl s)
          in case read_exponent off 0 s of
               None \<Rightarrow> Some (JFloat (signed_float F neg (if neg_exp then zero_float F else inf_float F)))
             | Some (e, s) \<Rightarrow> if s \<noteq> [] then None
                 else Some (JFloat (signed_float F neg (make_float F m ((if neg_exp then - e else e) + off))))
        else if s \<noteq> [] then None
        else Some (JFloat (signed_float F neg (make_float F m off))))"

text \<open>\<open>None\<close> is the result false, which leaves the variant alone. The text has no NUL.\<close>

definition parseNumber :: "'f float_ops \<Rightarrow> string \<Rightarrow> 'f jvariant option" where
  "parseNumber F s =
    (let neg = (peek s = CHR ''-'');
         s = (if neg \<or> peek s = CHR ''+'' then tl s else s)
     in if \<not> is_digit (peek s) \<and> peek s \<noteq> CHR ''.'' then None
        else let (m, s) = read_mantissa 0 s in
          if s = [] \<and> \<not> neg then Some (JUnsigned m)
          else if s = [] \<and> m \<le> 2 ^ 63 then Some (JSigned (not m + 1))
          else parse_float_tail F neg m s)"

end
