(* ===== verification/JsonParse.thy ===== *)
theory JsonParse
  imports JsonText
begin

text \<open>
  \<open>JsonDeserializer.hpp\<close>: the parser and its skipping twin. The functions return the error code, the
  variant as far as it was built, and the state. The recursion over nested values is over the nesting
  limit. The loops over elements and members go on only when the input became shorter; the lemmas
  of the next theory show that it always does, so the guard is never what ends a loop.
\<close>

record 'm jstate =
  j_in :: string
  j_found :: bool
  j_mem :: 'm

definition current :: "'m jstate \<Rightarrow> char" where
  "current s = peek (j_in s)"

definition move :: "'m jstate \<Rightarrow> 'm jstate" where
  "move s = s\<lparr>j_in := tl (j_in s)\<rparr>"

definition eat :: "char \<Rightarrow> 'm jstate \<Rightarrow> bool \<times> 'm jstate" where
  "eat c s = (if current s \<noteq> c then (False, s) else (True, move s))"

definition appendc :: "'m mem_ops \<Rightarrow> char \<Rightarrow> 'm jstate \<Rightarrow> 'm jstate" where
  "appendc M c s = s\<lparr>j_mem := append_char M c (j_mem s)\<rparr>"

definition append_all :: "'m mem_ops \<Rightarrow> string \<Rightarrow> 'm jstate \<Rightarrow> 'm jstate" where
  "append_all M cs s = s\<lparr>j_mem := fold (append_char M) cs (j_mem s)\<rparr>"

section \<open>Characters\<close>

definition isBetween :: "char \<Rightarrow> char \<Rightarrow> char \<Rightarrow> bool" where
  "isBetween c lo hi = (lo \<le> c \<and> c \<le> hi)"

definition canBeInNumber :: "char \<Rightarrow> bool" where
  "canBeInNumber c = (isBetween c (CHR ''0'') (CHR ''9'') \<or> c \<in> set ''+-.eE'')"

definition canBeInNonQuotedString :: "char \<Rightarrow> bool" where
  "canBeInNonQuotedString c = (isBetween c (CHR ''0'') (CHR ''9'') \<or> isBetween c (CHR ''_'') (CHR ''z'') \<or>
     isBetween c (CHR ''A'') (CHR ''Z''))"

definition isQuote :: "char \<Rightarrow> bool" where
  "isQuote c = (c = CHR 0x27 \<or> c = CHR 0x22)"

definition is_space :: "char \<Rightarrow> bool" where
  "is_space c = (c \<in> {CHR '' '', CHR 0x09, CHR 0x0D, CHR 0x0A})"

text \<open>Comments are compiled out: \<open>ARDUINOJSON_ENABLE_COMMENTS\<close> is 0.\<close>

definition skipSpacesAndComments :: "'m jstate \<Rightarrow> code \<times> 'm jstate" where
  "skipSpacesAndComments s = (let s = s\<lparr>j_in := dropWhile is_space (j_in s)\<rparr> in
     if current s = NUL then (if j_found s then IncompleteInput else EmptyInput, s)
     else (Ok, s\<lparr>j_found := True\<rparr>))"

fun skipKeyword :: "string \<Rightarrow> 'm jstate \<Rightarrow> code \<times> 'm jstate" where
  "skipKeyword [] s = (Ok, s)"
| "skipKeyword (k # ks) s = (let c = current s in
     if c = NUL then (IncompleteInput, s) else if k \<noteq> c then (InvalidInput, s)
     else skipKeyword ks (move s))"

section \<open>Strings\<close>

text \<open>\<open>parseHex4\<close>, with the number of digits still to read and the result so far.\<close>

fun parseHex :: "nat \<Rightarrow> u16 \<Rightarrow> 'm jstate \<Rightarrow> code \<times> u16 \<times> 'm jstate" where
  "parseHex 0 r s = (Ok, r, s)"
| "parseHex (Suc n) r s = (let d = current s in
     if d = NUL then (IncompleteInput, r, s)
     else if decodeHex d > 0x0F then (InvalidInput, r, s)
     else parseHex n (or (push_bit 4 r) (ucast (decodeHex d))) (move s))"

lemma parseHex_length: "parseHex n r s = (e, r', s') \<Longrightarrow> length (j_in s') \<le> length (j_in s)"
  by (induction n r s rule: parseHex.induct) (force simp: Let_def move_def split: if_splits)+

text \<open>The branch of a \<open>\u\<close> escape: the new high surrogate, and a complete code point is appended.\<close>

definition unicodeEscape :: "'m mem_ops \<Rightarrow> u16 \<Rightarrow> 'm jstate \<Rightarrow> code \<times> u16 \<times> 'm jstate" where
  "unicodeEscape M high s = (case parseHex 4 0 s of (err, codeunit, s) \<Rightarrow>
     if err \<noteq> Ok then (err, high, s)
     else case codepoint_append high codeunit of (high', cp) \<Rightarrow>
       (Ok, high', case cp of None \<Rightarrow> s | Some v \<Rightarrow> append_all M (encodeCodepoint v) s))"

lemma unicodeEscape_length:
  "unicodeEscape M high s = (e, h, s') \<Longrightarrow> length (j_in s') \<le> length (j_in s)"
  using parseHex_length [of 4 0 s]
  by (auto simp: unicodeEscape_def append_all_def split: prod.splits if_splits option.splits)

text \<open>The loop of \<open>parseQuotedString\<close>: the closing quote and the high surrogate seen last.\<close>

function parseQuotedLoop :: "'m mem_ops \<Rightarrow> char \<Rightarrow> u16 \<Rightarrow> 'm jstate \<Rightarrow> code \<times> 'm jstate" where
  "parseQuotedLoop M stop high s =
    (let c = current s; s1 = move s in
     if c = stop then (if isValid M (j_mem s1) then Ok else NoMemory, s1)
     else if c = NUL then (IncompleteInput, s1)
     else if c = CHR 0x5C then
       (let c = current s1 in
        if c = NUL then (IncompleteInput, s1)
        else if c = CHR ''u'' then
          (case unicodeEscape M high (move s1) of (err, high', s2) \<Rightarrow>
             if err \<noteq> Ok then (err, s2) else parseQuotedLoop M stop high' s2)
        else let c = unescapeChar c in
          if c = NUL then (InvalidInput, s1)
          else parseQuotedLoop M stop high (appendc M c (move s1)))
     else parseQuotedLoop M stop high (appendc M c s1))"
  by pat_completeness auto
termination
  by (relation "measure (\<lambda>(M, stop, high, s). length (j_in s))")
    (auto simp: current_def peek_def move_def appendc_def split: list.splits
      dest!: unicodeEscape_length [OF sym])

declare parseQuotedLoop.simps [simp del]

definition parseQuotedString :: "'m mem_ops \<Rightarrow> 'm jstate \<Rightarrow> code \<times> 'm jstate" where
  "parseQuotedString M s = parseQuotedLoop M (current s) 0 (move s)"

definition parseNonQuotedString :: "'m mem_ops \<Rightarrow> 'm jstate \<Rightarrow> code \<times> 'm jstate" where
  "parseNonQuotedString M s =
    (let cs = takeWhile canBeInNonQuotedString (j_in s) in
     if cs = [] then (InvalidInput, s)
     else let s = append_all M cs (s\<lparr>j_in := drop (length cs) (j_in s)\<rparr>) in
       (if isValid M (j_mem s) then Ok else NoMemory, s))"

definition start_string :: "'m mem_ops \<Rightarrow> 'm jstate \<Rightarrow> 'm jstate" where
  "start_string M s = s\<lparr>j_mem := startString M (j_mem s)\<rparr>"

definition parseKey :: "'m mem_ops \<Rightarrow> 'm jstate \<Rightarrow> code \<times> 'm jstate" where
  "parseKey M s = (let s = start_string M s in
     if isQuote (current s) then parseQuotedString M s else parseNonQuotedString M s)"

definition save_string :: "'m mem_ops \<Rightarrow> 'm jstate \<Rightarrow> string \<times> 'm jstate" where
  "save_string M s = (case save M (j_mem s) of (t, m) \<Rightarrow> (t, s\<lparr>j_mem := m\<rparr>))"

definition parseStringValue :: "'m mem_ops \<Rightarrow> 'f jvariant \<Rightarrow> 'm jstate \<Rightarrow> code \<times> 'f jvariant \<times> 'm jstate" where
  "parseStringValue M v s = (case parseQuotedString M (start_string M s) of (err, s) \<Rightarrow>
     if err \<noteq> Ok then (err, v, s)
     else case save_string M s of (t, s) \<Rightarrow> (Ok, JString t, s))"

text \<open>The buffer of a number holds 63 characters and the terminator.\<close>

definition parseNumericValue ::
    "'f float_ops \<Rightarrow> 'f jvariant \<Rightarrow> 'm jstate \<Rightarrow> code \<times> 'f jvariant \<times> 'm jstate" where
  "parseNumericValue F v s =
    (let cs = take 63 (takeWhile canBeInNumber (j_in s));
         s = s\<lparr>j_in := drop (length cs) (j_in s)\<rparr>
     in case parseNumber F cs of None \<Rightarrow> (InvalidInput, v, s) | Some v \<Rightarrow> (Ok, v, s))"

section \<open>Skipping\<close>

function skipQuotedLoop :: "char \<Rightarrow> 'm jstate \<Rightarrow> code \<times> 'm jstate" where
  "skipQuotedLoop stop s =
    (let c = current s; s1 = move s in
     if c = stop then (Ok, s1)
     else if c = NUL then (IncompleteInput, s1)
     else if c = CHR 0x5C then skipQuotedLoop stop (if current s1 \<noteq> NUL then move s1 else s1)
     else skipQuotedLoop stop s1)"
  by pat_completeness auto
termination
  by (relation "measure (\<lambda>(stop, s). length (j_in s))")
    (auto simp: current_def peek_def move_def split: list.splits)

declare skipQuotedLoop.simps [simp del]

definition skipQuotedString :: "'m jstate \<Rightarrow> code \<times> 'm jstate" where
  "skipQuotedString s = skipQuotedLoop (current s) (move s)"

definition skipNonQuotedString :: "'m jstate \<Rightarrow> code \<times> 'm jstate" where
  "skipNonQuotedString s = (Ok, s\<lparr>j_in := dropWhile canBeInNonQuotedString (j_in s)\<rparr>)"

definition skipKey :: "'m jstate \<Rightarrow> code \<times> 'm jstate" where
  "skipKey s = (if isQuote (current s) then skipQuotedString s else skipNonQuotedString s)"

definition skipNumericValue :: "'m jstate \<Rightarrow> code \<times> 'm jstate" where
  "skipNumericValue s = (Ok, s\<lparr>j_in := dropWhile canBeInNumber (j_in s)\<rparr>)"


text \<open>
  The two loops take the function that skips a nested value. \<open>reached\<close> says that the nesting limit is zero.
\<close>

function skip_elements :: "('m jstate \<Rightarrow> code \<times> 'm jstate) \<Rightarrow> 'm jstate \<Rightarrow> code \<times> 'm jstate" where
  "skip_elements skip s =
    (case skip s of (err, s1) \<Rightarrow> if err \<noteq> Ok then (err, s1) else
     case skipSpacesAndComments s1 of (err, s2) \<Rightarrow> if err \<noteq> Ok then (err, s2) else
     case eat (CHR '']'') s2 of (close, s3) \<Rightarrow> if close then (Ok, s3) else
     case eat (CHR '','') s3 of (comma, s4) \<Rightarrow> if \<not> comma then (InvalidInput, s4) else
     if length (j_in s4) < length (j_in s) then skip_elements skip s4 else (InvalidInput, s4))"
  by pat_completeness auto
termination
  by (relation "measure (\<lambda>(skip, s). length (j_in s))") auto

declare skip_elements.simps [simp del]

function skip_members :: "('m jstate \<Rightarrow> code \<times> 'm jstate) \<Rightarrow> 'm jstate \<Rightarrow> code \<times> 'm jstate" where
  "skip_members skip s =
    (case skipKey s of (err, s1) \<Rightarrow> if err \<noteq> Ok then (err, s1) else
     case skipSpacesAndComments s1 of (err, s2) \<Rightarrow> if err \<noteq> Ok then (err, s2) else
     case eat (CHR '':'') s2 of (colon, s3) \<Rightarrow> if \<not> colon then (InvalidInput, s3) else
     case skip s3 of (err, s4) \<Rightarrow> if err \<noteq> Ok then (err, s4) else
     case skipSpacesAndComments s4 of (err, s5) \<Rightarrow> if err \<noteq> Ok then (err, s5) else
     case eat (CHR ''}'') s5 of (close, s6) \<Rightarrow> if close then (Ok, s6) else
     case eat (CHR '','') s6 of (comma, s7) \<Rightarrow> if \<not> comma then (InvalidInput, s7) else
     case skipSpacesAndComments s7 of (err, s8) \<Rightarrow> if err \<noteq> Ok then (err, s8) else
     if length (j_in s8) < length (j_in s) then skip_members skip s8 else (InvalidInput, s8))"
  by pat_completeness auto
termination
  by (relation "measure (\<lambda>(skip, s). length (j_in s))") auto

declare skip_members.simps [simp del]

definition skipArray :: "bool \<Rightarrow> ('m jstate \<Rightarrow> code \<times> 'm jstate) \<Rightarrow> 'm jstate \<Rightarrow> code \<times> 'm jstate" where
  "skipArray reached skip s = (if reached then (TooDeep, s) else skip_elements skip (move s))"

definition skipObject :: "bool \<Rightarrow> ('m jstate \<Rightarrow> code \<times> 'm jstate) \<Rightarrow> 'm jstate \<Rightarrow> code \<times> 'm jstate" where
  "skipObject reached skip s = (if reached then (TooDeep, s) else
     case skipSpacesAndComments (move s) of (err, s1) \<Rightarrow> if err \<noteq> Ok then (err, s1) else
     case eat (CHR ''}'') s1 of (close, s2) \<Rightarrow> if close then (Ok, s2) else skip_members skip s2)"

definition skip_value :: "bool \<Rightarrow> ('m jstate \<Rightarrow> code \<times> 'm jstate) \<Rightarrow> 'm jstate \<Rightarrow> code \<times> 'm jstate" where
  "skip_value reached skip s =
    (case skipSpacesAndComments s of (err, s) \<Rightarrow> if err \<noteq> Ok then (err, s) else
     let c = current s in
     if c = CHR ''['' then skipArray reached skip s
     else if c = CHR ''{'' then skipObject reached skip s
     else if isQuote c then skipQuotedString s
     else if c = CHR ''t'' then skipKeyword ''true'' s
     else if c = CHR ''f'' then skipKeyword ''false'' s
     else if c = CHR ''n'' then skipKeyword ''null'' s
     else skipNumericValue s)"

primrec skipVariant :: "nat \<Rightarrow> 'm jstate \<Rightarrow> code \<times> 'm jstate" where
  "skipVariant 0 = skip_value True (\<lambda>s. (TooDeep, s))"
| "skipVariant (Suc n) = skip_value False (skipVariant n)"

section \<open>Parsing\<close>

text \<open>
  \<open>parse\<close> fills a variant, \<open>skip\<close> passes one over. An element is parsed into a fresh null variant
  in a new slot; the slot stays in the array when the value fails.
\<close>

definition parse_element ::
    "'m mem_ops \<Rightarrow> ('f jvariant \<Rightarrow> 'm jstate \<Rightarrow> code \<times> 'f jvariant \<times> 'm jstate) \<Rightarrow>
     ('m jstate \<Rightarrow> code \<times> 'm jstate) \<Rightarrow> bool \<Rightarrow> 'f jvariant list \<Rightarrow> 'm jstate \<Rightarrow>
     code \<times> 'f jvariant list \<times> 'm jstate" where
  "parse_element M parse skip allowed vs s =
    (if allowed
     then case addSlot M (j_mem s) of (ok, m) \<Rightarrow>
       if \<not> ok then (NoMemory, vs, s\<lparr>j_mem := m\<rparr>)
       else case parse JNull (s\<lparr>j_mem := m\<rparr>) of (err, v, s1) \<Rightarrow> (err, vs @ [v], s1)
     else case skip s of (err, s1) \<Rightarrow> (err, vs, s1))"

function parse_elements ::
    "'m mem_ops \<Rightarrow> ('f jvariant \<Rightarrow> 'm jstate \<Rightarrow> code \<times> 'f jvariant \<times> 'm jstate) \<Rightarrow>
     ('m jstate \<Rightarrow> code \<times> 'm jstate) \<Rightarrow> bool \<Rightarrow> 'f jvariant list \<Rightarrow> 'm jstate \<Rightarrow>
     code \<times> 'f jvariant list \<times> 'm jstate" where
  "parse_elements M parse skip allowed vs s =
    (case parse_element M parse skip allowed vs s of
     (err, vs1, s1) \<Rightarrow> if err \<noteq> Ok then (err, vs1, s1) else
     case skipSpacesAndComments s1 of (err, s2) \<Rightarrow> if err \<noteq> Ok then (err, vs1, s2) else
     case eat (CHR '']'') s2 of (close, s3) \<Rightarrow> if close then (Ok, vs1, s3) else
     case eat (CHR '','') s3 of (comma, s4) \<Rightarrow> if \<not> comma then (InvalidInput, vs1, s4) else
     if length (j_in s4) < length (j_in s) then parse_elements M parse skip allowed vs1 s4
     else (InvalidInput, vs1, s4))"
  by pat_completeness auto
termination
  by (relation "measure (\<lambda>(M, parse, skip, allowed, vs, s). length (j_in s))") auto

declare parse_elements.simps [simp del]

text \<open>
  The value of one member, after the colon: an existing member is parsed into the variant it
  has, a new one gets its key saved and a slot.
\<close>

definition parse_member ::
    "'m mem_ops \<Rightarrow> ('f jfilter \<Rightarrow> 'f jvariant \<Rightarrow> 'm jstate \<Rightarrow> code \<times> 'f jvariant \<times> 'm jstate) \<Rightarrow>
     ('m jstate \<Rightarrow> code \<times> 'm jstate) \<Rightarrow> 'f float_ops \<Rightarrow> 'f jfilter \<Rightarrow>
     (string \<times> 'f jvariant) list \<Rightarrow> 'm jstate \<Rightarrow> code \<times> (string \<times> 'f jvariant) list \<times> 'm jstate" where
  "parse_member M parse skip F flt ms s =
    (let key = cstr (str M (j_mem s)); flt = memberFilter F key flt in
     if \<not> allow F flt then case skip s of (err, s1) \<Rightarrow> (err, ms, s1)
     else case getMember key ms of
       Some v \<Rightarrow> (case parse flt v s of (err, v1, s1) \<Rightarrow> (err, setMember key v1 ms, s1))
     | None \<Rightarrow> (case save_string M s of (t, s1) \<Rightarrow>
         case addSlot M (j_mem s1) of (ok, m) \<Rightarrow>
           if \<not> ok then (NoMemory, ms, s1\<lparr>j_mem := m\<rparr>)
           else case parse flt JNull (s1\<lparr>j_mem := m\<rparr>) of (err, v1, s2) \<Rightarrow> (err, ms @ [(cstr t, v1)], s2)))"

function parse_members ::
    "'m mem_ops \<Rightarrow> ('f jfilter \<Rightarrow> 'f jvariant \<Rightarrow> 'm jstate \<Rightarrow> code \<times> 'f jvariant \<times> 'm jstate) \<Rightarrow>
     ('m jstate \<Rightarrow> code \<times> 'm jstate) \<Rightarrow> 'f float_ops \<Rightarrow> 'f jfilter \<Rightarrow>
     (string \<times> 'f jvariant) list \<Rightarrow> 'm jstate \<Rightarrow> code \<times> (string \<times> 'f jvariant) list \<times> 'm jstate" where
  "parse_members M parse skip F flt ms s =
    (case parseKey M s of (err, s1) \<Rightarrow> if err \<noteq> Ok then (err, ms, s1) else
     case skipSpacesAndComments s1 of (err, s2) \<Rightarrow> if err \<noteq> Ok then (err, ms, s2) else
     case eat (CHR '':'') s2 of (colon, s3) \<Rightarrow> if \<not> colon then (InvalidInput, ms, s3) else
     case parse_member M parse skip F flt ms s3 of (err, ms1, s4) \<Rightarrow> if err \<noteq> Ok then (err, ms1, s4) else
     case skipSpacesAndComments s4 of (err, s5) \<Rightarrow> if err \<noteq> Ok then (err, ms1, s5) else
     case eat (CHR ''}'') s5 of (close, s6) \<Rightarrow> if close then (Ok, ms1, s6) else
     case eat (CHR '','') s6 of (comma, s7) \<Rightarrow> if \<not> comma then (InvalidInput, ms1, s7) else
     case skipSpacesAndComments s7 of (err, s8) \<Rightarrow> if err \<noteq> Ok then (err, ms1, s8) else
     if length (j_in s8) < length (j_in s) then parse_members M parse skip F flt ms1 s8
     else (InvalidInput, ms1, s8))"
  by pat_completeness auto
termination
  by (relation "measure (\<lambda>(M, parse, skip, F, flt, ms, s). length (j_in s))") auto

declare parse_members.simps [simp del]


definition parseArray ::
    "'m mem_ops \<Rightarrow> bool \<Rightarrow> ('f jfilter \<Rightarrow> 'f jvariant \<Rightarrow> 'm jstate \<Rightarrow> code \<times> 'f jvariant \<times> 'm jstate) \<Rightarrow>
     ('m jstate \<Rightarrow> code \<times> 'm jstate) \<Rightarrow> 'f float_ops \<Rightarrow> 'f jfilter \<Rightarrow> 'm jstate \<Rightarrow>
     code \<times> 'f jvariant list \<times> 'm jstate" where
  "parseArray M reached parse skip F flt s = (if reached then (TooDeep, [], s) else
     case skipSpacesAndComments (move s) of (err, s1) \<Rightarrow> if err \<noteq> Ok then (err, [], s1) else
     case eat (CHR '']'') s1 of (close, s2) \<Rightarrow> if close then (Ok, [], s2) else
     let member = elementFilter F flt in
       parse_elements M (parse member) skip (allow F member) [] s2)"

definition parseObject ::
    "'m mem_ops \<Rightarrow> bool \<Rightarrow> ('f jfilter \<Rightarrow> 'f jvariant \<Rightarrow> 'm jstate \<Rightarrow> code \<times> 'f jvariant \<times> 'm jstate) \<Rightarrow>
     ('m jstate \<Rightarrow> code \<times> 'm jstate) \<Rightarrow> 'f float_ops \<Rightarrow> 'f jfilter \<Rightarrow> 'm jstate \<Rightarrow>
     code \<times> (string \<times> 'f jvariant) list \<times> 'm jstate" where
  "parseObject M reached parse skip F flt s = (if reached then (TooDeep, [], s) else
     case skipSpacesAndComments (move s) of (err, s1) \<Rightarrow> if err \<noteq> Ok then (err, [], s1) else
     case eat (CHR ''}'') s1 of (close, s2) \<Rightarrow> if close then (Ok, [], s2) else
     parse_members M parse skip F flt [] s2)"

definition keyword :: "string \<Rightarrow> 'f jvariant \<Rightarrow> 'm jstate \<Rightarrow> code \<times> 'f jvariant \<times> 'm jstate" where
  "keyword k v s = (case skipKeyword k s of (err, s) \<Rightarrow> (err, v, s))"

text \<open>
  The body of \<open>parseVariant\<close>: the collection is cleared before the nesting limit is tested, and a boolean is
  stored before its keyword is read.
\<close>

definition parse_value ::
    "'m mem_ops \<Rightarrow> 'f float_ops \<Rightarrow> bool \<Rightarrow>
     ('f jfilter \<Rightarrow> 'f jvariant \<Rightarrow> 'm jstate \<Rightarrow> code \<times> 'f jvariant \<times> 'm jstate) \<Rightarrow>
     ('m jstate \<Rightarrow> code \<times> 'm jstate) \<Rightarrow>
     'f jfilter \<Rightarrow> 'f jvariant \<Rightarrow> 'm jstate \<Rightarrow> code \<times> 'f jvariant \<times> 'm jstate" where
  "parse_value M F reached parse skip flt v s =
    (case skipSpacesAndComments s of (err, s) \<Rightarrow> if err \<noteq> Ok then (err, v, s) else
     let c = current s; skipped = (\<lambda>(err, s). (err, v, s)) in
     if c = CHR ''['' then
       if allowArray F flt
       then case parseArray M reached parse skip F flt s of (err, vs, s) \<Rightarrow> (err, JArray vs, s)
       else skipped (skipArray reached skip s)
     else if c = CHR ''{'' then
       if allowObject F flt
       then case parseObject M reached parse skip F flt s of (err, ms, s) \<Rightarrow> (err, JObject ms, s)
       else skipped (skipObject reached skip s)
     else if isQuote c then
       if allowValue F flt then parseStringValue M v s else skipped (skipQuotedString s)
     else if c = CHR ''t'' then keyword ''true'' (if allowValue F flt then JBool True else v) s
     else if c = CHR ''f'' then keyword ''false'' (if allowValue F flt then JBool False else v) s
     else if c = CHR ''n'' then keyword ''null'' v s
     else if allowValue F flt then parseNumericValue F v s else skipped (skipNumericValue s))"

primrec parseVariant ::
    "'m mem_ops \<Rightarrow> 'f float_ops \<Rightarrow> nat \<Rightarrow> 'f jfilter \<Rightarrow> 'f jvariant \<Rightarrow> 'm jstate \<Rightarrow>
     code \<times> 'f jvariant \<times> 'm jstate" where
  "parseVariant M F 0 = parse_value M F True (\<lambda>_ v s. (TooDeep, v, s)) (\<lambda>s. (TooDeep, s))"
| "parseVariant M F (Suc n) = parse_value M F False (parseVariant M F n) (skipVariant n)"

text \<open>
  \<open>parse\<close>, with the check for characters after a number. Only a number leaves the last character
  that was read unconsumed, so \<open>_latch.last()\<close> is the current character there.
\<close>

definition parse_json ::
    "'m mem_ops \<Rightarrow> 'f float_ops \<Rightarrow> nat \<Rightarrow> 'f jfilter \<Rightarrow> 'f jvariant \<Rightarrow> 'm jstate \<Rightarrow>
     code \<times> 'f jvariant \<times> 'm jstate" where
  "parse_json M F limit flt v s = (case parseVariant M F limit flt v s of (err, v, s) \<Rightarrow>
     if err = Ok \<and> current s \<noteq> NUL \<and> \<not> isEnclosed v then (InvalidInput, v, s) else (err, v, s))"

definition DEFAULT_NESTING_LIMIT :: nat where "DEFAULT_NESTING_LIMIT = 10"

text \<open>
  \<open>deserializeJson\<close> on a document with its pool: through a copy of the strings (a constant input), or in
  place (a writable input, the way the relay client calls it).
\<close>

definition deserializeJson ::
    "'f float_ops \<Rightarrow> nat \<Rightarrow> 'f jfilter \<Rightarrow> string \<Rightarrow> pool \<Rightarrow> code \<times> 'f jvariant \<times> pool" where
  "deserializeJson F limit flt inp p =
    (case parse_json copier_ops F limit flt JNull
       \<lparr>j_in = inp, j_found = False, j_mem = \<lparr>c_pool = clear_pool p, c_text = [], c_capacity = 0\<rparr>\<rparr>
     of (err, v, s) \<Rightarrow> (err, v, c_pool (j_mem s)))"

definition deserializeJson_inplace ::
    "'f float_ops \<Rightarrow> nat \<Rightarrow> 'f jfilter \<Rightarrow> string \<Rightarrow> pool \<Rightarrow> code \<times> 'f jvariant \<times> pool" where
  "deserializeJson_inplace F limit flt inp p =
    (case parse_json mover_ops F limit flt JNull
       \<lparr>j_in = inp, j_found = False, j_mem = \<lparr>m_pool = clear_pool p, m_text = [], m_write = 0\<rparr>\<rparr>
     of (err, v, s) \<Rightarrow> (err, v, m_pool (j_mem s)))"

end
