(* ===== verification/JsonFrame.thy ===== *)
theory JsonFrame
  imports JsonParse
begin

text \<open>
  What every function of the deserializer does to its state, whatever the input: it consumes input,
  appends at most as much text as it consumed, and saves a string only when it is complete. The
  locale collects the steps of which all of them are made; its interpretations give the facts
  about the input, the pool and the in-place storage.
\<close>

section \<open>Steps\<close>

definition consume :: "nat \<Rightarrow> 'm jstate \<Rightarrow> 'm jstate" where
  "consume n s = s\<lparr>j_in := drop n (j_in s)\<rparr>"

text \<open>\<open>R k s t\<close>: from \<open>s\<close> to \<open>t\<close>, at least \<open>k\<close> more characters were consumed than appended.\<close>

locale parser_frame =
  fixes M :: "'m mem_ops"
    and R :: "nat \<Rightarrow> 'm jstate \<Rightarrow> 'm jstate \<Rightarrow> bool"
    and ready :: "'m \<Rightarrow> bool"
  assumes R_trans: "R a s t \<Longrightarrow> R b t u \<Longrightarrow> R (a + b) s u"
    and R_mono: "R a s t \<Longrightarrow> b \<le> a \<Longrightarrow> R b s t"
    and R_consume: "length cs + k \<le> n \<Longrightarrow> n \<le> length (j_in s) \<Longrightarrow> ready (j_mem s) \<or> cs = [] \<Longrightarrow>
      R k s (append_all M cs (consume n s))"
    and R_found: "R 0 s (s\<lparr>j_found := found\<rparr>)"
    and R_start: "R 0 s (start_string M s)"
    and R_save: "R 1 s t \<Longrightarrow> ready (j_mem t) \<Longrightarrow> isValid M (j_mem t) \<Longrightarrow> save_string M t = (x, u) \<Longrightarrow> R 0 s u"
    and R_slot: "addSlot M (j_mem s) = (ok, m) \<Longrightarrow> R 0 s (s\<lparr>j_mem := m\<rparr>)"
    and ready_start: "ready (startString M m)"
    and ready_append: "ready m \<Longrightarrow> ready (append_char M c m)"
begin

lemma R_drop: "k \<le> n \<Longrightarrow> n \<le> length (j_in s) \<Longrightarrow> R k s (consume n s)"
  using R_consume [of "[]" k n s] by (simp add: append_all_def consume_def)

lemma R_refl: "R 0 s s"
  using R_drop [of 0 0 s] by (simp add: consume_def)

lemma R_trans0: "R 0 s t \<Longrightarrow> R 0 t u \<Longrightarrow> R 0 s u"
  using R_trans [of 0 s t 0 u] by simp

lemma R_trans1: "R 1 s t \<Longrightarrow> R 0 t u \<Longrightarrow> R 1 s u" "R 0 s t \<Longrightarrow> R 1 t u \<Longrightarrow> R 1 s u"
  using R_trans [of 1 s t 0 u] R_trans [of 0 s t 1 u] by simp_all

lemma R_weak: "R 1 s t \<Longrightarrow> R 0 s t"
  using R_mono by blast

lemma move_consume: "move s = consume 1 s"
  by (simp add: move_def consume_def drop_Suc)

lemma R_move: "R 0 s (move s)"
proof (cases "j_in s")
  case Nil
  then have "move s = s" by (simp add: move_def)
  then show ?thesis using R_refl by simp
next
  case (Cons c cs)
  then show ?thesis using R_drop [of 0 1 s] by (simp add: move_consume)
qed

lemma R_move1: "current s \<noteq> NUL \<Longrightarrow> R 1 s (move s)"
  using R_drop [of 1 1 s] by (cases "j_in s") (auto simp: move_consume current_def peek_def)

lemma R_append: "current s \<noteq> NUL \<Longrightarrow> ready (j_mem s) \<Longrightarrow> R 0 s (appendc M c (move s))"
  using R_consume [of "[c]" 0 1 s]
  by (cases "j_in s") (auto simp: move_consume appendc_def append_all_def current_def peek_def)

lemma R_while: "R 0 s (s\<lparr>j_in := dropWhile P (j_in s)\<rparr>)"
  using R_drop [of 0 "length (takeWhile P (j_in s))" s]
  by (simp add: consume_def dropWhile_eq_drop length_takeWhile_le)

lemma R_skipSpaces:
  assumes "skipSpacesAndComments s = (e, t)"
  shows "R 0 s t \<and> j_mem t = j_mem s \<and> (e = Ok \<longrightarrow> current t \<noteq> NUL)"
  using assms R_while [of s is_space] R_trans0 [OF _ R_found]
  by (auto simp: skipSpacesAndComments_def Let_def current_def split: if_splits)

lemma R_eat:
  assumes "eat c s = (b, t)"
  shows "R 0 s t \<and> j_mem t = j_mem s \<and> (b \<and> c \<noteq> NUL \<longrightarrow> R 1 s t)"
  using assms R_refl R_move R_move1 by (auto simp: eat_def move_def split: if_splits)

lemma R_keyword: "skipKeyword ks s = (e, t) \<Longrightarrow> R 0 s t"
proof (induction ks arbitrary: s)
  case Nil
  then show ?case using R_refl by simp
next
  case (Cons k ks)
  then show ?case using R_refl R_trans0 [OF R_move] by (auto simp: Let_def split: if_splits)
qed

section \<open>Strings\<close>

lemma ready_fold: "ready m \<Longrightarrow> ready (fold (append_char M) cs m)"
  by (induction cs arbitrary: m) (auto simp: ready_append)

lemma parseHex_shape:
  "parseHex n r s = (e, u, t) \<Longrightarrow>
     \<exists>k. k \<le> n \<and> k \<le> length (j_in s) \<and> t = consume k s \<and> (e = Ok \<longrightarrow> k = n)"
proof (induction n r s rule: parseHex.induct)
  case (1 r s)
  then show ?case by (intro exI [of _ 0]) (simp add: consume_def)
next
  case (2 n r s)
  show ?case
  proof (cases "current s = NUL \<or> decodeHex (current s) > 0x0F")
    case True
    then show ?thesis using "2.prems" by (intro exI [of _ 0]) (auto simp: consume_def Let_def split: if_splits)
  next
    case False
    then obtain k where "k \<le> n" "k \<le> length (j_in (move s))" "t = consume k (move s)" "e = Ok \<longrightarrow> k = n"
      using 2 by (auto simp: Let_def)
    moreover obtain c cs where "j_in s = c # cs" using False by (cases "j_in s") (auto simp: current_def peek_def)
    ultimately show ?thesis
      by (intro exI [of _ "Suc k"]) (auto simp: move_def consume_def)
  qed
qed

lemma length_encodeCodepoint: "length (encodeCodepoint v) \<le> 4"
  by (simp add: encodeCodepoint_def Let_def)

lemma R_unicode:
  assumes "unicodeEscape M h s = (e, h', t)" and "ready (j_mem s)"
  shows "R 0 s t \<and> ready (j_mem t)"
proof -
  obtain err u s1 where h: "parseHex 4 0 s = (err, u, s1)" by (metis prod_cases3)
  obtain k where k: "k \<le> length (j_in s)" "s1 = consume k s" "err = Ok \<longrightarrow> k = 4"
    using parseHex_shape [OF h] by blast
  have app: "R 0 s (append_all M cs (consume k s))" if "length cs \<le> 4" "k = 4" for cs
    using R_consume [of cs 0 k s] that k assms(2) by simp
  show ?thesis
    using assms h k R_drop [of 0 k s] app [OF length_encodeCodepoint]
    by (auto simp: unicodeEscape_def append_all_def consume_def ready_fold split: if_splits prod.splits option.splits)
qed

lemma R_quotedLoop:
  assumes "parseQuotedLoop M stop h s = (e, t)" and "ready (j_mem s)"
  shows "R 0 s t \<and> ready (j_mem t) \<and> (e = Ok \<longrightarrow> isValid M (j_mem t))"
  using assms
proof (induction "length (j_in s)" arbitrary: s h rule: less_induct)
  case less
  let ?c = "current s" and ?s1 = "move s"
  have mem: "j_mem ?s1 = j_mem s" "j_mem (move ?s1) = j_mem s" by (simp_all add: move_def)
  consider "?c = stop" | "?c \<noteq> stop" "?c = NUL" | "?c \<noteq> stop" "?c \<noteq> NUL" "?c = CHR 0x5C" "current ?s1 = NUL"
    | "?c \<noteq> stop" "?c \<noteq> NUL" "?c = CHR 0x5C" "current ?s1 = CHR ''u''"
    | "?c \<noteq> stop" "?c \<noteq> NUL" "?c = CHR 0x5C" "current ?s1 \<noteq> NUL" "current ?s1 \<noteq> CHR ''u''"
    | "?c \<noteq> stop" "?c \<noteq> NUL" "?c \<noteq> CHR 0x5C" by blast
  then show ?case
  proof cases
    case 1
    then show ?thesis using less.prems R_move [of s] mem by (subst (asm) parseQuotedLoop.simps) (auto simp: Let_def split: if_splits)
  next
    case 2
    then show ?thesis using less.prems R_move [of s] mem by (subst (asm) parseQuotedLoop.simps) (auto simp: Let_def)
  next
    case 3
    then show ?thesis using less.prems R_move [of s] mem by (subst (asm) parseQuotedLoop.simps) (auto simp: Let_def)
  next
    case 4
    obtain err h' s2 where u: "unicodeEscape M h (move ?s1) = (err, h', s2)" by (metis prod_cases3)
    have r: "R 0 s s2 \<and> ready (j_mem s2)"
      using R_unicode [OF u] less.prems(2) mem R_trans0 [OF R_move R_trans0 [OF R_move]] by auto
    have "length (j_in s2) < length (j_in s)"
      using unicodeEscape_length [OF u] 4 by (cases "j_in s") (auto simp: move_def current_def peek_def)
    then show ?thesis
      using less.hyps [of s2 h'] less.prems 4 u r R_trans0
      by (subst (asm) (2) parseQuotedLoop.simps) (auto simp: Let_def split: if_splits)
  next
    case 5
    let ?s2 = "appendc M (unescapeChar (current ?s1)) (move ?s1)"
    have r: "R 0 s ?s2" using R_trans0 [OF R_move R_append] 5 less.prems(2) mem by simp
    have "length (j_in ?s2) < length (j_in s)"
      using 5 by (cases "j_in s") (auto simp: move_def appendc_def current_def peek_def)
    moreover have "ready (j_mem ?s2)" using less.prems(2) mem ready_append by (simp add: appendc_def)
    ultimately show ?thesis
      using less.hyps [of ?s2 h] less.prems 5 r R_trans0 R_move [of s] mem
      by (subst (asm) (2) parseQuotedLoop.simps) (auto simp: Let_def split: if_splits)
  next
    case 6
    let ?s2 = "appendc M ?c ?s1"
    have r: "R 0 s ?s2" using R_append 6 less.prems(2) by simp
    have "length (j_in ?s2) < length (j_in s)"
      using 6 by (cases "j_in s") (auto simp: move_def appendc_def current_def peek_def)
    moreover have "ready (j_mem ?s2)" using less.prems(2) mem ready_append by (simp add: appendc_def)
    ultimately show ?thesis
      using less.hyps [of ?s2 h] less.prems 6 r R_trans0
      by (subst (asm) (2) parseQuotedLoop.simps) (auto simp: Let_def)
  qed
qed

lemma R_quotedString:
  assumes "parseQuotedString M s = (e, t)" and "ready (j_mem s)" and "current s \<noteq> NUL"
  shows "R 1 s t \<and> ready (j_mem t) \<and> (e = Ok \<longrightarrow> isValid M (j_mem t))"
  using R_quotedLoop [OF assms(1) [unfolded parseQuotedString_def]] assms(2) R_trans1(1) [OF R_move1 [OF assms(3)]]
  by (simp add: move_def)

lemma R_nonQuoted:
  assumes "parseNonQuotedString M s = (e, t)" and "ready (j_mem s)"
  shows "R 0 s t \<and> ready (j_mem t) \<and> (e = Ok \<longrightarrow> isValid M (j_mem t))"
proof -
  let ?cs = "takeWhile canBeInNonQuotedString (j_in s)"
  have "R 0 s (append_all M ?cs (consume (length ?cs) s))"
    using R_consume [of ?cs 0 "length ?cs" s] assms(2) by (simp add: length_takeWhile_le)
  then show ?thesis
    using assms R_refl ready_fold
    by (auto simp: parseNonQuotedString_def Let_def append_all_def consume_def split: if_splits)
qed

lemma R_key:
  assumes "parseKey M s = (e, t)"
  shows "R 0 s t \<and> ready (j_mem t) \<and> (e = Ok \<longrightarrow> isValid M (j_mem t))"
proof -
  let ?s = "start_string M s"
  have r: "ready (j_mem ?s)" by (simp add: start_string_def ready_start)
  show ?thesis
    using assms R_quotedString [of ?s e t] R_nonQuoted [of ?s e t] r R_trans0 [OF R_start] R_weak
    by (auto simp: parseKey_def Let_def isQuote_def split: if_splits)
qed

lemma R_stringValue:
  assumes "parseStringValue M v s = (e, v', t)" and "current s \<noteq> NUL"
  shows "R 0 s t"
proof -
  let ?s = "start_string M s"
  have r: "ready (j_mem ?s)" by (simp add: start_string_def ready_start)
  have cur: "current ?s \<noteq> NUL" using assms(2) by (simp add: start_string_def current_def)
  obtain err s1 where q: "parseQuotedString M ?s = (err, s1)" by (metis surj_pair)
  have s1: "R 1 s s1 \<and> ready (j_mem s1) \<and> (err = Ok \<longrightarrow> isValid M (j_mem s1))"
    using R_quotedString [OF q r cur] R_trans1(2) [OF R_start] by blast
  show ?thesis
    using assms(1) s1 R_save [of s s1] R_weak
    by (auto simp: parseStringValue_def q split: if_splits prod.splits)
qed

lemma R_numericValue: "parseNumericValue F v s = (e, v', t) \<Longrightarrow> R 0 s t"
  using R_drop [of 0 "length (take 63 (takeWhile canBeInNumber (j_in s)))" s] length_takeWhile_le [of canBeInNumber "j_in s"]
  by (auto simp: parseNumericValue_def Let_def consume_def split: option.splits)

section \<open>Skipping\<close>

lemma R_skipQuotedLoop: "skipQuotedLoop stop s = (e, t) \<Longrightarrow> R 0 s t"
proof (induction "length (j_in s)" arbitrary: s rule: less_induct)
  case less
  let ?s1 = "move s"
  let ?s2 = "if current ?s1 \<noteq> NUL then move ?s1 else ?s1"
  have r1: "R 0 s ?s1" by (rule R_move)
  have r2: "R 0 s ?s2" using r1 R_trans0 [OF r1 R_move] by simp
  show ?case
  proof (cases "current s = stop \<or> current s = NUL")
    case True
    then show ?thesis using less.prems r1 by (subst (asm) skipQuotedLoop.simps) (auto simp: Let_def split: if_splits)
  next
    case False
    let ?n = "if current s = CHR 0x5C then ?s2 else ?s1"
    have eq: "skipQuotedLoop stop s = skipQuotedLoop stop ?n"
      by (subst skipQuotedLoop.simps) (use False in \<open>simp add: Let_def\<close>)
    have "length (j_in ?n) < length (j_in s)"
      using False by (cases "j_in s") (auto simp: move_def current_def peek_def)
    moreover have "R 0 s ?n" using r1 r2 by simp
    ultimately show ?thesis
      using less.hyps [of ?n] less.prems eq R_trans0 by metis
  qed
qed

lemma R_skipQuotedString: "skipQuotedString s = (e, t) \<Longrightarrow> R 0 s t"
  using R_trans0 [OF R_move R_skipQuotedLoop] by (simp add: skipQuotedString_def)

lemma R_skipKey: "skipKey s = (e, t) \<Longrightarrow> R 0 s t"
  using R_skipQuotedString R_while by (auto simp: skipKey_def skipNonQuotedString_def split: if_splits)

definition skips :: "('m jstate \<Rightarrow> code \<times> 'm jstate) \<Rightarrow> bool" where
  "skips f \<longleftrightarrow> (\<forall>s e t. f s = (e, t) \<longrightarrow> R 0 s t)"

definition parses :: "('f jvariant \<Rightarrow> 'm jstate \<Rightarrow> code \<times> 'f jvariant \<times> 'm jstate) \<Rightarrow> bool" where
  "parses f \<longleftrightarrow> (\<forall>v s e v' t. f v s = (e, v', t) \<longrightarrow> R 0 s t)"

lemma R_skip_elements:
  assumes f: "skips f" and "skip_elements f s = (e, t)"
  shows "R 0 s t"
  using assms(2)
proof (induction "length (j_in s)" arbitrary: s rule: less_induct)
  case less
  obtain e1 s1 where 1: "f s = (e1, s1)" by (metis surj_pair)
  obtain e2 s2 where 2: "skipSpacesAndComments s1 = (e2, s2)" by (metis surj_pair)
  obtain b3 s3 where 3: "eat (CHR '']'') s2 = (b3, s3)" by (metis surj_pair)
  obtain b4 s4 where 4: "eat (CHR '','') s3 = (b4, s4)" by (metis surj_pair)
  have r1: "R 0 s s1" using f 1 by (auto simp: skips_def)
  have r2: "R 0 s s2" using R_trans0 [OF r1] R_skipSpaces [OF 2] by blast
  have r3: "R 0 s s3" using R_trans0 [OF r2] R_eat [OF 3] by blast
  have r4: "R 0 s s4" using R_trans0 [OF r3] R_eat [OF 4] by blast
  have eq: "skip_elements f s = (if e1 \<noteq> Ok then (e1, s1) else if e2 \<noteq> Ok then (e2, s2) else
      if b3 then (Ok, s3) else if \<not> b4 then (InvalidInput, s4) else
      if length (j_in s4) < length (j_in s) then skip_elements f s4 else (InvalidInput, s4))"
    by (subst skip_elements.simps) (simp only: 1 2 3 4 prod.case)
  show ?case
    using less.hyps [of s4] less.prems r1 r2 r3 r4 R_trans0 [OF r4] unfolding eq by (simp split: if_splits)
qed

lemma R_skip_members:
  assumes f: "skips f" and "skip_members f s = (e, t)"
  shows "R 0 s t"
  using assms(2)
proof (induction "length (j_in s)" arbitrary: s rule: less_induct)
  case less
  obtain e1 s1 where 1: "skipKey s = (e1, s1)" by (metis surj_pair)
  obtain e2 s2 where 2: "skipSpacesAndComments s1 = (e2, s2)" by (metis surj_pair)
  obtain b3 s3 where 3: "eat (CHR '':'') s2 = (b3, s3)" by (metis surj_pair)
  obtain e4 s4 where 4: "f s3 = (e4, s4)" by (metis surj_pair)
  obtain e5 s5 where 5: "skipSpacesAndComments s4 = (e5, s5)" by (metis surj_pair)
  obtain b6 s6 where 6: "eat (CHR ''}'') s5 = (b6, s6)" by (metis surj_pair)
  obtain b7 s7 where 7: "eat (CHR '','') s6 = (b7, s7)" by (metis surj_pair)
  obtain e8 s8 where 8: "skipSpacesAndComments s7 = (e8, s8)" by (metis surj_pair)
  have r1: "R 0 s s1" using R_skipKey [OF 1] .
  have r2: "R 0 s s2" using R_trans0 [OF r1] R_skipSpaces [OF 2] by blast
  have r3: "R 0 s s3" using R_trans0 [OF r2] R_eat [OF 3] by blast
  have r4: "R 0 s s4" using R_trans0 [OF r3] f 4 by (auto simp: skips_def)
  have r5: "R 0 s s5" using R_trans0 [OF r4] R_skipSpaces [OF 5] by blast
  have r6: "R 0 s s6" using R_trans0 [OF r5] R_eat [OF 6] by blast
  have r7: "R 0 s s7" using R_trans0 [OF r6] R_eat [OF 7] by blast
  have r8: "R 0 s s8" using R_trans0 [OF r7] R_skipSpaces [OF 8] by blast
  have eq: "skip_members f s = (if e1 \<noteq> Ok then (e1, s1) else if e2 \<noteq> Ok then (e2, s2) else
      if \<not> b3 then (InvalidInput, s3) else if e4 \<noteq> Ok then (e4, s4) else if e5 \<noteq> Ok then (e5, s5) else
      if b6 then (Ok, s6) else if \<not> b7 then (InvalidInput, s7) else if e8 \<noteq> Ok then (e8, s8) else
      if length (j_in s8) < length (j_in s) then skip_members f s8 else (InvalidInput, s8))"
    by (subst skip_members.simps) (simp only: 1 2 3 4 5 6 7 8 prod.case)
  show ?case
    using less.hyps [of s8] less.prems r1 r2 r3 r4 r5 r6 r7 r8 R_trans0 [OF r8] unfolding eq
    by (simp split: if_splits)
qed

lemma R_skipArray: "skips f \<Longrightarrow> skipArray reached f s = (e, t) \<Longrightarrow> R 0 s t"
  using R_refl R_trans0 [OF R_move R_skip_elements] by (auto simp: skipArray_def split: if_splits)

lemma R_skipObject:
  assumes "skips f" and "skipObject reached f s = (e, t)"
  shows "R 0 s t"
proof -
  obtain e1 s1 where 1: "skipSpacesAndComments (move s) = (e1, s1)" by (metis surj_pair)
  obtain b2 s2 where 2: "eat (CHR ''}'') s1 = (b2, s2)" by (metis surj_pair)
  have r1: "R 0 s s1" using R_trans0 [OF R_move] R_skipSpaces [OF 1] by blast
  have r2: "R 0 s s2" using R_trans0 [OF r1] R_eat [OF 2] by blast
  show ?thesis
    using assms(2) r1 r2 R_refl R_trans0 [OF r2 R_skip_members [OF assms(1)]]
    by (auto simp: skipObject_def 1 2 split: if_splits)
qed

lemma R_skip_value:
  assumes "skips f"
  shows "skips (skip_value reached f)"
  unfolding skips_def
proof (intro allI impI)
  fix s e t
  assume a: "skip_value reached f s = (e, t)"
  obtain e1 s1 where 1: "skipSpacesAndComments s = (e1, s1)" by (metis surj_pair)
  have r1: "R 0 s s1" using R_skipSpaces [OF 1] by blast
  have to: "R 0 s (snd x)" if "\<And>e t. x = (e, t) \<Longrightarrow> R 0 s1 t" for x :: "code \<times> 'm jstate"
    using R_trans0 [OF r1 that] by (metis prod.collapse)
  have steps: "R 0 s (snd (skipArray reached f s1))" "R 0 s (snd (skipObject reached f s1))"
      "R 0 s (snd (skipQuotedString s1))" "R 0 s (snd (skipKeyword k s1))" "R 0 s (snd (skipNumericValue s1))" for k
    by (rule to, erule R_skipArray [OF assms] R_skipObject [OF assms] R_skipQuotedString R_keyword)+
      (rule to, simp add: skipNumericValue_def R_while)
  show "R 0 s t"
    using a r1 steps by (simp add: skip_value_def 1 Let_def del: skipKeyword.simps split: if_splits) (metis snd_conv)+
qed

lemma R_skipVariant: "skips (skipVariant n)"
proof (induction n)
  case 0
  have "skips (\<lambda>s. (TooDeep, s))" by (auto simp: skips_def R_refl)
  then show ?case by (simp add: R_skip_value)
next
  case (Suc n)
  then show ?case by (simp add: R_skip_value)
qed

section \<open>Parsing\<close>

lemma R_parse_element:
  assumes p: "parses f" and k: "skips g" and "parse_element M f g b vs s = (e, vs', t)"
  shows "R 0 s t"
proof (cases b)
  case True
  obtain ok m where m: "addSlot M (j_mem s) = (ok, m)" by (metis surj_pair)
  have "R 0 s (s\<lparr>j_mem := m\<rparr>)" using R_slot [OF m] .
  then show ?thesis
    using assms(3) True m p R_trans0 by (auto simp: parse_element_def parses_def split: if_splits prod.splits)
next
  case False
  then show ?thesis using assms(3) k by (auto simp: parse_element_def skips_def split: prod.splits)
qed

lemma R_parse_elements:
  assumes p: "parses f" and k: "skips g" and "parse_elements M f g b vs s = (e, vs', t)"
  shows "R 0 s t"
  using assms(3)
proof (induction "length (j_in s)" arbitrary: s vs rule: less_induct)
  case less
  obtain e1 vs1 s1 where 1: "parse_element M f g b vs s = (e1, vs1, s1)" by (metis prod_cases3)
  obtain e2 s2 where 2: "skipSpacesAndComments s1 = (e2, s2)" by (metis surj_pair)
  obtain b3 s3 where 3: "eat (CHR '']'') s2 = (b3, s3)" by (metis surj_pair)
  obtain b4 s4 where 4: "eat (CHR '','') s3 = (b4, s4)" by (metis surj_pair)
  have r1: "R 0 s s1" using R_parse_element [OF p k 1] .
  have r2: "R 0 s s2" using R_trans0 [OF r1] R_skipSpaces [OF 2] by blast
  have r3: "R 0 s s3" using R_trans0 [OF r2] R_eat [OF 3] by blast
  have r4: "R 0 s s4" using R_trans0 [OF r3] R_eat [OF 4] by blast
  have eq: "parse_elements M f g b vs s = (if e1 \<noteq> Ok then (e1, vs1, s1) else if e2 \<noteq> Ok then (e2, vs1, s2) else
      if b3 then (Ok, vs1, s3) else if \<not> b4 then (InvalidInput, vs1, s4) else
      if length (j_in s4) < length (j_in s) then parse_elements M f g b vs1 s4 else (InvalidInput, vs1, s4))"
    by (subst parse_elements.simps) (simp only: 1 2 3 4 prod.case)
  show ?case
    using less.hyps [of s4 vs1] less.prems r1 r2 r3 r4 R_trans0 [OF r4] unfolding eq by (simp split: if_splits)
qed

lemma R_parse_member:
  assumes p: "\<And>flt. parses (f flt)" and k: "skips g" and s: "R 1 s0 s" "ready (j_mem s)" "isValid M (j_mem s)"
    and "parse_member M f g F flt ms s = (e, ms', t)"
  shows "R 0 s0 t"
proof -
  let ?key = "cstr (str M (j_mem s))"
  let ?flt = "memberFilter F ?key flt"
  have r0: "R 0 s0 s" using R_weak [OF s(1)] .
  obtain x s1 where sv: "save_string M s = (x, s1)" by (metis surj_pair)
  have r1: "R 0 s0 s1" using R_save [OF s sv] .
  obtain ok m where m: "addSlot M (j_mem s1) = (ok, m)" by (metis surj_pair)
  have r2: "R 0 s0 (s1\<lparr>j_mem := m\<rparr>)" using R_trans0 [OF r1 R_slot [OF m]] .
  have pf: "f ?flt v s' = (e', v', t') \<Longrightarrow> R 0 s0 s' \<Longrightarrow> R 0 s0 t'" for v s' e' v' t'
    using p R_trans0 unfolding parses_def by blast
  consider "\<not> allow F ?flt" | v where "allow F ?flt" "getMember ?key ms = Some v"
    | "allow F ?flt" "getMember ?key ms = None" by fastforce
  then show ?thesis
  proof cases
    case 1
    then show ?thesis using assms(6) k R_trans0 [OF r0] by (auto simp: parse_member_def skips_def Let_def split: prod.splits)
  next
    case (2 v)
    then show ?thesis using assms(6) pf r0 by (auto simp: parse_member_def Let_def split: prod.splits)
  next
    case 3
    then show ?thesis using assms(6) pf [OF _ r2] r2 by (auto simp: parse_member_def Let_def sv m split: if_splits prod.splits)
  qed
qed

lemma R_parse_members:
  assumes p: "\<And>flt. parses (f flt)" and k: "skips g" and "parse_members M f g F flt ms s = (e, ms', t)"
  shows "R 0 s t"
  using assms(3)
proof (induction "length (j_in s)" arbitrary: s ms rule: less_induct)
  case less
  obtain e1 s1 where 1: "parseKey M s = (e1, s1)" by (metis surj_pair)
  obtain e2 s2 where 2: "skipSpacesAndComments s1 = (e2, s2)" by (metis surj_pair)
  obtain b3 s3 where 3: "eat (CHR '':'') s2 = (b3, s3)" by (metis surj_pair)
  obtain e4 ms4 s4 where 4: "parse_member M f g F flt ms s3 = (e4, ms4, s4)" by (metis prod_cases3)
  obtain e5 s5 where 5: "skipSpacesAndComments s4 = (e5, s5)" by (metis surj_pair)
  obtain b6 s6 where 6: "eat (CHR ''}'') s5 = (b6, s6)" by (metis surj_pair)
  obtain b7 s7 where 7: "eat (CHR '','') s6 = (b7, s7)" by (metis surj_pair)
  obtain e8 s8 where 8: "skipSpacesAndComments s7 = (e8, s8)" by (metis surj_pair)
  have r1: "R 0 s s1" using R_key [OF 1] by blast
  have r2: "R 0 s s2" using R_trans0 [OF r1] R_skipSpaces [OF 2] by blast
  have r3: "R 0 s s3" using R_trans0 [OF r2] R_eat [OF 3] by blast
  have r4: "R 0 s s4" if "e1 = Ok" "b3"
  proof -
    have m: "j_mem s3 = j_mem s1" using R_skipSpaces [OF 2] R_eat [OF 3] by simp
    have "R 1 s s3" using R_trans1(2) [OF r2] R_eat [OF 3] that(2) by blast
    then show ?thesis using R_parse_member [OF p k _ _ _ 4] R_key [OF 1] that(1) m by simp
  qed
  have r5: "R 0 s s5" if "e1 = Ok" "b3" using R_trans0 [OF r4 [OF that]] R_skipSpaces [OF 5] by blast
  have r6: "R 0 s s6" if "e1 = Ok" "b3" using R_trans0 [OF r5 [OF that]] R_eat [OF 6] by blast
  have r7: "R 0 s s7" if "e1 = Ok" "b3" using R_trans0 [OF r6 [OF that]] R_eat [OF 7] by blast
  have r8: "R 0 s s8" if "e1 = Ok" "b3" using R_trans0 [OF r7 [OF that]] R_skipSpaces [OF 8] by blast
  have eq: "parse_members M f g F flt ms s = (if e1 \<noteq> Ok then (e1, ms, s1) else if e2 \<noteq> Ok then (e2, ms, s2) else
      if \<not> b3 then (InvalidInput, ms, s3) else if e4 \<noteq> Ok then (e4, ms4, s4) else if e5 \<noteq> Ok then (e5, ms4, s5) else
      if b6 then (Ok, ms4, s6) else if \<not> b7 then (InvalidInput, ms4, s7) else if e8 \<noteq> Ok then (e8, ms4, s8) else
      if length (j_in s8) < length (j_in s) then parse_members M f g F flt ms4 s8 else (InvalidInput, ms4, s8))"
    by (subst parse_members.simps) (simp only: 1 2 3 4 5 6 7 8 prod.case)
  show ?case
    using less.hyps [of s8 ms4] less.prems r1 r2 r3 r4 r5 r6 r7 r8 R_trans0 [OF r8] unfolding eq
    by (simp split: if_splits)
qed

lemma R_parseArray:
  assumes p: "\<And>flt. parses (f flt)" and k: "skips g"
  shows "R 0 s (snd (snd (parseArray M reached f g F flt s)))"
proof -
  obtain e1 s1 where 1: "skipSpacesAndComments (move s) = (e1, s1)" by (metis surj_pair)
  obtain b2 s2 where 2: "eat (CHR '']'') s1 = (b2, s2)" by (metis surj_pair)
  let ?m = "elementFilter F flt"
  obtain e3 vs s3 where 3: "parse_elements M (f ?m) g (allow F ?m) [] s2 = (e3, vs, s3)" by (metis prod_cases3)
  have r1: "R 0 s s1" using R_trans0 [OF R_move] R_skipSpaces [OF 1] by blast
  have r2: "R 0 s s2" using R_trans0 [OF r1] R_eat [OF 2] by blast
  show ?thesis
    using r1 r2 R_refl R_trans0 [OF r2 R_parse_elements [OF p k 3]]
    by (simp add: parseArray_def 1 2 3 Let_def)
qed

lemma R_parseObject:
  assumes p: "\<And>flt. parses (f flt)" and k: "skips g"
  shows "R 0 s (snd (snd (parseObject M reached f g F flt s)))"
proof -
  obtain e1 s1 where 1: "skipSpacesAndComments (move s) = (e1, s1)" by (metis surj_pair)
  obtain b2 s2 where 2: "eat (CHR ''}'') s1 = (b2, s2)" by (metis surj_pair)
  obtain e3 ms s3 where 3: "parse_members M f g F flt [] s2 = (e3, ms, s3)" by (metis prod_cases3)
  have r1: "R 0 s s1" using R_trans0 [OF R_move] R_skipSpaces [OF 1] by blast
  have r2: "R 0 s s2" using R_trans0 [OF r1] R_eat [OF 2] by blast
  show ?thesis
    using r1 r2 R_refl R_trans0 [OF r2 R_parse_members [OF p k 3]]
    by (simp add: parseObject_def 1 2 3)
qed

lemma R_parse_value:
  assumes p: "\<And>flt. parses (f flt)" and k: "skips g"
  shows "parses (parse_value M F reached f g flt)"
  unfolding parses_def
proof (intro allI impI)
  fix v s e v' t
  assume a: "parse_value M F reached f g flt v s = (e, v', t)"
  obtain e1 s1 where 1: "skipSpacesAndComments s = (e1, s1)" by (metis surj_pair)
  have r1: "R 0 s s1" and nn: "e1 = Ok \<Longrightarrow> current s1 \<noteq> NUL" using R_skipSpaces [OF 1] by blast+
  have to: "R 0 s (snd x)" if "\<And>e t. x = (e, t) \<Longrightarrow> R 0 s1 t" for x :: "code \<times> 'm jstate"
    using R_trans0 [OF r1 that] by (metis prod.collapse)
  have skip: "R 0 s (snd (skipArray reached g s1))" "R 0 s (snd (skipObject reached g s1))"
      "R 0 s (snd (skipQuotedString s1))" "R 0 s (snd (skipKeyword c s1))" "R 0 s (snd (skipNumericValue s1))" for c
    by (rule to, erule R_skipArray [OF k] R_skipObject [OF k] R_skipQuotedString R_keyword)+
      (rule to, simp add: skipNumericValue_def R_while)
  have collections: "R 0 s (snd (snd (parseArray M reached f g F flt s1)))"
      "R 0 s (snd (snd (parseObject M reached f g F flt s1)))"
    by (intro R_trans0 [OF r1] R_parseArray R_parseObject p k)+
  have parse: "R 0 s (snd (snd (parseNumericValue F v s1)))"
    using R_trans0 [OF r1 R_numericValue] by (metis prod.collapse)
  have string: "R 0 s (snd (snd (parseStringValue M v s1)))" if "e1 = Ok"
    using R_trans0 [OF r1 R_stringValue [OF _ nn [OF that]]] by (metis prod.collapse)
  show "R 0 s t"
    using a r1 skip collections parse string
    by (simp add: parse_value_def 1 Let_def keyword_def case_prod_unfold del: skipKeyword.simps split: if_splits)
      (metis snd_conv)+
qed

lemma R_parseVariant: "parses (parseVariant M F n flt)"
proof (induction n arbitrary: flt)
  case 0
  have "skips (\<lambda>s. (TooDeep, s))" "parses (\<lambda>v s. (TooDeep, v, s))"
    by (auto simp: skips_def parses_def R_refl)
  then show ?case unfolding parseVariant.simps by (intro R_parse_value)
next
  case (Suc n)
  then show ?case by (simp add: R_parse_value R_skipVariant)
qed

lemma parseVariant_step: "parseVariant M F n flt v s = (e, v', t) \<Longrightarrow> R 0 s t"
  using R_parseVariant [of F n flt] unfolding parses_def by blast

lemma parse_json_step: "parse_json M F n flt v s = (e, v', t) \<Longrightarrow> R 0 s t"
  using parseVariant_step [of F n flt v s] by (auto simp: parse_json_def split: prod.splits if_splits)

end

end
