(* ===== verification/JsonSafe.thy ===== *)
theory JsonSafe
  imports JsonFrame
begin

text \<open>
  The interpretations of the parser's frame: the input only shrinks, so the guards of the loops
  never matter; the memory pool keeps its two ends apart with either storage; in place, the write
  pointer never passes the read pointer.
\<close>

section \<open>The input\<close>

definition consumes :: "nat \<Rightarrow> 'm jstate \<Rightarrow> 'm jstate \<Rightarrow> bool" where
  "consumes k s t = (\<exists>n. k \<le> n \<and> n \<le> length (j_in s) \<and> j_in t = drop n (j_in s))"

lemma consumes_same: "j_in t = j_in s \<Longrightarrow> consumes 0 s t"
  by (auto simp: consumes_def intro: exI [of _ 0])

lemma consumes_trans: "consumes a s t \<Longrightarrow> consumes b t u \<Longrightarrow> consumes (a + b) s u"
  unfolding consumes_def by (elim exE) (rule_tac x = "na + n" in exI, auto)

interpretation input: parser_frame M consumes "\<lambda>_. True" for M
proof
  show "\<And>a s t b u. consumes a s t \<Longrightarrow> consumes b t u \<Longrightarrow> consumes (a + b) s u"
    by (rule consumes_trans)
  show "\<And>a s t b. consumes a s t \<Longrightarrow> b \<le> a \<Longrightarrow> consumes b s t"
    unfolding consumes_def by (meson order_trans)
  show "\<And>cs k n s. length cs + k \<le> n \<Longrightarrow> n \<le> length (j_in s) \<Longrightarrow> True \<or> cs = [] \<Longrightarrow>
      consumes k s (append_all M cs (consume n s))"
    by (auto simp: consumes_def append_all_def consume_def intro: add_leD2)
  show "\<And>s t x u. consumes 1 s t \<Longrightarrow> True \<Longrightarrow> isValid M (j_mem t) \<Longrightarrow> save_string M t = (x, u) \<Longrightarrow> consumes 0 s u"
    by (auto simp: consumes_def save_string_def split: prod.splits)
qed (auto simp: consumes_same start_string_def)

lemma consumes_length: "consumes k s t \<Longrightarrow> length (j_in t) + k \<le> length (j_in s)"
  by (auto simp: consumes_def)

text \<open>The loops as the code has them, without the guard.\<close>

lemma parse_elements_unfold:
  assumes p: "input.parses f" and k: "input.skips g"
  shows "parse_elements M f g b vs s =
    (case parse_element M f g b vs s of
     (err, vs1, s1) \<Rightarrow> if err \<noteq> Ok then (err, vs1, s1) else
     case skipSpacesAndComments s1 of (err, s2) \<Rightarrow> if err \<noteq> Ok then (err, vs1, s2) else
     case eat (CHR '']'') s2 of (close, s3) \<Rightarrow> if close then (Ok, vs1, s3) else
     case eat (CHR '','') s3 of (comma, s4) \<Rightarrow> if \<not> comma then (InvalidInput, vs1, s4) else
     parse_elements M f g b vs1 s4)"
proof -
  obtain e1 vs1 s1 where 1: "parse_element M f g b vs s = (e1, vs1, s1)" by (metis prod_cases3)
  obtain e2 s2 where 2: "skipSpacesAndComments s1 = (e2, s2)" by (metis surj_pair)
  obtain b3 s3 where 3: "eat (CHR '']'') s2 = (b3, s3)" by (metis surj_pair)
  obtain b4 s4 where 4: "eat (CHR '','') s3 = (b4, s4)" by (metis surj_pair)
  have "consumes 0 s s3"
    using input.R_parse_element [OF p k 1] input.R_skipSpaces [OF 2] input.R_eat [OF 3] input.R_trans0 by blast
  then have "length (j_in s4) < length (j_in s)" if b4
    using input.R_eat [OF 4] that consumes_length [OF input.R_trans1(2)] by fastforce
  then show ?thesis
    by (subst parse_elements.simps) (auto simp: 1 2 3 4)
qed

lemma parse_members_unfold:
  assumes p: "\<And>flt. input.parses (f flt)" and k: "input.skips g"
  shows "parse_members M f g F flt ms s =
    (case parseKey M s of (err, s1) \<Rightarrow> if err \<noteq> Ok then (err, ms, s1) else
     case skipSpacesAndComments s1 of (err, s2) \<Rightarrow> if err \<noteq> Ok then (err, ms, s2) else
     case eat (CHR '':'') s2 of (colon, s3) \<Rightarrow> if \<not> colon then (InvalidInput, ms, s3) else
     case parse_member M f g F flt ms s3 of (err, ms1, s4) \<Rightarrow> if err \<noteq> Ok then (err, ms1, s4) else
     case skipSpacesAndComments s4 of (err, s5) \<Rightarrow> if err \<noteq> Ok then (err, ms1, s5) else
     case eat (CHR ''}'') s5 of (close, s6) \<Rightarrow> if close then (Ok, ms1, s6) else
     case eat (CHR '','') s6 of (comma, s7) \<Rightarrow> if \<not> comma then (InvalidInput, ms1, s7) else
     case skipSpacesAndComments s7 of (err, s8) \<Rightarrow> if err \<noteq> Ok then (err, ms1, s8) else
     parse_members M f g F flt ms1 s8)"
proof -
  obtain e1 s1 where 1: "parseKey M s = (e1, s1)" by (metis surj_pair)
  obtain e2 s2 where 2: "skipSpacesAndComments s1 = (e2, s2)" by (metis surj_pair)
  obtain b3 s3 where 3: "eat (CHR '':'') s2 = (b3, s3)" by (metis surj_pair)
  obtain e4 ms4 s4 where 4: "parse_member M f g F flt ms s3 = (e4, ms4, s4)" by (metis prod_cases3)
  obtain e5 s5 where 5: "skipSpacesAndComments s4 = (e5, s5)" by (metis surj_pair)
  obtain b6 s6 where 6: "eat (CHR ''}'') s5 = (b6, s6)" by (metis surj_pair)
  obtain b7 s7 where 7: "eat (CHR '','') s6 = (b7, s7)" by (metis surj_pair)
  obtain e8 s8 where 8: "skipSpacesAndComments s7 = (e8, s8)" by (metis surj_pair)
  have "length (j_in s8) < length (j_in s)" if "e1 = Ok" b3 b7
  proof -
    have "consumes 0 s s2" using input.R_key [OF 1] input.R_skipSpaces [OF 2] input.R_trans0 by blast
    then have "consumes 1 s s3" using input.R_trans1(2) input.R_eat [OF 3] that(2) by blast
    moreover have "j_mem s3 = j_mem s1" using input.R_skipSpaces [OF 2] input.R_eat [OF 3] by simp
    ultimately have "consumes 0 s s4"
      using input.R_parse_member [OF p k _ _ _ 4] input.R_key [OF 1] that(1) by simp
    then have "consumes 0 s s6"
      using input.R_skipSpaces [OF 5] input.R_eat [OF 6] input.R_trans0 by blast
    then have "consumes 1 s s7" using input.R_trans1(2) input.R_eat [OF 7] that(3) by blast
    then have "consumes 1 s s8" using input.R_trans1(1) input.R_skipSpaces [OF 8] by blast
    then show ?thesis using consumes_length by fastforce
  qed
  then show ?thesis
    by (subst parse_members.simps) (auto simp: 1 2 3 4 5 6 7 8)
qed

section \<open>The pool\<close>

lemma pool_inv_alloc:
  assumes "allocVariant p = (ok, p')" and "pool_inv p"
  shows "pool_inv p' \<and> p_end p' = p_end p \<and> p_text p' = p_text p"
  using assms by (auto simp: allocVariant_def pool_inv_def canAlloc_def markAsOverflowed_def split: if_splits)

lemma pool_inv_save:
  assumes "saveStringFromFreeZone x p = (i, p')" and "pool_inv p" and "length x < freeZone p"
  shows "pool_inv p' \<and> p_end p' = p_end p \<and> freeZone p \<le> freeZone p' + length x + 1 \<and>
    p_overflowed p' = p_overflowed p"
  using assms by (auto simp: saveStringFromFreeZone_def pool_inv_def freeZone_def split: option.splits)

lemma clear_pool_simps [simp]:
  "p_text (clear_pool p) = []" "p_right (clear_pool p) = p_end p" "p_end (clear_pool p) = p_end p"
  "p_overflowed (clear_pool p) = False" "pool_inv (clear_pool p)" "freeZone (clear_pool p) = p_end p"
  by (simp_all add: clear_pool_def pool_inv_def freeZone_def)

definition copier_ready :: "copier \<Rightarrow> bool" where
  "copier_ready c = (c_capacity c = freeZone (c_pool c) \<and>
     (p_overflowed (c_pool c) \<or> length (c_text c) < c_capacity c))"

definition copier_keeps :: "nat \<Rightarrow> copier jstate \<Rightarrow> copier jstate \<Rightarrow> bool" where
  "copier_keeps k s t = (pool_inv (c_pool (j_mem s)) \<longrightarrow>
     pool_inv (c_pool (j_mem t)) \<and> p_end (c_pool (j_mem t)) = p_end (c_pool (j_mem s)))"

lemma copier_simps [simp]:
  "startString copier_ops = copier_start" "append_char copier_ops = copier_append"
  "isValid copier_ops c = (\<not> p_overflowed (c_pool c))" "str copier_ops = c_text"
  "save copier_ops = copier_save" "addSlot copier_ops = copier_addSlot"
  by (simp_all add: copier_ops_def)

lemma copier_start_simps:
  "c_text (copier_start c) = []" "c_capacity (copier_start c) = freeZone (c_pool c)"
  "p_text (c_pool (copier_start c)) = p_text (c_pool c)" "p_right (c_pool (copier_start c)) = p_right (c_pool c)"
  "p_end (c_pool (copier_start c)) = p_end (c_pool c)"
  by (simp_all add: copier_start_def markAsOverflowed_def Let_def)

lemma copier_append_pool:
  "p_text (c_pool (copier_append ch c)) = p_text (c_pool c)"
  "p_right (c_pool (copier_append ch c)) = p_right (c_pool c)"
  "p_end (c_pool (copier_append ch c)) = p_end (c_pool c)"
  "c_capacity (copier_append ch c) = c_capacity c"
  by (simp_all add: copier_append_def markAsOverflowed_def)

lemma copier_fold_pool:
  "p_text (c_pool (fold copier_append cs c)) = p_text (c_pool c) \<and>
   p_right (c_pool (fold copier_append cs c)) = p_right (c_pool c) \<and>
   p_end (c_pool (fold copier_append cs c)) = p_end (c_pool c)"
  by (induction cs arbitrary: c) (simp_all add: copier_append_pool)

interpretation copier_pool: parser_frame copier_ops copier_keeps copier_ready
proof
  show "copier_keeps a s t \<Longrightarrow> copier_keeps b t u \<Longrightarrow> copier_keeps (a + b) s u" for a b s t u
    by (auto simp: copier_keeps_def)
  show "copier_keeps a s t \<Longrightarrow> b \<le> a \<Longrightarrow> copier_keeps b s t" for a b s t
    by (simp add: copier_keeps_def)
  show "copier_keeps k s (append_all copier_ops cs (consume n s))" for k cs n s
    using copier_fold_pool by (simp add: copier_keeps_def append_all_def consume_def pool_inv_def)
  show "copier_keeps 0 s (s\<lparr>j_found := b\<rparr>)" for s b
    by (simp add: copier_keeps_def)
  show "copier_keeps 0 s (start_string copier_ops s)" for s
    by (simp add: copier_keeps_def start_string_def copier_start_simps pool_inv_def)
  show "copier_keeps 0 s u" if "copier_keeps 1 s t" "copier_ready (j_mem t)" "isValid copier_ops (j_mem t)"
    "save_string copier_ops t = (x, u)" for s t x u
    using that pool_inv_save [OF surjective_pairing]
    by (auto simp: copier_keeps_def save_string_def copier_save_def copier_ready_def split: prod.splits)
  show "copier_keeps 0 s (s\<lparr>j_mem := m\<rparr>)" if "addSlot copier_ops (j_mem s) = (ok, m)" for s ok m
    using that pool_inv_alloc by (auto simp: copier_keeps_def copier_addSlot_def split: prod.splits)
  show "copier_ready (startString copier_ops m)" for m
    by (auto simp: copier_ready_def copier_start_def Let_def freeZone_def markAsOverflowed_def)
  show "copier_ready (append_char copier_ops c m)" if "copier_ready m" for m c
    using that by (auto simp: copier_ready_def copier_append_def freeZone_def markAsOverflowed_def)
qed

section \<open>In place\<close>

text \<open>
  The write offset and the number of characters not yet read: their sum never grows, so what is
  written always lies in the part of the input that was read.
\<close>

definition mover_keeps :: "nat \<Rightarrow> mover jstate \<Rightarrow> mover jstate \<Rightarrow> bool" where
  "mover_keeps k s t = (m_write (j_mem t) + length (j_in t) + k \<le> m_write (j_mem s) + length (j_in s) \<and>
     (pool_inv (m_pool (j_mem s)) \<longrightarrow>
        pool_inv (m_pool (j_mem t)) \<and> p_end (m_pool (j_mem t)) = p_end (m_pool (j_mem s))))"

lemma mover_simps [simp]:
  "startString mover_ops = mover_start" "append_char mover_ops = mover_append"
  "isValid mover_ops m = True" "str mover_ops = m_text"
  "save mover_ops = mover_save" "addSlot mover_ops = mover_addSlot"
  by (simp_all add: mover_ops_def)

lemma mover_fold:
  "m_write (fold mover_append cs m) = m_write m + length cs \<and> m_pool (fold mover_append cs m) = m_pool m"
  by (induction cs arbitrary: m) (simp_all add: mover_append_def)

interpretation mover_place: parser_frame mover_ops mover_keeps "\<lambda>_. True"
proof
  show "mover_keeps k s (append_all mover_ops cs (consume n s))"
    if "length cs + k \<le> n" "n \<le> length (j_in s)" for k cs n s
    using that mover_fold [of cs "j_mem s"] by (simp add: mover_keeps_def append_all_def consume_def)
  show "mover_keeps 0 s u" if "mover_keeps 1 s t" "save_string mover_ops t = (x, u)" for s t x u
    using that by (auto simp: mover_keeps_def save_string_def mover_save_def split: prod.splits)
  show "mover_keeps 0 s (s\<lparr>j_mem := m\<rparr>)" if "addSlot mover_ops (j_mem s) = (ok, m)" for s ok m
    using that pool_inv_alloc by (auto simp: mover_keeps_def mover_addSlot_def split: prod.splits)
qed (auto simp: mover_keeps_def start_string_def mover_start_def)

end
