(* ===== verification/JsonPrint.thy ===== *)
theory JsonPrint
  imports JsonText
begin

text \<open>
  The serializers of the JSON library: \<open>TextFormatter.hpp\<close>, \<open>JsonSerializer.hpp\<close> and
  \<open>PrettyJsonSerializer.hpp\<close>. The text they write is the result; \<open>bytesWritten\<close> is its length. How a double splits
  into its decimal parts is a parameter.
\<close>

record 'f float_format =
  f_isnan :: "'f \<Rightarrow> bool"
  f_isinf :: "'f \<Rightarrow> bool"
  f_negative :: "'f \<Rightarrow> bool"
  f_parts :: "'f \<Rightarrow> u32 \<times> u32 \<times> nat \<times> u64"

section \<open>The formatter\<close>

definition QUOTE :: char where "QUOTE = CHR 0x22"
definition BACKSLASH :: char where "BACKSLASH = CHR 0x5C"

definition writeBoolean :: "bool \<Rightarrow> string" where
  "writeBoolean b = (if b then ''true'' else ''false'')"

definition writeChar :: "char \<Rightarrow> string" where
  "writeChar c = (let special = escapeChar c in
     if special \<noteq> NUL then [BACKSLASH, special]
     else if c \<noteq> NUL then [c]
     else BACKSLASH # ''u0000'')"

definition writeString :: "string \<Rightarrow> string" where
  "writeString s = QUOTE # concat (map writeChar s) @ [QUOTE]"

text \<open>The digits are put into a buffer from its end, at least one of them.\<close>

function digits_before :: "u64 \<Rightarrow> string \<Rightarrow> string" where
  "digits_before v buf = (let buf = char_of (unat (v mod 10) + 48) # buf; v' = v div 10 in
     if v' \<noteq> 0 then digits_before v' buf else buf)"
  by pat_completeness auto
termination
proof (relation "measure (\<lambda>(v, buf). unat v)")
  fix v :: u64 and buf :: string and y y' :: string and x :: u64
  assume "x = v div 10" "x \<noteq> 0"
  then have "v \<noteq> 0" by auto
  then have "0 < unat v" by (simp add: unat_gt_0)
  then show "((x, y), v, buf) \<in> measure (\<lambda>(v, buf). unat v)"
    using \<open>x = v div 10\<close> by (simp add: unat_div)
qed simp

declare digits_before.simps [simp del]

definition writeUnsigned :: "u64 \<Rightarrow> string" where
  "writeUnsigned v = digits_before v []"

definition writeSigned :: "u64 \<Rightarrow> string" where
  "writeSigned v = (if sint v < 0 then CHR ''-'' # writeUnsigned (not v + 1) else writeUnsigned v)"

fun decimals_before :: "nat \<Rightarrow> u32 \<Rightarrow> string \<Rightarrow> string" where
  "decimals_before 0 v buf = buf"
| "decimals_before (Suc width) v buf = decimals_before width (v div 10) (char_of (unat (v mod 10) + 48) # buf)"

definition writeDecimals :: "u32 \<Rightarrow> nat \<Rightarrow> string" where
  "writeDecimals v width = CHR ''.'' # decimals_before width v []"

definition writeFloat :: "'f float_ops \<Rightarrow> 'f float_format \<Rightarrow> 'f \<Rightarrow> string" where
  "writeFloat F W x =
    (if f_isnan W x then ''null'' else if f_isinf W x then ''null''
     else let sign = (if f_negative W x then ''-'' else []);
              y = (if f_negative W x then neg_float F x else x)
       in case f_parts W y of (integral, decimal, places, exponent) \<Rightarrow>
          sign @ writeUnsigned (ucast integral) @
          (if places \<noteq> 0 then writeDecimals decimal places else []) @
          (if exponent \<noteq> 0 then CHR ''e'' # writeSigned exponent else []))"

section \<open>The compact serializer\<close>

fun separated :: "string list \<Rightarrow> string" where
  "separated [] = []"
| "separated [x] = x"
| "separated (x # y # xs) = x @ CHR '','' # separated (y # xs)"

fun serialize :: "'f float_ops \<Rightarrow> 'f float_format \<Rightarrow> 'f jvariant \<Rightarrow> string" where
  "serialize F W (JArray vs) = CHR ''['' # separated (map (serialize F W) vs) @ [CHR '']'']"
| "serialize F W (JObject ms) = CHR ''{'' #
     separated (map (\<lambda>(k, v). writeString k @ CHR '':'' # serialize F W v) ms) @ [CHR ''}'']"
| "serialize F W (JFloat x) = writeFloat F W x"
| "serialize F W (JString s) = writeString s"
| "serialize F W (JRaw s) = s"
| "serialize F W (JSigned n) = writeSigned n"
| "serialize F W (JUnsigned n) = writeUnsigned n"
| "serialize F W (JBool b) = writeBoolean b"
| "serialize F W JNull = ''null''"

definition measureJson :: "'f float_ops \<Rightarrow> 'f float_format \<Rightarrow> 'f jvariant \<Rightarrow> nat" where
  "measureJson F W v = length (serialize F W v)"

section \<open>The indenting serializer\<close>

text \<open>\<open>_nesting\<close> is an unsigned 8-bit counter.\<close>

definition indent :: "byte \<Rightarrow> string" where
  "indent nesting = concat (replicate (unat nesting) ''  '')"

definition CRLF :: string where "CRLF = [CHR 0x0D, CHR 0x0A]"

text \<open>The elements, each with its separator: a comma before all but the last line end.\<close>

fun pretty_lines :: "byte \<Rightarrow> string list \<Rightarrow> string" where
  "pretty_lines n [] = []"
| "pretty_lines n (x # xs) = indent n @ x @ (if xs \<noteq> [] then CHR '','' # CRLF else CRLF) @ pretty_lines n xs"

fun serialize_pretty :: "'f float_ops \<Rightarrow> 'f float_format \<Rightarrow> byte \<Rightarrow> 'f jvariant \<Rightarrow> string" where
  "serialize_pretty F W n (JArray vs) = (if vs = [] then ''[]'' else
     CHR ''['' # CRLF @ pretty_lines (n + 1) (map (serialize_pretty F W (n + 1)) vs) @ indent n @ '']'')"
| "serialize_pretty F W n (JObject ms) = (if ms = [] then ''{}'' else
     CHR ''{'' # CRLF @ pretty_lines (n + 1)
       (map (\<lambda>(k, v). writeString k @ '': '' @ serialize_pretty F W (n + 1) v) ms) @ indent n @ ''}'')"
| "serialize_pretty F W n v = serialize F W v"

end
