(* ===== verification/JsonRound.thy ===== *)
theory JsonRound
  imports JsonSafe JsonPrint
begin

text \<open>
  Reading back what the serializer writes. The locale states what the parser needs of its memory; it is
  interpreted on both string storages.
\<close>

section \<open>Characters and digits\<close>

lemma escape_cases:
  "escapeChar c \<noteq> NUL \<Longrightarrow> unescapeChar (escapeChar c) = c \<and> escapeChar c \<noteq> CHR ''u'' \<and> c \<noteq> NUL"
  "escapeChar c = NUL \<Longrightarrow> c \<noteq> QUOTE \<and> c \<noteq> BACKSLASH"
  by (auto simp: escapeChar_def unescapeChar_def escape_table_def QUOTE_def BACKSLASH_def split: if_splits)

fun digits_value :: "string \<Rightarrow> nat" where
  "digits_value [] = 0"
| "digits_value (c # cs) = (of_char c - 48) * 10 ^ length cs + digits_value cs"

lemma digits_value_append:
  "digits_value (xs @ ys) = digits_value xs * 10 ^ length ys + digits_value ys"
  by (induction xs) (auto simp: algebra_simps power_add)

lemma digit_char:
  assumes "d < (10::nat)"
  shows "is_digit (char_of (d + 48))" "of_char (char_of (d + 48)) = d + 48"
  using assms by (simp_all add: is_digit_def of_char_of)

lemma unat_mod_div_10: "unat (v mod 10 :: u64) = unat v mod 10" "unat (v div 10 :: u64) = unat v div 10"
  by (simp_all add: unat_mod_distrib unat_div_distrib)

lemma digits_before_spec:
  assumes "list_all is_digit buf"
  shows "list_all is_digit (digits_before v buf) \<and> digits_before v buf \<noteq> [] \<and>
    digits_value (digits_before v buf) = unat v * 10 ^ length buf + digits_value buf \<and>
    (\<forall>k. unat v < 10 ^ k \<and> 0 < k \<longrightarrow> length (digits_before v buf) \<le> k + length buf)"
  using assms
proof (induction "unat v" arbitrary: v buf rule: less_induct)
  case less
  let ?c = "char_of (unat (v mod 10) + 48) :: char"
  have d: "unat (v mod 10) < 10" by (simp add: unat_mod_div_10)
  have buf: "list_all is_digit (?c # buf)" using less.prems digit_char(1) [OF d] by simp
  have val: "digits_value (?c # buf) = (unat v mod 10) * 10 ^ length buf + digits_value buf"
    using digit_char(2) [OF d] by (simp add: unat_mod_div_10)
  show ?case
  proof (cases "v div 10 = 0")
    case True
    have "digits_before v buf = ?c # buf" by (subst digits_before.simps) (simp add: True Let_def)
    moreover have "unat v mod 10 = unat v"
      using True unat_mod_div_10(2) [of v] by (metis mod_less div_eq_0_iff unat_0 zero_neq_numeral)
    ultimately show ?thesis using buf val by auto
  next
    case False
    have eq: "digits_before v buf = digits_before (v div 10) (?c # buf)"
      by (subst digits_before.simps) (simp add: False Let_def)
    have pos: "unat v div 10 \<noteq> 0" using False unat_mod_div_10(2) [of v] by (metis unat_eq_zero)
    then have "0 < unat v" by (cases "unat v") auto
    then have "unat (v div 10) < unat v" using unat_mod_div_10(2) [of v] div_less_dividend [of 10 "unat v"] by simp
    note ih = less.hyps [OF this buf]
    have "length (digits_before v buf) \<le> k + length buf" if k: "unat v < 10 ^ k" "0 < k" for k
    proof -
      obtain j where j: "k = Suc j" using k(2) by (cases k) auto
      have "unat v div 10 < 10 ^ j" using k(1) j by simp
      moreover have "0 < j" using k(1) j pos by (cases j) auto
      ultimately show ?thesis using ih j eq unat_mod_div_10(2) [of v] by fastforce
    qed
    moreover have "unat v * P = (unat v mod 10) * P + unat v div 10 * (P * 10)" for P :: nat
    proof -
      have "unat v * P = (unat v div 10 * 10 + unat v mod 10) * P" by simp
      then show ?thesis by (simp only: distrib_right mult.assoc mult.commute [of 10 P] add.commute)
    qed
    ultimately show ?thesis
      using ih val unfolding eq by (simp add: unat_mod_div_10)
  qed
qed

lemma writeUnsigned_spec:
  "list_all is_digit (writeUnsigned v) \<and> writeUnsigned v \<noteq> [] \<and>
   digits_value (writeUnsigned v) = unat v \<and> length (writeUnsigned v) \<le> 20"
proof -
  have "unat v < 10 ^ 20" using unsigned_less [of v, where 'a = nat] by simp
  then show ?thesis using digits_before_spec [of "[]" v] by (auto simp: writeUnsigned_def)
qed

lemma read_mantissa_digits:
  assumes "list_all is_digit ds" and "unat m * 10 ^ length ds + digits_value ds < 2 ^ 64"
  shows "read_mantissa m ds = (word_of_nat (unat m * 10 ^ length ds + digits_value ds), [])"
  using assms
proof (induction ds arbitrary: m)
  case Nil
  then show ?case by simp
next
  case (Cons c ds)
  let ?d = "of_char c - 48 :: nat"
  have d: "?d < 10" "is_digit c" using Cons.prems(1) by (auto simp: is_digit_def)
  have sum: "(unat m * 10 + ?d) * 10 ^ length ds + digits_value ds < 2 ^ 64"
    using Cons.prems(2) by (simp add: algebra_simps)
  have "unat m * 10 + ?d \<le> (unat m * 10 + ?d) * 10 ^ length ds + digits_value ds"
    by (simp add: trans_le_add1)
  then have lt: "unat m * 10 + ?d < 2 ^ 64" using sum by (rule le_less_trans)
  have ud: "unat (digit_val c) = ?d" using d by (simp add: digit_val_def unat_of_nat take_bit_nat_eq_self)
  have m10: "unat (m * 10) = unat m * 10"
    using lt by (simp add: unat_word_ariths)
  have mx: "unat maxUint = 2 ^ 64 - 1" by (simp add: maxUint_def unsigned_minus_1_eq_mask mask_eq_exp_minus_1)
  have c1: "\<not> m > maxUint div 10"
    using lt mx by (simp add: word_less_nat_alt unat_div_distrib)
  have "unat (maxUint - digit_val c) = 2 ^ 64 - 1 - ?d"
    using d mx ud by (subst unat_sub) (simp_all add: word_le_nat_alt)
  then have c2: "\<not> m * 10 > maxUint - digit_val c"
    using lt m10 by (simp add: word_less_nat_alt)
  have upd: "unat (m * 10 + digit_val c) = unat m * 10 + ?d"
    using lt m10 ud by (simp add: unat_word_ariths)
  have "read_mantissa m (c # ds) = read_mantissa (m * 10 + digit_val c) ds"
    using c1 c2 d by (simp add: Let_def)
  also have "\<dots> = (word_of_nat ((unat m * 10 + ?d) * 10 ^ length ds + digits_value ds), [])"
    using Cons.IH [of "m * 10 + digit_val c"] Cons.prems(1) sum upd by simp
  finally show ?case by (simp add: algebra_simps)
qed

lemma digit_facts:
  "is_digit c \<Longrightarrow> c \<noteq> CHR ''-'' \<and> c \<noteq> CHR ''+'' \<and> c \<noteq> NUL \<and> canBeInNumber c"
  by (auto simp: is_digit_def canBeInNumber_def isBetween_def less_eq_char_def)

lemma writeUnsigned_Cons: obtains d ds where "writeUnsigned v = d # ds" "is_digit d" "list_all is_digit ds"
  using writeUnsigned_spec [of v] by (cases "writeUnsigned v") auto

lemma read_mantissa_written: "read_mantissa 0 (writeUnsigned v) = (v, [])"
  using read_mantissa_digits [of "writeUnsigned v" 0] writeUnsigned_spec [of v] unsigned_less [of v, where 'a = nat]
  by simp

lemma parseNumber_unsigned: "parseNumber F (writeUnsigned v) = Some (JUnsigned v)"
proof -
  obtain d ds where w: "writeUnsigned v = d # ds" "is_digit d" by (rule writeUnsigned_Cons)
  then have "peek (writeUnsigned v) = d" by (simp add: peek_def)
  then show ?thesis
    using digit_facts [OF w(2)] w(2) read_mantissa_written [of v] by (simp add: parseNumber_def Let_def)
qed

lemma negative_magnitude:
  assumes "sint (v :: u64) < 0"
  shows "not v + 1 \<le> (2 ^ 63 :: u64) \<and> not (not v + 1) + 1 = v"
proof -
  have u: "2 ^ 63 \<le> uint v"
  proof (rule ccontr)
    assume "\<not> 2 ^ 63 \<le> uint v"
    then have "sint v = uint v"
      using order.trans [of "- (2 ^ 63)" 0 "uint v"] by (simp add: sint_uint signed_take_bit_int_eq_self_iff)
    then show False using assms by simp
  qed
  have "uint (- v) = (- uint v) mod 2 ^ 64" by (simp add: uint_word_ariths)
  also have "\<dots> = 2 ^ 64 - uint v" using u unsigned_less [of v, where 'a = int] by (simp add: zmod_zminus1_eq_if)
  finally have "- v \<le> (2 ^ 63 :: u64)" using u by (simp add: word_le_def)
  moreover have "not v + 1 = - v" "not (- v) + 1 = v" by (simp_all add: minus_eq_not_plus_1 [symmetric])
  ultimately show ?thesis by simp
qed

lemma parseNumber_negative:
  assumes "sint v < 0"
  shows "parseNumber F (CHR ''-'' # writeUnsigned (not v + 1)) = Some (JSigned v)"
proof -
  obtain d ds where w: "writeUnsigned (not v + 1) = d # ds" "is_digit d" by (rule writeUnsigned_Cons)
  then show ?thesis
    using read_mantissa_written [of "not v + 1"] negative_magnitude [OF assms]
    by (simp add: parseNumber_def Let_def peek_def)
qed

definition canonical_int :: "u64 \<Rightarrow> 'f jvariant" where
  "canonical_int n = (if sint n < 0 then JSigned n else JUnsigned n)"

lemma parseNumber_signed: "parseNumber F (writeSigned v) = Some (canonical_int v)"
  by (simp add: writeSigned_def canonical_int_def parseNumber_unsigned parseNumber_negative)

definition number_text :: "string \<Rightarrow> bool" where
  "number_text cs = (cs \<noteq> [] \<and> length cs \<le> 63 \<and> list_all canBeInNumber cs \<and>
     (is_digit (hd cs) \<or> hd cs = CHR ''-''))"

lemma number_text_written: "number_text (writeUnsigned v)" "number_text (writeSigned v)"
proof -
  show u: "number_text (writeUnsigned v)" for v
    using writeUnsigned_spec [of v] digit_facts
    by (cases "writeUnsigned v") (auto simp: number_text_def list_all_iff)
  have "canBeInNumber (CHR ''-'')" by (simp add: canBeInNumber_def)
  then show "number_text (writeSigned v)"
    using u [of v] writeUnsigned_spec [of "not v + 1"] digit_facts
    by (auto simp: number_text_def writeSigned_def list_all_iff)
qed

lemma parse_number_text:
  assumes "number_text cs" and "parseNumber F cs = Some v" and "\<not> canBeInNumber (peek rest)"
    and "j_in s = cs @ rest"
  shows "parseNumericValue F v0 s = (Ok, v, s\<lparr>j_in := rest\<rparr>)"
proof -
  have "takeWhile canBeInNumber (cs @ rest) = cs"
    using assms(1,3) by (cases rest) (auto simp: number_text_def list_all_iff peek_def takeWhile_append)
  then show ?thesis using assms by (simp add: parseNumericValue_def Let_def number_text_def)
qed

section \<open>The documents\<close>

text \<open>
  No floats and no raw text, keys without NUL, no key twice. What is read back has the same
  tree; a signed integer that is not negative comes back as an unsigned one.
\<close>

fun plain :: "'f jvariant \<Rightarrow> bool" where
  "plain (JFloat _) = False"
| "plain (JRaw _) = False"
| "plain (JArray vs) = (\<forall>v\<in>set vs. plain v)"
| "plain (JObject ms) = (distinct (map fst ms) \<and> (\<forall>m\<in>set ms. NUL \<notin> set (fst m) \<and> plain (snd m)))"
| "plain _ = True"

fun canonical :: "'f jvariant \<Rightarrow> 'f jvariant" where
  "canonical (JSigned n) = canonical_int n"
| "canonical (JArray vs) = JArray (map canonical vs)"
| "canonical (JObject ms) = JObject (map (\<lambda>(k, v). (k, canonical v)) ms)"
| "canonical v = v"

fun depth :: "'f jvariant \<Rightarrow> nat" where
  "depth (JArray vs) = Suc (fold max (map depth vs) 0)"
| "depth (JObject ms) = Suc (fold max (map (\<lambda>(k, v). depth v) ms) 0)"
| "depth _ = 0"

text \<open>The bytes of the pool a document takes at most; \<open>cost\<close> is what a string of a length takes.\<close>

fun need :: "(nat \<Rightarrow> nat) \<Rightarrow> 'f jvariant \<Rightarrow> nat" where
  "need cost (JString s) = cost (length s)"
| "need cost (JArray vs) = sum_list (map (\<lambda>v. SLOT_SIZE + need cost v) vs)"
| "need cost (JObject ms) = sum_list (map (\<lambda>(k, v). cost (length k) + SLOT_SIZE + need cost v) ms)"
| "need cost _ = 0"

lemma fold_max_le: "fold max xs (a :: nat) \<le> n \<longleftrightarrow> a \<le> n \<and> (\<forall>x\<in>set xs. x \<le> n)"
  by (induction xs arbitrary: a) auto

lemma depth_le:
  "depth (JArray vs) \<le> Suc n \<longleftrightarrow> (\<forall>v\<in>set vs. depth v \<le> n)"
  "depth (JObject ms) \<le> Suc n \<longleftrightarrow> (\<forall>m\<in>set ms. depth (snd m) \<le> n)"
  by (auto simp: fold_max_le)

definition starts :: "char \<Rightarrow> bool" where
  "starts c = (c \<in> {CHR ''['', CHR ''{'', QUOTE, CHR ''t'', CHR ''f'', CHR ''n'', CHR ''-''} \<or> is_digit c)"

lemma starts_facts:
  "starts c \<Longrightarrow> c \<noteq> NUL \<and> \<not> is_space c \<and> c \<noteq> CHR '']'' \<and> c \<noteq> CHR ''}''"
  by (auto simp: starts_def QUOTE_def is_space_def is_digit_def)

lemma serialize_starts: "plain v \<Longrightarrow> \<exists>c cs. serialize F W v = c # cs \<and> starts c"
proof (cases v)
  case (JUnsigned n)
  then show ?thesis using writeUnsigned_Cons [of n] by (metis serialize.simps(7) starts_def)
next
  case (JSigned n)
  obtain d ds where "writeUnsigned n = d # ds" "is_digit d" by (rule writeUnsigned_Cons)
  then show ?thesis using JSigned by (auto simp: writeSigned_def starts_def)
qed (auto simp: writeString_def starts_def writeBoolean_def)

lemma skipSpaces_here:
  assumes "j_in s = c # cs" and "c \<noteq> NUL" and "\<not> is_space c"
  shows "skipSpacesAndComments s = (Ok, s\<lparr>j_found := True\<rparr>)"
proof -
  have "s\<lparr>j_in := dropWhile is_space (j_in s)\<rparr> = s" using assms by simp
  then show ?thesis using assms by (simp add: skipSpacesAndComments_def Let_def current_def peek_def)
qed

lemma skipKeyword_here:
  assumes "j_in s = ks @ rest" and "NUL \<notin> set ks"
  shows "skipKeyword ks s = (Ok, s\<lparr>j_in := rest\<rparr>)"
  using assms
proof (induction ks arbitrary: s)
  case Nil
  then have "s\<lparr>j_in := rest\<rparr> = s" by simp
  then show ?case by simp
next
  case (Cons k ks)
  then show ?case by (auto simp: current_def peek_def move_def)
qed

lemma eat_here: "j_in s = c # cs \<Longrightarrow> eat c s = (True, s\<lparr>j_in := cs\<rparr>)"
  by (simp add: eat_def current_def peek_def move_def)

lemma eat_not: "j_in s = d # cs \<Longrightarrow> d \<noteq> c \<Longrightarrow> eat c s = (False, s)"
  by (simp add: eat_def current_def peek_def)

section \<open>Strings\<close>

lemma jstate_commute: "s\<lparr>j_mem := m, j_in := cs\<rparr> = s\<lparr>j_in := cs, j_mem := m\<rparr>"
  by simp

lemma decodeHex_zero: "decodeHex (CHR ''0'') = 0"
  by (simp add: decodeHex_def of_char_def)

lemma encodeCodepoint_zero: "encodeCodepoint 0 = [NUL]"
  by (simp add: encodeCodepoint_def char8_def char_of_def)

lemma codepoint_zero: "codepoint_append h 0 = (h, Some 0)"
  by (simp add: codepoint_append_def isHighSurrogate_def isLowSurrogate_def)

lemma parseHex_zeros:
  "j_in s = replicate n (CHR ''0'') @ rest \<Longrightarrow> parseHex n 0 s = (Ok, 0, s\<lparr>j_in := rest\<rparr>)"
proof (induction n arbitrary: s)
  case 0
  then have "s\<lparr>j_in := rest\<rparr> = s" by simp
  then show ?case by simp
next
  case (Suc n)
  then show ?case by (simp add: current_def peek_def move_def decodeHex_zero Let_def)
qed

lemma unicodeEscape_zeros:
  assumes "j_in s = ''0000'' @ rest"
  shows "unicodeEscape M h s = (Ok, h, s\<lparr>j_in := rest, j_mem := append_char M NUL (j_mem s)\<rparr>)"
proof -
  have "parseHex 4 0 s = (Ok, 0, s\<lparr>j_in := rest\<rparr>)"
    using assms by (intro parseHex_zeros) (simp add: numeral_eq_Suc)
  then show ?thesis by (simp add: unicodeEscape_def codepoint_zero encodeCodepoint_zero append_all_def)
qed

lemma quotedLoop_written:
  assumes "j_in s = concat (map writeChar x) @ QUOTE # rest"
    and "isValid M (fold (append_char M) x (j_mem s))"
  shows "parseQuotedLoop M QUOTE h s =
    (Ok, s\<lparr>j_in := rest, j_mem := fold (append_char M) x (j_mem s)\<rparr>)"
  using assms
proof (induction x arbitrary: s)
  case Nil
  then show ?case
    by (subst parseQuotedLoop.simps) (simp add: current_def peek_def move_def Let_def)
next
  case (Cons c x)
  let ?next = "s\<lparr>j_in := concat (map writeChar x) @ QUOTE # rest, j_mem := append_char M c (j_mem s)\<rparr>"
  have ih: "parseQuotedLoop M QUOTE h ?next = (Ok, s\<lparr>j_in := rest, j_mem := fold (append_char M) (c # x) (j_mem s)\<rparr>)"
    using Cons.IH [of ?next] Cons.prems(2) by simp
  have q: "QUOTE \<noteq> NUL" "QUOTE \<noteq> CHR 0x5C" "CHR 0x5C \<noteq> QUOTE" by (simp_all add: QUOTE_def)
  have b: "BACKSLASH = CHR 0x5C" by (simp add: BACKSLASH_def)
  consider "escapeChar c \<noteq> NUL" | "escapeChar c = NUL" "c \<noteq> NUL" | "escapeChar c = NUL" "c = NUL" by blast
  then have "parseQuotedLoop M QUOTE h s = parseQuotedLoop M QUOTE h ?next"
  proof cases
    case 1
    then have "writeChar c = [CHR 0x5C, escapeChar c]" using b by (simp add: writeChar_def Let_def)
    then have "j_in s = CHR 0x5C # escapeChar c # concat (map writeChar x) @ QUOTE # rest"
      using Cons.prems(1) by simp
    then show ?thesis using escape_cases(1) [OF 1] 1 q
      by (subst parseQuotedLoop.simps) (simp add: current_def peek_def move_def Let_def appendc_def)
  next
    case 2
    then have "writeChar c = [c]" by (simp add: writeChar_def Let_def)
    then have "j_in s = c # concat (map writeChar x) @ QUOTE # rest"
      using Cons.prems(1) by simp
    then show ?thesis using escape_cases(2) [OF 2(1)] 2 q b
      by (subst parseQuotedLoop.simps) (simp add: current_def peek_def move_def Let_def appendc_def)
  next
    case 3
    have "writeChar c = CHR 0x5C # ''u0000''" using 3 b by (simp add: writeChar_def Let_def)
    then have s: "j_in s = CHR 0x5C # CHR ''u'' # ''0000'' @ concat (map writeChar x) @ QUOTE # rest"
      using Cons.prems(1) by simp
    have "unicodeEscape M h (move (move s)) = (Ok, h, ?next)"
      using unicodeEscape_zeros [of "move (move s)"] s 3 by (simp add: move_def)
    then show ?thesis using s 3 q
      by (subst parseQuotedLoop.simps) (simp add: current_def peek_def move_def Let_def)
  qed
  then show ?case using ih by simp
qed

section \<open>What the parser needs of its memory\<close>

text \<open>
  \<open>room\<close> bounds what can still be stored. A string that fits is appended character by character and
  saved as it is; a slot is there while there is room for one.
\<close>

definition appended :: "'m mem_ops \<Rightarrow> string \<Rightarrow> 'm \<Rightarrow> 'm" where
  "appended M x m = fold (append_char M) x (startString M m)"

locale string_memory =
  fixes M :: "'m mem_ops" and good :: "'m \<Rightarrow> bool" and room :: "'m \<Rightarrow> nat"
    and cost :: "nat \<Rightarrow> nat"
  assumes appended_valid: "good m \<Longrightarrow> cost (length x) \<le> room m \<Longrightarrow> isValid M (appended M x m)"
    and appended_str: "good m \<Longrightarrow> cost (length x) \<le> room m \<Longrightarrow> str M (appended M x m) = x"
    and saved: "good m \<Longrightarrow> cost (length x) \<le> room m \<Longrightarrow> save M (appended M x m) = (y, m') \<Longrightarrow>
      y = x \<and> good m' \<and> room m \<le> room m' + cost (length x)"
    and slot: "good m \<Longrightarrow> SLOT_SIZE \<le> room m \<Longrightarrow> addSlot M m = (ok, m') \<Longrightarrow>
      ok \<and> good m' \<and> room m \<le> room m' + SLOT_SIZE"

context string_memory
begin

lemma stringValue_written:
  assumes g: "good (j_mem s)" "cost (length x) \<le> room (j_mem s)" and s: "j_in s = writeString x @ rest"
  shows "\<exists>t. parseStringValue M v s = (Ok, JString x, t) \<and> j_in t = rest \<and> good (j_mem t) \<and>
    room (j_mem s) \<le> room (j_mem t) + cost (length x)"
proof -
  let ?s = "s\<lparr>j_mem := startString M (j_mem s), j_in := concat (map writeChar x) @ QUOTE # rest\<rparr>"
  let ?t = "s\<lparr>j_in := rest, j_mem := appended M x (j_mem s)\<rparr>"
  have "parseQuotedLoop M QUOTE 0 ?s = (Ok, ?t)"
    using quotedLoop_written [of ?s x rest M 0] appended_valid [OF g] by (simp add: appended_def jstate_commute)
  then have q: "parseQuotedString M (start_string M s) = (Ok, ?t)"
    using s by (simp add: parseQuotedString_def start_string_def writeString_def current_def peek_def move_def)
  obtain y m' where sv: "save M (appended M x (j_mem s)) = (y, m')" by (metis surj_pair)
  show ?thesis using saved [OF g sv] q sv
    by (simp add: parseStringValue_def save_string_def)
qed

lemma key_written:
  assumes g: "good (j_mem s)" "cost (length x) \<le> room (j_mem s)" and s: "j_in s = writeString x @ rest"
  shows "parseKey M s = (Ok, s\<lparr>j_in := rest, j_mem := appended M x (j_mem s)\<rparr>)"
proof -
  let ?s = "s\<lparr>j_mem := startString M (j_mem s), j_in := concat (map writeChar x) @ QUOTE # rest\<rparr>"
  have "parseQuotedLoop M QUOTE 0 ?s = (Ok, s\<lparr>j_in := rest, j_mem := appended M x (j_mem s)\<rparr>)"
    using quotedLoop_written [of ?s x rest M 0] appended_valid [OF g] by (simp add: appended_def jstate_commute)
  then show ?thesis
    using s by (simp add: parseKey_def parseQuotedString_def start_string_def writeString_def current_def
        peek_def move_def isQuote_def QUOTE_def)
qed

text \<open>What reading back a value that was written gives.\<close>

definition reads ::
    "('f jvariant \<Rightarrow> 'm jstate \<Rightarrow> code \<times> 'f jvariant \<times> 'm jstate) \<Rightarrow> string \<Rightarrow> 'f jvariant \<Rightarrow> nat \<Rightarrow> bool" where
  "reads parse cs v n = (\<forall>s rest. good (j_mem s) \<longrightarrow> n \<le> room (j_mem s) \<longrightarrow> j_in s = cs @ rest \<longrightarrow>
     \<not> canBeInNumber (peek rest) \<longrightarrow>
     (\<exists>t. parse JNull s = (Ok, v, t) \<and> j_in t = rest \<and> good (j_mem t) \<and> room (j_mem s) \<le> room (j_mem t) + n))"

lemma readsD:
  assumes "reads parse cs v n" "good (j_mem s)" "n \<le> room (j_mem s)" "j_in s = cs @ rest" "\<not> canBeInNumber (peek rest)"
  obtains t where "parse JNull s = (Ok, v, t)" "j_in t = rest" "good (j_mem t)" "room (j_mem s) \<le> room (j_mem t) + n"
  using assms unfolding reads_def by blast

definition reads_any ::
    "('f jvariant \<Rightarrow> 'm jstate \<Rightarrow> code \<times> 'f jvariant \<times> 'm jstate) \<Rightarrow> string \<Rightarrow> 'f jvariant \<Rightarrow> nat \<Rightarrow> bool" where
  "reads_any parse cs v n = (\<forall>s rest. good (j_mem s) \<longrightarrow> n \<le> room (j_mem s) \<longrightarrow> j_in s = cs @ rest \<longrightarrow>
     (\<exists>t. parse JNull s = (Ok, v, t) \<and> j_in t = rest \<and> good (j_mem t) \<and> room (j_mem s) \<le> room (j_mem t) + n))"

lemma reads_any_reads: "reads_any parse cs v n \<Longrightarrow> reads parse cs v n"
  by (simp add: reads_def reads_any_def)

lemma elements_written:
  assumes p: "input.parses parse" and k: "input.skips g"
    and "ws \<noteq> []" and "\<forall>w\<in>set ws. reads parse (fst w) (fst (snd w)) (snd (snd w))"
    and "good (j_mem s)" and "sum_list (map (\<lambda>w. SLOT_SIZE + snd (snd w)) ws) \<le> room (j_mem s)"
    and "j_in s = separated (map fst ws) @ CHR '']'' # rest"
  shows "\<exists>t. parse_elements M parse g True acc s = (Ok, acc @ map (fst \<circ> snd) ws, t) \<and> j_in t = rest \<and>
    good (j_mem t) \<and> room (j_mem s) \<le> room (j_mem t) + sum_list (map (\<lambda>w. SLOT_SIZE + snd (snd w)) ws)"
  using assms(3-)
proof (induction ws arbitrary: acc s)
  case Nil
  then show ?case by simp
next
  case (Cons w ws)
  obtain c v n where w: "w = (c, v, n)" by (metis prod_cases3)
  let ?sep = "if ws = [] then CHR '']'' # rest else CHR '','' # separated (map fst ws) @ CHR '']'' # rest"
  have s: "j_in s = c @ ?sep" using Cons.prems(5) w by (cases ws) auto
  have nb: "\<not> canBeInNumber (peek ?sep)" by (simp add: peek_def canBeInNumber_def isBetween_def less_eq_char_def)
  obtain ok m where sl: "addSlot M (j_mem s) = (ok, m)" by (metis surj_pair)
  have m: "ok" "good m" "room (j_mem s) \<le> room m + SLOT_SIZE"
    using slot [OF Cons.prems(3) _ sl] Cons.prems(4) w by auto
  have r: "reads parse c v n" using Cons.prems(2) w by simp
  let ?s = "s\<lparr>j_mem := m\<rparr>"
  obtain t where t: "parse JNull ?s = (Ok, v, t)" "j_in t = ?sep" "good (j_mem t)"
      "room (j_mem ?s) \<le> room (j_mem t) + n"
  proof (rule readsD [OF r])
    show "good (j_mem ?s)" using m by simp
    show "n \<le> room (j_mem ?s)" using m(3) Cons.prems(4) w by simp
    show "j_in ?s = c @ ?sep" using s by simp
  qed (use nb in auto)
  have el: "parse_element M parse g True acc s = (Ok, acc @ [v], t)"
    using sl m t by (simp add: parse_element_def)
  have sp: "skipSpacesAndComments t = (Ok, t\<lparr>j_found := True\<rparr>)"
    using t(2) by (cases "ws = []") (simp_all add: skipSpaces_here is_space_def)
  show ?case
  proof (cases "ws = []")
    case True
    then show ?thesis using t m w
      by (subst parse_elements_unfold [OF p k]) (simp add: el sp eat_here eat_not)
  next
    case False
    let ?u = "t\<lparr>j_found := True, j_in := separated (map fst ws) @ CHR '']'' # rest\<rparr>"
    obtain u where u: "parse_elements M parse g True (acc @ [v]) ?u = (Ok, (acc @ [v]) @ map (fst \<circ> snd) ws, u)"
        "j_in u = rest" "good (j_mem u)"
        "room (j_mem ?u) \<le> room (j_mem u) + sum_list (map (\<lambda>w. SLOT_SIZE + snd (snd w)) ws)"
      using Cons.IH [of ?u "acc @ [v]"] Cons.prems False t m w by fastforce
    then show ?thesis using t m w False
      by (subst parse_elements_unfold [OF p k]) (simp add: el sp eat_here eat_not)
  qed
qed

text \<open>A member is its key, the text and value of its value, and what the value needs.\<close>

abbreviation member_text :: "string \<times> string \<times> 'f jvariant \<times> nat \<Rightarrow> string" where
  "member_text w \<equiv> writeString (fst w) @ CHR '':'' # fst (snd w)"

abbreviation member_need :: "string \<times> string \<times> 'f jvariant \<times> nat \<Rightarrow> nat" where
  "member_need w \<equiv> cost (length (fst w)) + SLOT_SIZE + snd (snd (snd w))"

abbreviation member_value :: "string \<times> string \<times> 'f jvariant \<times> nat \<Rightarrow> string \<times> 'f jvariant" where
  "member_value w \<equiv> (fst w, fst (snd (snd w)))"

lemma member_written:
  assumes r: "reads (parse AllowAll) c v n" and g: "good (j_mem s)" "cost (length k) + SLOT_SIZE + n \<le> room (j_mem s)"
    and key: "NUL \<notin> set k" "k \<notin> set (map fst ms)"
    and u: "j_mem u = appended M k (j_mem s)" "j_in u = c @ rest" "\<not> canBeInNumber (peek rest)"
  shows "\<exists>t. parse_member M parse g F AllowAll ms u = (Ok, ms @ [(k, v)], t) \<and> j_in t = rest \<and>
    good (j_mem t) \<and> room (j_mem s) \<le> room (j_mem t) + (cost (length k) + SLOT_SIZE + n)"
proof -
  have l: "cost (length k) \<le> room (j_mem s)" using g(2) by simp
  have k: "cstr k = k" using key(1) by (auto simp: cstr_def takeWhile_eq_all_conv)
  then have none: "getMember k ms = None" using key(2) by (simp add: getMember_def map_of_eq_None_iff)
  obtain y m where sv: "save M (appended M k (j_mem s)) = (y, m)" by (metis surj_pair)
  note m = saved [OF g(1) l sv]
  obtain ok m' where sl: "addSlot M m = (ok, m')" by (metis surj_pair)
  have sz: "SLOT_SIZE \<le> room m" using m g(2) by simp
  note m' = slot [OF conjunct1 [OF conjunct2 [OF m]] sz sl]
  let ?u = "u\<lparr>j_mem := m'\<rparr>"
  obtain t where t: "parse AllowAll JNull ?u = (Ok, v, t)" "j_in t = rest" "good (j_mem t)"
      "room (j_mem ?u) \<le> room (j_mem t) + n"
  proof (rule readsD [OF r])
    show "good (j_mem ?u)" using m' by simp
    show "n \<le> room (j_mem ?u)" using m m' g(2) by simp
    show "j_in ?u = c @ rest" using u by simp
  qed (use u in auto)
  have "parse_member M parse g F AllowAll ms u = (Ok, ms @ [(k, v)], t)"
    using none k m m' sv sl t(1) appended_str [OF g(1) l]
    by (simp add: parse_member_def u(1) save_string_def Let_def)
  then show ?thesis using t m m' by simp
qed

lemma members_written:
  assumes p: "\<And>flt. input.parses (parse flt)" and k: "input.skips g"
    and "ws \<noteq> []" and "\<forall>w\<in>set ws. reads (parse AllowAll) (fst (snd w)) (fst (snd (snd w))) (snd (snd (snd w)))"
    and "good (j_mem s)" and "sum_list (map member_need ws) \<le> room (j_mem s)"
    and "j_in s = separated (map member_text ws) @ CHR ''}'' # rest"
    and "\<forall>w\<in>set ws. NUL \<notin> set (fst w)" and "distinct (map fst ms @ map fst ws)"
  shows "\<exists>t. parse_members M parse g F AllowAll ms s = (Ok, ms @ map member_value ws, t) \<and> j_in t = rest \<and>
    good (j_mem t) \<and> room (j_mem s) \<le> room (j_mem t) + sum_list (map member_need ws)"
  using assms(3-)
proof (induction ws arbitrary: ms s)
  case Nil
  then show ?case by simp
next
  case (Cons w ws)
  obtain key c v n where w: "w = (key, c, v, n)" by (metis prod_cases4)
  let ?sep = "if ws = [] then CHR ''}'' # rest else CHR '','' # separated (map member_text ws) @ CHR ''}'' # rest"
  have s: "j_in s = writeString key @ CHR '':'' # c @ ?sep" using Cons.prems(5) w by (cases ws) auto
  have nb: "\<not> canBeInNumber (peek ?sep)" by (simp add: peek_def canBeInNumber_def isBetween_def less_eq_char_def)
  have l: "cost (length key) \<le> room (j_mem s)" using Cons.prems(4) w by simp
  define s1 where "s1 = s\<lparr>j_in := CHR '':'' # c @ ?sep, j_mem := appended M key (j_mem s)\<rparr>"
  have pk: "parseKey M s = (Ok, s1)" unfolding s1_def by (rule key_written [OF Cons.prems(3) l s])
  define s3 where "s3 = s1\<lparr>j_found := True, j_in := c @ ?sep\<rparr>"
  have sp1: "skipSpacesAndComments s1 = (Ok, s1\<lparr>j_found := True\<rparr>)"
    by (simp add: s1_def skipSpaces_here is_space_def)
  have colon: "eat (CHR '':'') (s1\<lparr>j_found := True\<rparr>) = (True, s3)"
    by (simp add: s3_def s1_def eat_here)
  have r: "reads (parse AllowAll) c v n" using Cons.prems(2) w by simp
  obtain t where t: "parse_member M parse g F AllowAll ms s3 = (Ok, ms @ [(key, v)], t)" "j_in t = ?sep"
      "good (j_mem t)" "room (j_mem s) \<le> room (j_mem t) + (cost (length key) + SLOT_SIZE + n)"
    using member_written [of parse c v n s key ms s3 ?sep g F, OF r Cons.prems(3)] nb Cons.prems(4,6,7) w
    by (auto simp: s3_def s1_def)
  have sp: "skipSpacesAndComments t = (Ok, t\<lparr>j_found := True\<rparr>)"
    using t(2) by (cases "ws = []") (simp_all add: skipSpaces_here is_space_def)
  note unfolded = parse_members_unfold [where f = parse, OF p k]
  show ?case
  proof (cases "ws = []")
    case True
    then show ?thesis using t w
      by (subst unfolded) (simp add: pk sp1 colon sp eat_here eat_not)
  next
    case False
    let ?u = "t\<lparr>j_found := True, j_in := separated (map member_text ws) @ CHR ''}'' # rest\<rparr>"
    obtain q cs where q: "separated (map member_text ws) = QUOTE # cs"
      using False by (cases ws rule: remdups_adj.cases) (auto simp: writeString_def)
    have sp2: "skipSpacesAndComments ?u = (Ok, ?u)"
      using q by (simp add: skipSpaces_here is_space_def QUOTE_def)
    obtain u where u: "parse_members M parse g F AllowAll (ms @ [(key, v)]) ?u =
          (Ok, (ms @ [(key, v)]) @ map member_value ws, u)"
        "j_in u = rest" "good (j_mem u)" "room (j_mem ?u) \<le> room (j_mem u) + sum_list (map member_need ws)"
      using Cons.IH [of ?u "ms @ [(key, v)]"] Cons.prems False t w by fastforce
    then show ?thesis using t w False sp2
      by (subst unfolded) (simp add: pk sp1 colon sp eat_here eat_not)
  qed
qed

lemma parse_value_here:
  assumes "plain v" and "j_in s = serialize F W v @ rest"
  shows "skipSpacesAndComments s = (Ok, s\<lparr>j_found := True\<rparr>)"
proof -
  obtain c cs where "serialize F W v = c # cs" "starts c" using serialize_starts [OF assms(1)] by blast
  then show ?thesis using assms(2) starts_facts by (simp add: skipSpaces_here)
qed

lemma keyword_here:
  assumes "j_in s = k @ rest" and "NUL \<notin> set k"
  shows "keyword k v s = (Ok, v, s\<lparr>j_in := rest\<rparr>)"
  using skipKeyword_here [OF assms] by (simp add: keyword_def)

lemma reads_number:
  assumes t: "number_text cs" and n: "parseNumber F cs = Some v"
  shows "reads (parse_value M F reached parse g AllowAll) cs v 0"
  unfolding reads_def
proof (intro allI impI)
  fix s :: "'m jstate" and rest
  assume a: "good (j_mem s)" "j_in s = cs @ rest" "\<not> canBeInNumber (peek rest)"
  obtain c cs' where cs: "cs = c # cs'" "is_digit c \<or> c = CHR ''-''" using t by (cases cs) (auto simp: number_text_def)
  then have st: "starts c" by (auto simp: starts_def)
  have sp: "skipSpacesAndComments s = (Ok, s\<lparr>j_found := True\<rparr>)"
    using a(2) cs starts_facts [OF st] by (simp add: skipSpaces_here)
  have c: "c \<notin> {CHR ''['', CHR ''{'', CHR ''t'', CHR ''f'', CHR ''n'', CHR 0x27, CHR 0x22}"
    using cs(2) by (auto simp: is_digit_def)
  have "current (s\<lparr>j_found := True\<rparr>) = c" using a(2) cs by (simp add: current_def peek_def)
  then have "parse_value M F reached parse g AllowAll JNull s = parseNumericValue F JNull (s\<lparr>j_found := True\<rparr>)"
    using c by (simp add: parse_value_def sp Let_def isQuote_def)
  then show "\<exists>t. parse_value M F reached parse g AllowAll JNull s = (Ok, v, t) \<and> j_in t = rest \<and> good (j_mem t) \<and>
      room (j_mem s) \<le> room (j_mem t) + 0"
    using parse_number_text [OF t n a(3), of "s\<lparr>j_found := True\<rparr>"] a by simp
qed

lemma reads_scalar:
  fixes v :: "'f jvariant"
  assumes "plain v" and "depth v = 0"
  shows "reads (parse_value M F reached parse g AllowAll) (serialize F W v) (canonical v) (need cost v)"
proof (cases v)
  case (JUnsigned n)
  then show ?thesis using reads_number [OF number_text_written(1) parseNumber_unsigned] by simp
next
  case (JSigned n)
  then show ?thesis using reads_number [OF number_text_written(2) parseNumber_signed] by simp
next
  case JNull
  show ?thesis unfolding reads_def
  proof (intro allI impI)
    fix s :: "'m jstate" and rest
    assume a: "good (j_mem s)" "j_in s = serialize F W v @ rest"
    have "keyword ''null'' v (s\<lparr>j_found := True\<rparr>) = (Ok, v, s\<lparr>j_found := True, j_in := rest\<rparr>)"
      using a JNull by (intro keyword_here) auto
    then show "\<exists>t. parse_value M F reached parse g AllowAll JNull s = (Ok, canonical v, t) \<and> j_in t = rest \<and>
        good (j_mem t) \<and> room (j_mem s) \<le> room (j_mem t) + need cost v"
      using a JNull parse_value_here [OF assms(1) a(2)]
      by (simp add: parse_value_def Let_def isQuote_def current_def peek_def)
  qed
next
  case (JBool b)
  show ?thesis unfolding reads_def
  proof (intro allI impI)
    fix s :: "'m jstate" and rest
    assume a: "good (j_mem s)" "j_in s = serialize F W v @ rest"
    have "keyword (writeBoolean b) v (s\<lparr>j_found := True\<rparr>) =
        (Ok, v, s\<lparr>j_found := True, j_in := rest\<rparr>)"
      using a JBool by (intro keyword_here) (auto simp: writeBoolean_def)
    then show "\<exists>t. parse_value M F reached parse g AllowAll JNull s = (Ok, canonical v, t) \<and> j_in t = rest \<and>
        good (j_mem t) \<and> room (j_mem s) \<le> room (j_mem t) + need cost v"
      using a JBool parse_value_here [OF assms(1) a(2)]
      by (cases b) (simp_all add: parse_value_def Let_def isQuote_def current_def peek_def writeBoolean_def)
  qed
next
  case (JString x)
  show ?thesis unfolding reads_def
  proof (intro allI impI)
    fix s :: "'m jstate" and rest
    assume a: "good (j_mem s)" "j_in s = serialize F W v @ rest" and r: "need cost v \<le> room (j_mem s)"
    let ?s = "s\<lparr>j_found := True\<rparr>"
    obtain t where t: "parseStringValue M (JNull :: 'f jvariant) ?s = (Ok, JString x, t)" "j_in t = rest" "good (j_mem t)"
        "room (j_mem ?s) \<le> room (j_mem t) + cost (length x)"
      using stringValue_written [of ?s x rest JNull] a r JString by auto
    have "current ?s = CHR 0x22" using a JString by (simp add: current_def peek_def writeString_def QUOTE_def)
    then show "\<exists>t. parse_value M F reached parse g AllowAll JNull s = (Ok, canonical v, t) \<and> j_in t = rest \<and>
        good (j_mem t) \<and> room (j_mem s) \<le> room (j_mem t) + need cost v"
      using t JString parse_value_here [OF assms(1) a(2)]
      by (simp add: parse_value_def Let_def isQuote_def)
  qed
qed (use assms in auto)

lemma reads_array:
  assumes p: "\<And>flt. input.parses (parse flt)" and k: "input.skips g"
    and v: "\<forall>v\<in>set vs. plain v \<and> reads (parse AllowAll) (serialize F W v) (canonical v) (need cost v)"
  shows "reads (parse_value M F False parse g AllowAll) (serialize F W (JArray vs)) (canonical (JArray vs))
    (need cost (JArray vs))"
  unfolding reads_def
proof (intro allI impI)
  fix s :: "'m jstate" and rest
  assume a: "good (j_mem s)" "need cost (JArray vs) \<le> room (j_mem s)" "j_in s = serialize F W (JArray vs) @ rest"
  let ?ws = "map (\<lambda>v. (serialize F W v, canonical v, need cost v)) vs"
  define s1 where "s1 = s\<lparr>j_found := True\<rparr>"
  define s2 where "s2 = s\<lparr>j_found := True, j_in := separated (map fst ?ws) @ CHR '']'' # rest\<rparr>"
  have sp: "skipSpacesAndComments s = (Ok, s1)" using a(3) by (simp add: s1_def skipSpaces_here is_space_def)
  have mem: "j_mem s2 = j_mem s" by (simp add: s2_def)
  have cur: "current s1 = CHR ''[''" and mv: "move s1 = s2"
    using a(3) by (simp_all add: s1_def s2_def current_def peek_def move_def comp_def)
  show "\<exists>t. parse_value M F False parse g AllowAll JNull s = (Ok, canonical (JArray vs), t) \<and> j_in t = rest \<and>
      good (j_mem t) \<and> room (j_mem s) \<le> room (j_mem t) + need cost (JArray vs)"
  proof (cases "vs = []")
    case True
    then have "skipSpacesAndComments s2 = (Ok, s2)" by (simp add: s2_def skipSpaces_here is_space_def)
    moreover have "eat (CHR '']'') s2 = (True, s2\<lparr>j_in := rest\<rparr>)" using True by (simp add: s2_def eat_here)
    ultimately show ?thesis using a True
      by (simp add: parse_value_def sp cur mv Let_def parseArray_def s2_def)
  next
    case False
    obtain c cs where c: "separated (map fst ?ws) = c # cs" "starts c"
      using False v by (cases vs rule: remdups_adj.cases)
        (auto dest!: serialize_starts [where F = F and W = W])
    have sp2: "skipSpacesAndComments s2 = (Ok, s2)"
      using c starts_facts [OF c(2)] by (simp add: s2_def skipSpaces_here)
    have el: "eat (CHR '']'') s2 = (False, s2)"
      using c starts_facts [OF c(2)] by (simp add: s2_def eat_not)
    obtain t where t: "parse_elements M (parse AllowAll) g True [] s2 = (Ok, [] @ map (fst \<circ> snd) ?ws, t)"
        "j_in t = rest" "good (j_mem t)"
        "room (j_mem s2) \<le> room (j_mem t) + sum_list (map (\<lambda>w. SLOT_SIZE + snd (snd w)) ?ws)"
      using elements_written [where ws = ?ws and s = s2 and rest = rest and acc = "[]", OF p k] a False v
      by (auto simp: s2_def comp_def)
    then show ?thesis using a
      by (simp add: parse_value_def sp cur mv Let_def parseArray_def sp2 el comp_def mem)
  qed
qed

lemma object_read:
  assumes p: "\<And>flt. input.parses (parse flt)" and k: "input.skips g"
    and v: "\<forall>m\<in>set ms. NUL \<notin> set (fst m) \<and>
      reads (parse AllowAll) (serialize F W (snd m)) (canonical (snd m)) (need cost (snd m))"
    and d: "distinct (map fst ms)"
  shows "reads_any (parse_value M F False parse g AllowAll) (serialize F W (JObject ms)) (canonical (JObject ms))
    (need cost (JObject ms))"
  unfolding reads_any_def
proof (intro allI impI)
  fix s :: "'m jstate" and rest
  assume a: "good (j_mem s)" "need cost (JObject ms) \<le> room (j_mem s)" "j_in s = serialize F W (JObject ms) @ rest"
  let ?ws = "map (\<lambda>(k, v). (k, serialize F W v, canonical v, need cost v)) ms"
  define s1 where "s1 = s\<lparr>j_found := True\<rparr>"
  define s2 where "s2 = s\<lparr>j_found := True, j_in := separated (map member_text ?ws) @ CHR ''}'' # rest\<rparr>"
  have sp: "skipSpacesAndComments s = (Ok, s1)" using a(3) by (simp add: s1_def skipSpaces_here is_space_def)
  have mem: "j_mem s2 = j_mem s" by (simp add: s2_def)
  have cur: "current s1 = CHR ''{''" and mv: "move s1 = s2"
    using a(3) by (simp_all add: s1_def s2_def current_def peek_def move_def comp_def case_prod_unfold)
  show "\<exists>t. parse_value M F False parse g AllowAll JNull s = (Ok, canonical (JObject ms), t) \<and> j_in t = rest \<and>
      good (j_mem t) \<and> room (j_mem s) \<le> room (j_mem t) + need cost (JObject ms)"
  proof (cases "ms = []")
    case True
    then have "skipSpacesAndComments s2 = (Ok, s2)" by (simp add: s2_def skipSpaces_here is_space_def)
    moreover have "eat (CHR ''}'') s2 = (True, s2\<lparr>j_in := rest\<rparr>)" using True by (simp add: s2_def eat_here)
    ultimately show ?thesis using a True
      by (simp add: parse_value_def sp cur mv Let_def parseObject_def s2_def)
  next
    case False
    obtain cs where c: "separated (map member_text ?ws) = QUOTE # cs"
      using False by (cases ms rule: remdups_adj.cases) (auto simp: writeString_def)
    have sp2: "skipSpacesAndComments s2 = (Ok, s2)"
      using c by (simp add: s2_def skipSpaces_here is_space_def QUOTE_def)
    have el: "eat (CHR ''}'') s2 = (False, s2)"
      using c by (simp add: s2_def eat_not QUOTE_def)
    have n: "sum_list (map member_need ?ws) = need cost (JObject ms)" by (simp add: comp_def case_prod_unfold)
    obtain t where t: "parse_members M parse g F AllowAll [] s2 = (Ok, [] @ map member_value ?ws, t)"
        "j_in t = rest" "good (j_mem t)" "room (j_mem s2) \<le> room (j_mem t) + need cost (JObject ms)"
      using members_written [where parse = parse and ws = ?ws and s = s2 and rest = rest and ms = "[]" and F = F, OF p k] a False v d
      unfolding n by (auto simp: s2_def comp_def case_prod_unfold)
    then show ?thesis using a
      by (simp add: parse_value_def sp cur mv Let_def parseObject_def sp2 el comp_def mem case_prod_unfold)
  qed
qed

lemmas reads_object = reads_any_reads [OF object_read]

lemma reads_document:
  "plain v \<Longrightarrow> depth v \<le> n \<Longrightarrow> reads (parseVariant M F n AllowAll) (serialize F W v) (canonical v) (need cost v)"
proof (induction n arbitrary: v)
  case 0
  then show ?case unfolding parseVariant.simps by (intro reads_scalar) auto
next
  case (Suc n)
  note k = input.R_skipVariant [of n] and p = input.R_parseVariant [of M F n]
  show ?case
  proof (cases v)
    case (JArray vs)
    then show ?thesis using Suc.prems Suc.IH unfolding parseVariant.simps depth_le JArray
      by (intro reads_array p k) auto
  next
    case (JObject ms)
    then show ?thesis using Suc.prems Suc.IH unfolding parseVariant.simps depth_le JObject
      by (intro reads_object p k) auto
  qed (use Suc.prems in \<open>auto simp del: serialize.simps canonical.simps need.simps intro!: reads_scalar\<close>)
qed

text \<open>Behind an object anything may follow.\<close>

lemma object_document_read:
  assumes "plain (JObject ms)" "depth (JObject ms) \<le> Suc n" "good (j_mem s)" "need cost (JObject ms) \<le> room (j_mem s)"
    and "j_in s = serialize F W (JObject ms) @ rest"
  shows "\<exists>t. parse_json M F (Suc n) AllowAll JNull s = (Ok, canonical (JObject ms), t)"
proof -
  have v: "\<forall>m\<in>set ms. NUL \<notin> set (fst m) \<and>
      reads (parseVariant M F n AllowAll) (serialize F W (snd m)) (canonical (snd m)) (need cost (snd m))"
  proof (intro ballI conjI)
    fix m assume m: "m \<in> set ms"
    show "NUL \<notin> set (fst m)" using m assms(1) by simp
    show "reads (parseVariant M F n AllowAll) (serialize F W (snd m)) (canonical (snd m)) (need cost (snd m))"
      by (rule reads_document) (use m assms(1,2) depth_le(2) in auto)
  qed
  have "reads_any (parseVariant M F (Suc n) AllowAll) (serialize F W (JObject ms)) (canonical (JObject ms))
      (need cost (JObject ms))"
    unfolding parseVariant.simps
    by (rule object_read [where parse = "parseVariant M F n" and F = F and W = W and ms = ms, OF _ input.R_skipVariant v])
      (use assms(1) input.R_parseVariant in simp_all)
  then obtain t where "parseVariant M F (Suc n) AllowAll JNull s = (Ok, canonical (JObject ms), t)"
    using assms(3-5) unfolding reads_any_def by blast
  then show ?thesis by (simp add: parse_json_def isEnclosed_def)
qed

text \<open>A whole document: after a value no character is left that the parser would look at.\<close>

lemma document_read:
  assumes "plain v" "depth v \<le> n" "good (j_mem s)" "need cost v \<le> room (j_mem s)" "j_in s = serialize F W v"
  shows "\<exists>t. parse_json M F n AllowAll JNull s = (Ok, canonical v, t)"
proof -
  have "\<not> canBeInNumber (peek [])" by (simp add: peek_def canBeInNumber_def isBetween_def less_eq_char_def)
  then obtain t where "parseVariant M F n AllowAll JNull s = (Ok, canonical v, t)" "j_in t = []"
    using readsD [OF reads_document [OF assms(1,2)] assms(3,4), of F W "[]"] assms(5) by auto
  then show ?thesis by (simp add: parse_json_def current_def peek_def)
qed

end

section \<open>The two storages\<close>

definition copier_good :: "copier \<Rightarrow> bool" where
  "copier_good c = (pool_inv (c_pool c) \<and> \<not> p_overflowed (c_pool c))"

lemma copier_appended:
  "length (c_text c) + length x < c_capacity c \<Longrightarrow> \<not> p_overflowed (c_pool c) \<Longrightarrow>
   c_text (fold copier_append x c) = c_text c @ x \<and> c_pool (fold copier_append x c) = c_pool c"
  by (induction x arbitrary: c) (auto simp: copier_append_def)

lemma copier_written:
  assumes "copier_good c" and "length x < freeZone (c_pool c)"
  shows "c_text (appended copier_ops x c) = x \<and> c_pool (appended copier_ops x c) = c_pool c"
proof -
  have "c_pool (copier_start c) = c_pool c" using assms(2) by (simp add: copier_start_def)
  then show ?thesis
    using assms copier_appended [of "copier_start c" x]
    by (simp add: appended_def copier_good_def copier_start_simps)
qed

interpretation copied: string_memory copier_ops copier_good "\<lambda>c. freeZone (c_pool c)" Suc
proof
  fix m m' :: copier and x y :: string and ok
  assume g: "copier_good m"
  show "ok \<and> copier_good m' \<and> freeZone (c_pool m) \<le> freeZone (c_pool m') + SLOT_SIZE"
    if "SLOT_SIZE \<le> freeZone (c_pool m)" "addSlot copier_ops m = (ok, m')"
    using g that
    by (auto simp: copier_addSlot_def allocVariant_def copier_good_def pool_inv_def canAlloc_def freeZone_def
        SLOT_SIZE_def split: prod.splits if_splits)
  assume l: "Suc (length x) \<le> freeZone (c_pool m)"
  note w = copier_written [OF g Suc_le_lessD [OF l]]
  show "isValid copier_ops (appended copier_ops x m)" using w g by (simp add: copier_good_def)
  show "str copier_ops (appended copier_ops x m) = x" using w by simp
  show "y = x \<and> copier_good m' \<and> freeZone (c_pool m) \<le> freeZone (c_pool m') + Suc (length x)"
    if "save copier_ops (appended copier_ops x m) = (y, m')"
    using that w g l pool_inv_save [OF surjective_pairing, of "c_pool m" x]
    by (auto simp: copier_save_def copier_good_def)
qed

lemma mover_text: "m_text (fold mover_append x m) = m_text m @ x"
  by (induction x arbitrary: m) (simp_all add: mover_append_def)

interpretation in_place: string_memory mover_ops "\<lambda>m. pool_inv (m_pool m)" "\<lambda>m. freeZone (m_pool m)" "\<lambda>_. 0"
proof
  fix m m' :: mover and x y :: string and ok
  assume g: "pool_inv (m_pool m)"
  show "ok \<and> pool_inv (m_pool m') \<and> freeZone (m_pool m) \<le> freeZone (m_pool m') + SLOT_SIZE"
    if "SLOT_SIZE \<le> freeZone (m_pool m)" "addSlot mover_ops m = (ok, m')"
    using g that
    by (auto simp: mover_addSlot_def allocVariant_def pool_inv_def canAlloc_def freeZone_def
        SLOT_SIZE_def split: prod.splits if_splits)
  show "isValid mover_ops (appended mover_ops x m)" by simp
  show "str mover_ops (appended mover_ops x m) = x"
    using mover_text [of x "mover_start m"] by (simp add: appended_def mover_start_def)
  show "y = x \<and> pool_inv (m_pool m') \<and> freeZone (m_pool m) \<le> freeZone (m_pool m') + 0"
    if "save mover_ops (appended mover_ops x m) = (y, m')"
    using that g mover_text [of x "mover_start m"] mover_fold [of x "mover_start m"]
    by (auto simp: appended_def mover_save_def mover_start_def)
qed

end
