(* ===== verification/JsonProps.thy ===== *)
theory JsonProps
  imports JsonRound
begin

text \<open>
  What the JSON library promises to the relay client: documents survive printing and parsing, the
  pool and the input buffer are never left, every loop ends by itself, and the nesting limit holds. The last
  section is about numbers that do not fit into 64 bits.
\<close>

section \<open>Values for the witnesses\<close>

text \<open>For the witnesses, a double is the pair it was made from.\<close>

definition demo_floats :: "(u64 \<times> int) float_ops" where
  "demo_floats = \<lparr>make_float = Pair, neg_float = id, inf_float = (0, 400), zero_float = (0, 0),
     float_nonzero = (\<lambda>x. fst x \<noteq> 0), float_is_one = (\<lambda>x. x = (1, 0))\<rparr>"

definition demo_format :: "(u64 \<times> int) float_format" where
  "demo_format = \<lparr>f_isnan = (\<lambda>_. False), f_isinf = (\<lambda>_. False), f_negative = (\<lambda>_. False),
     f_parts = (\<lambda>x. (ucast (fst x), 0, 0, word_of_int (snd x)))\<rparr>"

definition demo_doc :: "(u64 \<times> int) jvariant" where
  "demo_doc = JObject [(''a'', JArray [JSigned (- 5), JBool True, JNull, JArray []]), (''b'', JString ''x/y'')]"

section \<open>Round trips\<close>

text \<open>
  C27. A document without floats and raw text, whose keys are distinct and free of NUL, not deeper than the
  nesting limit and not larger than the pool, comes back from its own JSON text: parsing succeeds and gives the same
  tree, except that every signed integer that is not negative has become the unsigned one of the same value. When the
  strings are copied the pool must have room for them; when the text is parsed in place, as the relay client does it,
  only the slots need room.
\<close>

theorem json_roundtrip:
  assumes "plain v" and "depth v \<le> limit"
  shows "(need Suc v \<le> p_end p \<longrightarrow>
      (\<exists>q. deserializeJson F limit AllowAll (serialize F W v) p = (Ok, canonical v, q))) \<and>
    (need (\<lambda>_. 0) v \<le> p_end p \<longrightarrow>
      (\<exists>q. deserializeJson_inplace F limit AllowAll (serialize F W v) p = (Ok, canonical v, q)))"
proof (intro conjI impI)
  let ?s = "\<lparr>j_in = serialize F W v, j_found = False,
    j_mem = \<lparr>c_pool = clear_pool p, c_text = [], c_capacity = 0\<rparr>\<rparr>"
  assume "need Suc v \<le> p_end p"
  then obtain t where "parse_json copier_ops F limit AllowAll JNull ?s = (Ok, canonical v, t)"
    using copied.document_read [OF assms, of ?s F W] by (auto simp: copier_good_def)
  then show "\<exists>q. deserializeJson F limit AllowAll (serialize F W v) p = (Ok, canonical v, q)"
    by (simp add: deserializeJson_def)
next
  let ?s = "\<lparr>j_in = serialize F W v, j_found = False,
    j_mem = \<lparr>m_pool = clear_pool p, m_text = [], m_write = 0\<rparr>\<rparr>"
  assume "need (\<lambda>_. 0) v \<le> p_end p"
  then obtain t where "parse_json mover_ops F limit AllowAll JNull ?s = (Ok, canonical v, t)"
    using in_place.document_read [OF assms, of ?s F W] by auto
  then show "\<exists>q. deserializeJson_inplace F limit AllowAll (serialize F W v) p = (Ok, canonical v, q)"
    by (simp add: deserializeJson_inplace_def)
qed

section \<open>Bounds\<close>

text \<open>
  C28. Whatever the input and the filter, parsing leaves a pool whose strings and slots do not overlap and
  do not leave its memory.
\<close>

theorem json_pool_safe:
  "case deserializeJson F limit flt inp p of (e, v, q) \<Rightarrow> pool_inv q \<and> p_end q = p_end p"
proof -
  let ?s = "\<lparr>j_in = inp, j_found = False, j_mem = \<lparr>c_pool = clear_pool p, c_text = [], c_capacity = 0\<rparr>\<rparr>"
  obtain e v t where t: "parse_json copier_ops F limit flt JNull ?s = (e, v, t)" by (metis prod_cases3)
  then show ?thesis using copier_pool.parse_json_step [OF t] by (simp add: copier_keeps_def deserializeJson_def)
qed


definition demo_input :: "mover jstate" where
  "demo_input = \<lparr>j_in = ''[abc,'', j_found = False, j_mem = \<lparr>m_pool = new_pool 64, m_text = [], m_write = 0\<rparr>\<rparr>"


section \<open>Termination\<close>

text \<open>
  The loops over the elements of an array and the members of an object end although nothing in the
  code counts them: every round consumes input, so both satisfy the equation of the loop as it is
  written, without any guard.
\<close>

theorem json_loops_terminate:
  "parse_elements M (parseVariant M F n flt) (skipVariant n) b vs s =
    (case parse_element M (parseVariant M F n flt) (skipVariant n) b vs s of
     (err, vs1, s1) \<Rightarrow> if err \<noteq> Ok then (err, vs1, s1) else
     case skipSpacesAndComments s1 of (err, s2) \<Rightarrow> if err \<noteq> Ok then (err, vs1, s2) else
     case eat (CHR '']'') s2 of (close, s3) \<Rightarrow> if close then (Ok, vs1, s3) else
     case eat (CHR '','') s3 of (comma, s4) \<Rightarrow> if \<not> comma then (InvalidInput, vs1, s4) else
     parse_elements M (parseVariant M F n flt) (skipVariant n) b vs1 s4) \<and>
   parse_members M (parseVariant M F n) (skipVariant n) F flt ms s =
    (case parseKey M s of (err, s1) \<Rightarrow> if err \<noteq> Ok then (err, ms, s1) else
     case skipSpacesAndComments s1 of (err, s2) \<Rightarrow> if err \<noteq> Ok then (err, ms, s2) else
     case eat (CHR '':'') s2 of (colon, s3) \<Rightarrow> if \<not> colon then (InvalidInput, ms, s3) else
     case parse_member M (parseVariant M F n) (skipVariant n) F flt ms s3 of (err, ms1, s4) \<Rightarrow>
       if err \<noteq> Ok then (err, ms1, s4) else
     case skipSpacesAndComments s4 of (err, s5) \<Rightarrow> if err \<noteq> Ok then (err, ms1, s5) else
     case eat (CHR ''}'') s5 of (close, s6) \<Rightarrow> if close then (Ok, ms1, s6) else
     case eat (CHR '','') s6 of (comma, s7) \<Rightarrow> if \<not> comma then (InvalidInput, ms1, s7) else
     case skipSpacesAndComments s7 of (err, s8) \<Rightarrow> if err \<noteq> Ok then (err, ms1, s8) else
     parse_members M (parseVariant M F n) (skipVariant n) F flt ms1 s8)"
  by (intro conjI parse_elements_unfold parse_members_unfold input.R_parseVariant input.R_skipVariant)

section \<open>The nesting limit\<close>

definition shallow ::
    "nat \<Rightarrow> ('f jvariant \<Rightarrow> 'm jstate \<Rightarrow> code \<times> 'f jvariant \<times> 'm jstate) \<Rightarrow> bool" where
  "shallow n f = (\<forall>v s v' t. depth v \<le> n \<longrightarrow> f v s = (Ok, v', t) \<longrightarrow> depth v' \<le> n)"

lemma shallowD: "shallow n f \<Longrightarrow> f v s = (Ok, v', t) \<Longrightarrow> depth v \<le> n \<Longrightarrow> depth v' \<le> n"
  unfolding shallow_def by blast

lemma shallow_fresh: "shallow n f \<Longrightarrow> f JNull s = (Ok, v, t) \<Longrightarrow> depth v \<le> n"
  by (simp add: shallowD)

lemma parse_element_shallow:
  assumes "shallow n f" and "\<forall>v\<in>set vs. depth v \<le> n" and "parse_element M f g b vs s = (Ok, vs', t)"
  shows "\<forall>v\<in>set vs'. depth v \<le> n"
  using assms
  by (auto simp: parse_element_def split: if_splits prod.splits dest: shallow_fresh)

lemma parse_elements_shallow:
  assumes f: "shallow n f" and "\<forall>v\<in>set vs. depth v \<le> n" and "parse_elements M f g b vs s = (Ok, vs', t)"
  shows "\<forall>v\<in>set vs'. depth v \<le> n"
  using assms(2-)
proof (induction "length (j_in s)" arbitrary: vs s rule: less_induct)
  case less
  obtain e1 vs1 s1 where 1: "parse_element M f g b vs s = (e1, vs1, s1)" by (metis prod_cases3)
  obtain e2 s2 where 2: "skipSpacesAndComments s1 = (e2, s2)" by (metis surj_pair)
  obtain b3 s3 where 3: "eat (CHR '']'') s2 = (b3, s3)" by (metis surj_pair)
  obtain b4 s4 where 4: "eat (CHR '','') s3 = (b4, s4)" by (metis surj_pair)
  have "\<forall>v\<in>set vs1. depth v \<le> n" if "e1 = Ok"
    using parse_element_shallow [OF f less.prems(1)] 1 that by simp
  then show ?case
    using less.prems(2) less.hyps [of s4 vs1]
    by (subst (asm) parse_elements.simps) (simp add: 1 2 3 4 split: if_splits)
qed

lemma setMember_snd: "m \<in> set (setMember k v ms) \<Longrightarrow> snd m = v \<or> m \<in> set ms"
  by (induction k v ms rule: setMember.induct) (auto split: if_splits)

lemma parse_member_shallow:
  assumes f: "\<And>flt. shallow n (f flt)" and ms: "\<forall>m\<in>set ms. depth (snd m) \<le> n"
    and r: "parse_member M f g F flt ms s = (Ok, ms', t)"
  shows "\<forall>m\<in>set ms'. depth (snd m) \<le> n"
proof (cases "getMember (cstr (str M (j_mem s))) ms")
  case None
  obtain x s1 where 1: "save_string M s = (x, s1)" by (metis surj_pair)
  obtain ok m where 2: "addSlot M (j_mem s1) = (ok, m)" by (metis surj_pair)
  obtain e1 v1 s2 where 3: "f (memberFilter F (cstr (str M (j_mem s))) flt) JNull (s1\<lparr>j_mem := m\<rparr>) = (e1, v1, s2)"
    by (metis prod_cases3)
  have "depth v1 \<le> n" if "e1 = Ok" using shallow_fresh [OF f] 3 that by blast
  then show ?thesis using ms r
    by (auto simp: parse_member_def Let_def None 1 2 3 split: if_splits prod.splits)
next
  case (Some v)
  then have v: "depth v \<le> n" using ms by (auto simp: getMember_def dest!: map_of_SomeD)
  obtain e1 v1 s1 where 1: "f (memberFilter F (cstr (str M (j_mem s))) flt) v s = (e1, v1, s1)" by (metis prod_cases3)
  have "depth v1 \<le> n" if "e1 = Ok" using shallowD [OF f _ v] 1 that by blast
  then show ?thesis using ms r Some 1 setMember_snd
    by (fastforce simp: parse_member_def Let_def split: if_splits prod.splits)
qed

lemma parse_members_shallow:
  assumes f: "\<And>flt. shallow n (f flt)" and "\<forall>m\<in>set ms. depth (snd m) \<le> n"
    and "parse_members M f g F flt ms s = (Ok, ms', t)"
  shows "\<forall>m\<in>set ms'. depth (snd m) \<le> n"
  using assms(2-)
proof (induction "length (j_in s)" arbitrary: ms s rule: less_induct)
  case less
  obtain e1 s1 where 1: "parseKey M s = (e1, s1)" by (metis surj_pair)
  obtain e2 s2 where 2: "skipSpacesAndComments s1 = (e2, s2)" by (metis surj_pair)
  obtain b3 s3 where 3: "eat (CHR '':'') s2 = (b3, s3)" by (metis surj_pair)
  obtain e4 ms4 s4 where 4: "parse_member M f g F flt ms s3 = (e4, ms4, s4)" by (metis prod_cases3)
  obtain e5 s5 where 5: "skipSpacesAndComments s4 = (e5, s5)" by (metis surj_pair)
  obtain b6 s6 where 6: "eat (CHR ''}'') s5 = (b6, s6)" by (metis surj_pair)
  obtain b7 s7 where 7: "eat (CHR '','') s6 = (b7, s7)" by (metis surj_pair)
  obtain e8 s8 where 8: "skipSpacesAndComments s7 = (e8, s8)" by (metis surj_pair)
  have "\<forall>m\<in>set ms4. depth (snd m) \<le> n" if "e4 = Ok"
    using parse_member_shallow [of n f, OF f less.prems(1)] 4 that by simp
  then show ?case
    using less.prems(2) less.hyps [of s8 ms4]
    by (subst (asm) parse_members.simps) (simp add: 1 2 3 4 5 6 7 8 split: if_splits)
qed

lemma parseArray_shallow:
  assumes f: "\<And>flt. shallow n (f flt)" and "parseArray M reached f g F flt s = (Ok, vs, t)"
  shows "\<not> reached \<and> depth (JArray vs) \<le> Suc n"
  unfolding depth_le using assms parse_elements_shallow [of n "f (elementFilter F flt)" "[]"]
  by (auto simp: parseArray_def Let_def simp del: depth.simps split: if_splits prod.splits)

lemma parseObject_shallow:
  assumes f: "\<And>flt. shallow n (f flt)" and "parseObject M reached f g F flt s = (Ok, ms, t)"
  shows "\<not> reached \<and> depth (JObject ms) \<le> Suc n"
  unfolding depth_le using assms parse_members_shallow [of n f "[]"]
  by (auto simp: parseObject_def simp del: depth.simps split: if_splits prod.splits)

lemma parseNumber_flat: "parseNumber F cs = Some v \<Longrightarrow> depth v = 0"
proof -
  have t: "parse_float_tail F neg m x = Some v \<Longrightarrow> depth v = 0" for neg m x
    by (auto simp: parse_float_tail_def Let_def split: prod.splits if_splits option.splits)
  show "parseNumber F cs = Some v \<Longrightarrow> depth v = 0"
    by (auto simp: parseNumber_def Let_def split: prod.splits if_splits dest: t)
qed

lemma parse_value_shallow:
  assumes f: "\<And>flt. shallow n (f flt)"
  shows "shallow (if reached then 0 else Suc n) (parse_value M F reached f g flt)"
  unfolding shallow_def
proof (intro allI impI)
  fix v s v' t
  let ?n = "if reached then 0 else Suc n"
  assume v: "depth v \<le> ?n" and r: "parse_value M F reached f g flt v s = (Ok, v', t)"
  obtain e1 s1 where 1: "skipSpacesAndComments s = (e1, s1)" by (metis surj_pair)
  obtain ea vs ta where A: "parseArray M reached f g F flt s1 = (ea, vs, ta)" by (metis prod_cases3)
  obtain eo ms to where O: "parseObject M reached f g F flt s1 = (eo, ms, to)" by (metis prod_cases3)
  have a: "ea = Ok \<longrightarrow> depth (JArray vs) \<le> ?n" using parseArray_shallow [of n f M reached g F flt s1 vs ta, OF f] A by (cases ea) (simp_all del: depth.simps)
  have o: "eo = Ok \<longrightarrow> depth (JObject ms) \<le> ?n" using parseObject_shallow [of n f M reached g F flt s1 ms to, OF f] O by (cases eo) (simp_all del: depth.simps)
  have n: "depth (fst (snd (parseNumericValue F v s1))) \<le> ?n"
    using v parseNumber_flat [of F] by (auto simp: parseNumericValue_def Let_def split: option.splits)
  have str: "depth (fst (snd (parseStringValue M v s1))) \<le> ?n"
    using v by (auto simp: parseStringValue_def split: prod.splits)
  define d where "d = ?n"
  note facts = v a o n str
  show "depth v' \<le> ?n"
    using r facts unfolding d_def [symmetric]
    by (simp add: parse_value_def 1 A O Let_def keyword_def case_prod_unfold
        del: skipKeyword.simps depth.simps split: if_splits) auto
qed

lemma parseVariant_shallow: "shallow n (parseVariant M F n flt)"
proof (induction n arbitrary: flt)
  case 0
  have "shallow 0 (\<lambda>v s. (TooDeep, v, s))" by (simp add: shallow_def)
  then show ?case using parse_value_shallow [of 0 "\<lambda>_ v s. (TooDeep, v, s)" True] by simp
next
  case (Suc n)
  then show ?case using parse_value_shallow [of n "parseVariant M F n" False] by simp
qed

lemma parse_json_shallow: "parse_json M F n flt JNull s = (Ok, v, t) \<Longrightarrow> depth v \<le> n"
  using shallow_fresh [OF parseVariant_shallow] by (auto simp: parse_json_def split: prod.splits if_splits)

text \<open>
  C30. A document that was parsed without an error is nested no deeper than the limit, whatever the filter
  and whether the strings are copied or the input is parsed in place.
\<close>

theorem json_depth_limited:
  "(fst (deserializeJson F limit flt inp p) = Ok \<longrightarrow>
      depth (fst (snd (deserializeJson F limit flt inp p))) \<le> limit) \<and>
   (fst (deserializeJson_inplace F limit flt inp p) = Ok \<longrightarrow>
      depth (fst (snd (deserializeJson_inplace F limit flt inp p))) \<le> limit)"
proof (intro conjI impI)
  show "depth (fst (snd (deserializeJson F limit flt inp p))) \<le> limit" if "fst (deserializeJson F limit flt inp p) = Ok"
    using that by (auto simp: deserializeJson_def split: prod.splits dest: parse_json_shallow)
  show "depth (fst (snd (deserializeJson_inplace F limit flt inp p))) \<le> limit"
    if "fst (deserializeJson_inplace F limit flt inp p) = Ok"
    using that by (auto simp: deserializeJson_inplace_def split: prod.splits dest: parse_json_shallow)
qed

theorem json_depth_limited_witness:
  "depth (fst (snd (deserializeJson demo_floats 2 AllowAll ''[[],7]'' (new_pool 64)))) \<le> 2 \<and>
   depth (fst (snd (deserializeJson_inplace demo_floats 2 AllowAll ''[[],7]'' (new_pool 64)))) \<le> 2"
proof -
  have "fst (deserializeJson demo_floats 2 AllowAll ''[[],7]'' (new_pool 64)) = Ok"
    "fst (deserializeJson_inplace demo_floats 2 AllowAll ''[[],7]'' (new_pool 64)) = Ok" by code_simp+
  then show ?thesis
    using json_depth_limited [of demo_floats 2 AllowAll "''[[],7]''" "new_pool 64"] by blast
qed

section \<open>Integers\<close>

lemma digits_signless:
  assumes "list_all is_digit ds" and "ds \<noteq> []"
  shows "peek ds \<noteq> CHR ''-''" "peek ds \<noteq> CHR ''+''" "is_digit (peek ds)"
  using assms digit_facts by (cases ds; auto simp: peek_def)+

text \<open>
  An integer that fits is read exactly, leading zeros included: up to 64 bits without a sign, and
  down to the least signed 64-bit number with one.
\<close>

theorem integers_exact:
  assumes "list_all is_digit ds" and "ds \<noteq> []"
  shows "(digits_value ds < 2 ^ 64 \<longrightarrow> parseNumber F ds = Some (JUnsigned (of_nat (digits_value ds)))) \<and>
    (digits_value ds \<le> 2 ^ 63 \<longrightarrow>
       parseNumber F (CHR ''-'' # ds) = Some (JSigned (- of_nat (digits_value ds))))"
proof -
  have r: "read_mantissa 0 ds = (of_nat (digits_value ds), [])" if "digits_value ds < 2 ^ 64"
    using read_mantissa_digits [OF assms(1), of 0] that by simp
  have "parseNumber F ds = Some (JUnsigned (of_nat (digits_value ds)))" if "digits_value ds < 2 ^ 64"
    using digits_signless [OF assms] r [OF that] by (simp add: parseNumber_def Let_def)
  moreover have "parseNumber F (CHR ''-'' # ds) = Some (JSigned (- of_nat (digits_value ds)))"
    if "digits_value ds \<le> 2 ^ 63"
  proof -
    have lt: "digits_value ds < 2 ^ 64" using that by simp
    have "of_nat (digits_value ds) \<le> (2 ^ 63 :: u64)"
      using that lt by (simp add: word_le_nat_alt unat_of_nat take_bit_nat_eq_self)
    moreover have "not (of_nat (digits_value ds)) + 1 = - (of_nat (digits_value ds) :: u64)"
      by (simp add: minus_eq_not_plus_1)
    ultimately show ?thesis
      using digits_signless(3) [OF assms] r [OF lt] by (simp add: parseNumber_def Let_def peek_def)
  qed
  ultimately show ?thesis by blast
qed

theorem integers_exact_witness:
  "parseNumber demo_floats ''007'' = Some (JUnsigned 7) \<and>
   parseNumber demo_floats ''-12'' = Some (JSigned (- 12))"
  using integers_exact [of "''007''" demo_floats] integers_exact [of "''12''" demo_floats]
  by (simp add: is_digit_def)

section \<open>An integer just too large\<close>

text \<open>
  The first four integers that do not fit into 64 bits are read as a number ten times as large: the
  mantissa is multiplied before the loop finds that the digit does not fit, and the digit is then
  counted once more in the exponent.
\<close>

theorem overflowing_integer_times_ten:
  assumes "c \<in> set ''6789''"
  shows "parseNumber F (''1844674407370955161'' @ [c]) = Some (JFloat (make_float F 1844674407370955 5)) \<and>
    parseNumber F (''1844674407370955162'' @ [c]) = Some (JFloat (make_float F 1844674407370955 4))"
proof -
  have d: "is_digit c" "digit_val c \<in> {6, 7, 8, 9}" using assms by (auto simp: is_digit_def digit_val_def)
  have r: "read_mantissa 0 (''184467440737095516'' @ b # [c]) = read_mantissa 184467440737095516 [b, c]" for b
    by (simp add: is_digit_def digit_val_def maxUint_def)
  have 1: "read_mantissa 184467440737095516 [CHR ''1'', c] = (18446744073709551610, [c])"
    using d by (auto simp: is_digit_def [of "CHR ''1''"] digit_val_def [of "CHR ''1''"] maxUint_def)
  have 2: "read_mantissa 184467440737095516 [CHR ''2'', c] = (1844674407370955162, [c])"
    using d by (auto simp: is_digit_def [of "CHR ''2''"] digit_val_def [of "CHR ''2''"] maxUint_def)
  have r1: "read_mantissa 0 (''1844674407370955161'' @ [c]) = (18446744073709551610, [c])"
    using r [of "CHR ''1''"] by (simp only: 1 append.simps)
  have r2: "read_mantissa 0 (''1844674407370955162'' @ [c]) = (1844674407370955162, [c])"
    using r [of "CHR ''2''"] by (simp only: 2 append.simps)
  have s1: "shrink_mantissa 18446744073709551610 0 = (1844674407370955, 4)"
    by (simp add: shrink_mantissa.simps mantissa_max_def)
  have s2: "shrink_mantissa 1844674407370955162 0 = (1844674407370955, 3)"
    by (simp add: shrink_mantissa.simps mantissa_max_def)
  have p: "parseNumber F (CHR ''1'' # ds) = (case read_mantissa 0 (CHR ''1'' # ds) of (m, s) \<Rightarrow>
      if s = [] then Some (JUnsigned m) else parse_float_tail F False m s)" for ds
    by (simp add: parseNumber_def Let_def peek_def is_digit_def split: prod.splits)
  have t: "parse_float_tail F False m [c] = (case shrink_mantissa m 0 of (m, off) \<Rightarrow>
      Some (JFloat (make_float F m (exponent16 (off + 1)))))" for m
    using d(1) digit_facts [OF d(1)] by (simp add: parse_float_tail_def Let_def peek_def signed_float_def split: prod.splits)
  have "parseNumber F (''1844674407370955161'' @ [c]) = parse_float_tail F False 18446744073709551610 [c]"
    using p [of "''844674407370955161'' @ [c]"] r1 by (simp del: read_mantissa.simps)
  moreover have "parseNumber F (''1844674407370955162'' @ [c]) = parse_float_tail F False 1844674407370955162 [c]"
    using p [of "''844674407370955162'' @ [c]"] r2 by (simp del: read_mantissa.simps)
  ultimately show ?thesis by (simp add: t s1 s2 exponent16_def)
qed

theorem overflowing_integer_times_ten_witness:
  "parseNumber demo_floats ''18446744073709551616'' = Some (JFloat (1844674407370955, 5))"
  using overflowing_integer_times_ten [of "CHR ''6''" demo_floats] by (simp add: demo_floats_def)

section \<open>Witnesses of the round trips\<close>

lemma demo_doc_fits: "plain demo_doc \<and> depth demo_doc \<le> 3 \<and> need Suc demo_doc \<le> p_end (new_pool 300)"
  by (simp add: demo_doc_def new_pool_def SLOT_SIZE_def)

theorem json_roundtrip_witness:
  "\<exists>q. deserializeJson demo_floats 3 AllowAll (serialize demo_floats demo_format demo_doc) (new_pool 300) =
    (Ok, canonical demo_doc, q)"
  using json_roundtrip [of demo_doc 3 "new_pool 300" demo_floats demo_format] demo_doc_fits by blast

end
