(* ===== verification/JsonSlots.thy ===== *)
theory JsonSlots
  imports JsonData
begin

text \<open>
  Arrays and objects as the pool holds them: slots that are linked by relative offsets
  (\<open>VariantSlot.hpp\<close>, \<open>SlotFunctions.hpp\<close>, \<open>CollectionImpl.hpp\<close>). The other theories take such a chain for the list of
  what its slots hold; here the chain is the state, and the last section says that every operation does to the
  chain what the list shows. An address is an offset from the start of the pool.
\<close>

section \<open>Slots\<close>

text \<open>
  \<open>VariantSlot\<close>. The content is not looked into; \<open>None\<close> stands for the flags of null.
\<close>

type_synonym diff = "32 word"

record 'v slot =
  s_data :: "'v option"
  s_owned :: bool
  s_next :: diff
  s_key :: "string option"

record 'v slots =
  s_pool :: pool
  s_mem :: "nat \<Rightarrow> 'v slot"

definition slot_next :: "'v slots \<Rightarrow> nat \<Rightarrow> nat option" where
  "slot_next S a = (if s_next (s_mem S a) = 0 then None
     else Some (nat (int a + sint (s_next (s_mem S a)) * int SLOT_SIZE)))"

fun slot_skip :: "nat \<Rightarrow> 'v slots \<Rightarrow> nat \<Rightarrow> nat option" where
  "slot_skip 0 S a = Some a"
| "slot_skip (Suc n) S a = (case slot_next S a of None \<Rightarrow> None | Some b \<Rightarrow> slot_skip n S b)"

text \<open>The difference of two pointers, cut to the width of the field.\<close>

definition pointer_diff :: "nat \<Rightarrow> nat \<Rightarrow> diff" where
  "pointer_diff b a = word_of_int ((int b - int a) div int SLOT_SIZE)"

definition update_slot :: "nat \<Rightarrow> ('v slot \<Rightarrow> 'v slot) \<Rightarrow> 'v slots \<Rightarrow> 'v slots" where
  "update_slot a f S = S\<lparr>s_mem := (s_mem S)(a := f (s_mem S a))\<rparr>"

definition setNext :: "nat option \<Rightarrow> nat \<Rightarrow> 'v slots \<Rightarrow> 'v slots" where
  "setNext q a = update_slot a (s_next_update (\<lambda>_. case q of None \<Rightarrow> 0 | Some b \<Rightarrow> pointer_diff b a))"

definition setNextNotNull :: "nat \<Rightarrow> nat \<Rightarrow> 'v slots \<Rightarrow> 'v slots" where
  "setNextNotNull b a = update_slot a (s_next_update (\<lambda>_. pointer_diff b a))"

definition setKey :: "string \<Rightarrow> bool \<Rightarrow> nat \<Rightarrow> 'v slots \<Rightarrow> 'v slots" where
  "setKey k owned a = update_slot a (\<lambda>s. s\<lparr>s_owned := owned, s_key := Some k\<rparr>)"

definition slot_clear :: "nat \<Rightarrow> 'v slots \<Rightarrow> 'v slots" where
  "slot_clear a = update_slot a (\<lambda>s. s\<lparr>s_data := None, s_owned := False, s_next := 0, s_key := None\<rparr>)"

text \<open>\<open>MemoryPool::allocVariant\<close> with the address of the slot.\<close>

definition alloc_slot :: "'v slots \<Rightarrow> nat option \<times> 'v slots" where
  "alloc_slot S = (case allocVariant (s_pool S) of (ok, p) \<Rightarrow>
     (if ok then Some (p_right p) else None, S\<lparr>s_pool := p\<rparr>))"

text \<open>A key is copied into the pool or linked, as its storage policy says.\<close>

datatype key_policy = Copy | Link

definition slotSetKey :: "string \<Rightarrow> key_policy \<Rightarrow> nat option \<Rightarrow> 'v slots \<Rightarrow> bool \<times> 'v slots" where
  "slotSetKey k pol q S = (case q of None \<Rightarrow> (False, S)
     | Some a \<Rightarrow> (case pol of
         Link \<Rightarrow> (True, setKey k False a S)
       | Copy \<Rightarrow> (case saveString k (s_pool S) of
           (None, p) \<Rightarrow> (False, S\<lparr>s_pool := p\<rparr>)
         | (Some _, p) \<Rightarrow> (True, setKey k True a (S\<lparr>s_pool := p\<rparr>)))))"

text \<open>The loop of \<open>slotSize\<close>. \<open>None\<close>: the chain is a circle and the loop does not end.\<close>

partial_function (option) count_slots :: "nat \<Rightarrow> 'v slots \<Rightarrow> nat option \<Rightarrow> nat option" where
  "count_slots n S q = (case q of None \<Rightarrow> Some n | Some a \<Rightarrow> count_slots (n + 1) S (slot_next S a))"

definition slotSize :: "'v slots \<Rightarrow> nat option \<Rightarrow> nat option" where
  "slotSize S q = count_slots 0 S q"

section \<open>Collections\<close>

record collection =
  c_head :: "nat option"
  c_tail :: "nat option"

definition clear_collection :: collection where
  "clear_collection = \<lparr>c_head = None, c_tail = None\<rparr>"

definition addSlot :: "'v slots \<Rightarrow> collection \<Rightarrow> nat option \<times> 'v slots \<times> collection" where
  "addSlot S c = (case alloc_slot S of
     (None, S) \<Rightarrow> (None, S, c)
   | (Some a, S) \<Rightarrow> (case c_tail c of
       Some t \<Rightarrow> (Some a, slot_clear a (setNextNotNull a t S), c\<lparr>c_tail := Some a\<rparr>)
     | None \<Rightarrow> (Some a, slot_clear a S, c\<lparr>c_head := Some a, c_tail := Some a\<rparr>)))"

definition addElement :: "'v slots \<Rightarrow> collection \<Rightarrow> nat option \<times> 'v slots \<times> collection" where
  "addElement = addSlot"

text \<open>The key of a slot is read as a C string; an element of an array has none.\<close>

definition key_equals :: "string \<Rightarrow> string option \<Rightarrow> bool" where
  "key_equals k q = (k = cstr (case q of None \<Rightarrow> [] | Some k' \<Rightarrow> k'))"

partial_function (option) find_slot :: "string \<Rightarrow> 'v slots \<Rightarrow> nat option \<Rightarrow> nat option option" where
  "find_slot k S q = (case q of None \<Rightarrow> Some None
     | Some a \<Rightarrow> if key_equals k (s_key (s_mem S a)) then Some (Some a) else find_slot k S (slot_next S a))"

definition getSlot_key :: "string \<Rightarrow> 'v slots \<Rightarrow> collection \<Rightarrow> nat option option" where
  "getSlot_key k S c = find_slot k S (c_head c)"

definition getSlot_index :: "nat \<Rightarrow> 'v slots \<Rightarrow> collection \<Rightarrow> nat option" where
  "getSlot_index i S c = (case c_head c of None \<Rightarrow> None | Some a \<Rightarrow> slot_skip i S a)"

partial_function (option) previous_slot :: "nat \<Rightarrow> 'v slots \<Rightarrow> nat option \<Rightarrow> nat option option" where
  "previous_slot t S q = (case q of None \<Rightarrow> Some None
     | Some a \<Rightarrow> if slot_next S a = Some t then Some (Some a) else previous_slot t S (slot_next S a))"

definition getPreviousSlot :: "nat \<Rightarrow> 'v slots \<Rightarrow> collection \<Rightarrow> nat option option" where
  "getPreviousSlot t S c = previous_slot t S (c_head c)"

definition removeSlot :: "nat option \<Rightarrow> 'v slots \<Rightarrow> collection \<Rightarrow> ('v slots \<times> collection) option" where
  "removeSlot q S c = (case q of None \<Rightarrow> Some (S, c)
     | Some a \<Rightarrow> (case getPreviousSlot a S c of None \<Rightarrow> None
       | Some prev \<Rightarrow>
           let nxt = slot_next S a;
               (S, c) = (case prev of Some b \<Rightarrow> (setNext nxt b S, c) | None \<Rightarrow> (S, c\<lparr>c_head := nxt\<rparr>))
           in Some (S, if nxt = None then c\<lparr>c_tail := prev\<rparr> else c)))"

definition addMember ::
  "string \<Rightarrow> key_policy \<Rightarrow> 'v slots \<Rightarrow> collection \<Rightarrow> (nat option \<times> 'v slots \<times> collection) option" where
  "addMember k pol S c = (case addSlot S c of (q, S, c) \<Rightarrow>
     (case slotSetKey k pol q S of (ok, S) \<Rightarrow>
       if \<not> ok then (case removeSlot q S c of None \<Rightarrow> None | Some (S, c) \<Rightarrow> Some (None, S, c))
       else Some (q, S, c)))"

definition containsKey :: "string \<Rightarrow> 'v slots \<Rightarrow> collection \<Rightarrow> bool option" where
  "containsKey k S c = map_option (\<lambda>q. q \<noteq> None) (getSlot_key k S c)"

definition getMember_slot :: "string \<Rightarrow> 'v slots \<Rightarrow> collection \<Rightarrow> 'v option option option" where
  "getMember_slot k S c = map_option (map_option (\<lambda>a. s_data (s_mem S a))) (getSlot_key k S c)"

definition getOrAddMember ::
  "string \<Rightarrow> key_policy \<Rightarrow> 'v slots \<Rightarrow> collection \<Rightarrow> (nat option \<times> 'v slots \<times> collection) option" where
  "getOrAddMember k pol S c = (case getSlot_key k S c of None \<Rightarrow> None
     | Some (Some a) \<Rightarrow> Some (Some a, S, c)
     | Some None \<Rightarrow> addMember k pol S c)"

definition getElement :: "nat \<Rightarrow> 'v slots \<Rightarrow> collection \<Rightarrow> 'v option option" where
  "getElement i S c = map_option (\<lambda>a. s_data (s_mem S a)) (getSlot_index i S c)"

text \<open>The two loops of \<open>getOrAddElement\<close>: forward, and the missing elements.\<close>

fun forward :: "nat \<Rightarrow> 'v slots \<Rightarrow> nat option \<Rightarrow> nat \<times> nat option" where
  "forward i S None = (i, None)"
| "forward 0 S (Some a) = (0, Some a)"
| "forward (Suc i) S (Some a) = forward i S (slot_next S a)"

fun add_slots :: "nat \<Rightarrow> nat option \<Rightarrow> 'v slots \<Rightarrow> collection \<Rightarrow> nat option \<times> 'v slots \<times> collection" where
  "add_slots 0 q S c = (q, S, c)"
| "add_slots (Suc i) q S c = (case addSlot S c of (q, S, c) \<Rightarrow> add_slots i q S c)"

definition getOrAddElement :: "nat \<Rightarrow> 'v slots \<Rightarrow> collection \<Rightarrow> nat option \<times> 'v slots \<times> collection" where
  "getOrAddElement i S c = (case forward i S (c_head c) of
     (i, Some a) \<Rightarrow> add_slots i (Some a) S c
   | (i, None) \<Rightarrow> add_slots (i + 1) None S c)"

definition removeElement :: "nat \<Rightarrow> 'v slots \<Rightarrow> collection \<Rightarrow> ('v slots \<times> collection) option" where
  "removeElement i S c = removeSlot (getSlot_index i S c) S c"

definition removeMember :: "string \<Rightarrow> 'v slots \<Rightarrow> collection \<Rightarrow> ('v slots \<times> collection) option" where
  "removeMember k S c = (case getSlot_key k S c of None \<Rightarrow> None | Some q \<Rightarrow> removeSlot q S c)"

definition collection_size :: "'v slots \<Rightarrow> collection \<Rightarrow> nat option" where
  "collection_size S c = slotSize S (c_head c)"

text \<open>\<open>memoryUsage\<close>, for the memory a value uses by itself.\<close>

definition slot_usage :: "('v option \<Rightarrow> nat) \<Rightarrow> 'v slot \<Rightarrow> nat" where
  "slot_usage f s = SLOT_SIZE + f (s_data s) +
     (if s_owned s then length (cstr (case s_key s of None \<Rightarrow> [] | Some k \<Rightarrow> k)) + 1 else 0)"

partial_function (option) usage_from :: "('v option \<Rightarrow> nat) \<Rightarrow> nat \<Rightarrow> 'v slots \<Rightarrow> nat option \<Rightarrow> nat option" where
  "usage_from f n S q = (case q of None \<Rightarrow> Some n
     | Some a \<Rightarrow> usage_from f (n + slot_usage f (s_mem S a)) S (slot_next S a))"

definition memoryUsage :: "('v option \<Rightarrow> nat) \<Rightarrow> 'v slots \<Rightarrow> collection \<Rightarrow> nat option" where
  "memoryUsage f S c = usage_from f 0 S (c_head c)"

end
