(* ===== verification/JsonSlots_Refine.thy ===== *)
theory JsonSlots_Refine
  imports JsonSlots
begin

text \<open>
  The chains of slots refine lists: what a well-formed chain is, that every operation of a collection keeps it, and
  that it has the effect of the operation on lists that the tree model of the parser and the serializer uses.
\<close>

section \<open>Chains\<close>

fun chain :: "'v slots \<Rightarrow> nat option \<Rightarrow> nat list \<Rightarrow> bool" where
  "chain S q [] = (q = None)"
| "chain S q (a # as) = (q = Some a \<and> chain S (slot_next S a) as)"

definition slot_addr :: "pool \<Rightarrow> nat \<Rightarrow> bool" where
  "slot_addr p a = (p_right p \<le> a \<and> a + SLOT_SIZE \<le> p_end p \<and> SLOT_SIZE dvd p_end p - a)"

text \<open>The pool is no larger than the offsets reach.\<close>

definition pool_limit :: "pool \<Rightarrow> bool" where
  "pool_limit p = (pool_inv p \<and> SLOT_SIZE dvd p_end p - p_right p \<and> p_end p \<le> 2 ^ 31 * SLOT_SIZE)"

definition linked :: "'v slots \<Rightarrow> collection \<Rightarrow> nat list \<Rightarrow> bool" where
  "linked S c as = (pool_limit (s_pool S) \<and> chain S (c_head c) as \<and> distinct as \<and>
     list_all (slot_addr (s_pool S)) as \<and> c_tail c = (if as = [] then None else Some (last as)))"

definition item :: "'v slots \<Rightarrow> nat \<Rightarrow> string option \<times> 'v option" where
  "item S a = (s_key (s_mem S a), s_data (s_mem S a))"

lemma slot_next_cong: "s_next (s_mem T a) = s_next (s_mem S a) \<Longrightarrow> slot_next T a = slot_next S a"
  by (simp add: slot_next_def)

lemma chain_cong:
  "(\<And>a. a \<in> set as \<Longrightarrow> s_next (s_mem T a) = s_next (s_mem S a)) \<Longrightarrow> chain T q as = chain S q as"
  by (induction as arbitrary: q) (simp_all add: slot_next_def)

lemma chain_head: "chain S q as \<Longrightarrow> q = (case as of [] \<Rightarrow> None | a # _ \<Rightarrow> Some a)"
  by (cases as) auto

lemma chain_next:
  "chain S q (as @ b # bs) \<Longrightarrow> slot_next S b = (case bs of [] \<Rightarrow> None | c # _ \<Rightarrow> Some c)"
  by (induction as arbitrary: q) (auto dest: chain_head)

lemma chain_suffix: "chain S q (as @ b # bs) \<Longrightarrow> chain S (slot_next S b) bs"
  by (induction as arbitrary: q) auto

text \<open>A chain whose last slot is linked anew.\<close>

lemma chain_relink:
  assumes "chain S q (as @ t # cs)" and "distinct (as @ [t])"
    and "\<And>a. a \<in> set as \<Longrightarrow> s_next (s_mem T a) = s_next (s_mem S a)" and "chain T (slot_next T t) bs"
  shows "chain T q (as @ t # bs)"
  using assms
proof (induction as arbitrary: q)
  case (Cons a as)
  then have "slot_next T a = slot_next S a" by (intro slot_next_cong) simp
  then show ?case using Cons by simp
qed simp

section \<open>Addresses\<close>

lemma SLOT_SIZE_pos [simp]: "0 < SLOT_SIZE" "SLOT_SIZE \<noteq> 0"
  by (simp_all add: SLOT_SIZE_def)

lemma slot_addr_diff:
  assumes "slot_addr p a" and "slot_addr p b" and "pool_limit p" and "a \<noteq> b"
  obtains k where "int b - int a = k * int SLOT_SIZE" and "k \<noteq> 0" and "- (2 ^ 31) \<le> k" and "k < 2 ^ 31"
proof -
  obtain i where i: "p_end p - a = SLOT_SIZE * i" using assms(1) by (auto simp: slot_addr_def)
  obtain j where j: "p_end p - b = SLOT_SIZE * j" using assms(2) by (auto simp: slot_addr_def)
  have ea: "int (p_end p) = int a + int SLOT_SIZE * int i"
    using i assms(1) by (metis of_nat_add of_nat_mult le_add_diff_inverse slot_addr_def add_leD1)
  have eb: "int (p_end p) = int b + int SLOT_SIZE * int j"
    using j assms(2) by (metis of_nat_add of_nat_mult le_add_diff_inverse slot_addr_def add_leD1)
  have d: "int b - int a = (int i - int j) * int SLOT_SIZE" using ea eb by (simp add: algebra_simps)
  have "SLOT_SIZE * i \<le> 2 ^ 31 * SLOT_SIZE" "SLOT_SIZE * j \<le> 2 ^ 31 * SLOT_SIZE"
    using assms(3) by (simp_all add: pool_limit_def flip: i j) linarith+
  then have "i \<le> 2 ^ 31" "j \<le> 2 ^ 31" by (simp_all add: SLOT_SIZE_def)
  moreover have "0 < i" "0 < j" using i j assms(1,2) by (auto simp: slot_addr_def SLOT_SIZE_def intro: Nat.gr0I)
  moreover have "int i - int j \<noteq> 0" using d assms(4) by auto
  ultimately show thesis using that [OF d] by simp
qed

lemma sint_of_int: "- (2 ^ 31) \<le> k \<Longrightarrow> k < 2 ^ 31 \<Longrightarrow> sint (word_of_int k :: diff) = k"
  by transfer (simp add: signed_take_bit_int_eq_self)

lemma pointer_diff_next:
  assumes "slot_addr p a" and "slot_addr p b" and "pool_limit p" and "a \<noteq> b" and "s_next (s_mem S a) = pointer_diff b a"
  shows "slot_next S a = Some b"
proof -
  obtain k where k: "int b - int a = k * int SLOT_SIZE" "k \<noteq> 0" "- (2 ^ 31) \<le> k" "k < 2 ^ 31"
    by (rule slot_addr_diff [OF assms(1-4)])
  have "pointer_diff b a = word_of_int k" using k(1) by (simp add: pointer_diff_def)
  moreover have s: "sint (word_of_int k :: diff) = k" by (rule sint_of_int [OF k(3,4)])
  moreover have "(word_of_int k :: diff) \<noteq> 0" using s k(2) by (metis signed_0)
  moreover have "int a + k * int SLOT_SIZE = int b" using k(1) by simp
  ultimately show ?thesis using assms(5) by (simp add: slot_next_def)
qed

section \<open>Updates of one slot\<close>

lemma update_slot_simps [simp]:
  "s_pool (update_slot a f S) = s_pool S" "s_mem (update_slot a f S) a = f (s_mem S a)"
  "b \<noteq> a \<Longrightarrow> s_mem (update_slot a f S) b = s_mem S b"
  by (simp_all add: update_slot_def)

lemma setNext_pool [simp]: "s_pool (setNext q a S) = s_pool S" "s_pool (setNextNotNull b a S) = s_pool S"
  "s_pool (slot_clear a S) = s_pool S" "s_pool (setKey k w a S) = s_pool S"
  by (simp_all add: setNext_def setNextNotNull_def slot_clear_def setKey_def)

lemma setNext_item [simp]: "item (setNext q a S) b = item S b" "item (setNextNotNull c a S) b = item S b"
  by (cases "b = a"; simp add: item_def setNext_def setNextNotNull_def)+

lemma setNext_other: "b \<noteq> a \<Longrightarrow> s_next (s_mem (setNext q a S) b) = s_next (s_mem S b)"
  "b \<noteq> a \<Longrightarrow> s_next (s_mem (setNextNotNull c a S) b) = s_next (s_mem S b)"
  by (simp_all add: setNext_def setNextNotNull_def)

lemma slot_clear_other: "b \<noteq> a \<Longrightarrow> s_next (s_mem (slot_clear a S) b) = s_next (s_mem S b)"
  "b \<noteq> a \<Longrightarrow> item (slot_clear a S) b = item S b"
  by (simp_all add: slot_clear_def item_def)

lemma slot_clear_self [simp]: "slot_next (slot_clear a S) a = None" "item (slot_clear a S) a = (None, None)"
  by (simp_all add: slot_clear_def slot_next_def item_def)

lemma setKey_next [simp]: "s_next (s_mem (setKey k w a S) b) = s_next (s_mem S b)"
  by (cases "b = a") (simp_all add: setKey_def)

lemma setKey_item: "b \<noteq> a \<Longrightarrow> item (setKey k w a S) b = item S b"
  "item (setKey k w a S) a = (Some k, snd (item S a))"
  by (simp_all add: setKey_def item_def)

lemma setNext_next:
  assumes "slot_addr p a" and "pool_limit p" and "case q of None \<Rightarrow> True | Some b \<Rightarrow> slot_addr p b \<and> b \<noteq> a"
  shows "slot_next (setNext q a S) a = q"
proof (cases q)
  case (Some b)
  then show ?thesis
    by (intro pointer_diff_next [of p a b, THEN trans]) (use assms Some in \<open>auto simp: setNext_def\<close>)
qed (simp add: setNext_def slot_next_def)

section \<open>Allocation\<close>

lemma alloc_slot_fails:
  assumes "alloc_slot S = (None, T)"
  shows "T = S\<lparr>s_pool := snd (allocVariant (s_pool S))\<rparr>" and "\<not> fst (allocVariant (s_pool S))"
    and "snd (allocVariant (s_pool S)) = markAsOverflowed (s_pool S)"
  using assms by (auto simp: alloc_slot_def allocVariant_def split: if_splits prod.splits)

lemma overflow_irrelevant [simp]:
  "slot_addr (markAsOverflowed p) a = slot_addr p a" "pool_limit (markAsOverflowed p) = pool_limit p"
  by (simp_all add: slot_addr_def pool_limit_def pool_inv_def markAsOverflowed_def)

lemma alloc_slot_works:
  assumes "alloc_slot S = (Some a, T)" and "pool_limit (s_pool S)"
  shows "T = S\<lparr>s_pool := snd (allocVariant (s_pool S))\<rparr>" and "fst (allocVariant (s_pool S))"
    and "pool_limit (s_pool T)" and "slot_addr (s_pool T) a"
    and "slot_addr (s_pool S) b \<Longrightarrow> slot_addr (s_pool T) b \<and> b \<noteq> a"
proof -
  let ?p = "s_pool S"
  have c: "length (p_text ?p) + SLOT_SIZE \<le> p_right ?p" and a: "a = p_right ?p - SLOT_SIZE"
    and T: "T = S\<lparr>s_pool := ?p\<lparr>p_right := a\<rparr>\<rparr>" and al: "allocVariant ?p = (True, ?p\<lparr>p_right := a\<rparr>)"
    using assms(1) by (auto simp: alloc_slot_def allocVariant_def canAlloc_def split: if_splits)
  show "T = S\<lparr>s_pool := snd (allocVariant (s_pool S))\<rparr>" "fst (allocVariant (s_pool S))" using T al by simp_all
  have le: "p_right ?p \<le> p_end ?p" "SLOT_SIZE dvd p_end ?p - p_right ?p"
    using assms(2) by (simp_all add: pool_limit_def pool_inv_def)
  have "p_end ?p - a = (p_end ?p - p_right ?p) + SLOT_SIZE" using c a le(1) by simp
  then have d: "SLOT_SIZE dvd p_end ?p - a" using le(2) by simp
  show "pool_limit (s_pool T)" using assms(2) c a d T by (auto simp: pool_limit_def pool_inv_def)
  show "slot_addr (s_pool T) a" using c a d T le(1) by (simp add: slot_addr_def)
  show "slot_addr (s_pool T) b \<and> b \<noteq> a" if "slot_addr (s_pool S) b"
  proof -
    have "a < p_right ?p" unfolding a using c SLOT_SIZE_pos(1) by linarith
    then show ?thesis using that T by (auto simp: slot_addr_def)
  qed
qed

lemma linked_congs:
  assumes "linked S c as" and "pool_limit (s_pool T)" and "\<And>a. slot_addr (s_pool S) a \<Longrightarrow> slot_addr (s_pool T) a"
    and "\<And>a. a \<in> set as \<Longrightarrow> s_next (s_mem T a) = s_next (s_mem S a)"
  shows "linked T c as"
proof -
  have "chain T (c_head c) as" using assms(1) chain_cong [of as T S "c_head c"] assms(4) by (simp add: linked_def)
  then show ?thesis using assms by (auto simp: linked_def list_all_iff)
qed

lemma addSlot_fails:
  assumes "linked S c as" and "addSlot S c = (None, T, d)"
  shows "linked T d as" and "map (item T) as = map (item S) as" and "s_pool T = snd (allocVariant (s_pool S))"
    and "\<not> fst (allocVariant (s_pool S))" and "d = c"
proof -
  have al: "alloc_slot S = (None, T)" and d: "d = c"
    using assms(2) by (auto simp: addSlot_def split: prod.splits option.splits)
  note f = alloc_slot_fails [OF al]
  show "d = c" by (rule d)
  show "s_pool T = snd (allocVariant (s_pool S))" "\<not> fst (allocVariant (s_pool S))" using f by simp_all
  show "map (item T) as = map (item S) as" using f(1) by (simp add: item_def)
  show "linked T d as" unfolding d
    by (rule linked_congs [OF assms(1)]) (use f assms(1) in \<open>simp_all add: linked_def\<close>)
qed

lemma addSlot_works:
  assumes "linked S c as" and "addSlot S c = (Some a, T, d)"
  shows "linked T d (as @ [a])" and "map (item T) (as @ [a]) = map (item S) as @ [(None, None)]"
    and "s_pool T = snd (allocVariant (s_pool S))" and "fst (allocVariant (s_pool S))" and "slot_addr (s_pool T) a"
proof -
  obtain U where al: "alloc_slot S = (Some a, U)"
    using assms(2) by (cases "alloc_slot S") (auto simp: addSlot_def split: option.splits)
  have lim: "pool_limit (s_pool S)" using assms(1) by (simp add: linked_def)
  note w = alloc_slot_works [OF al lim]
  have new: "a \<notin> set as" using assms(1) w(5) by (auto simp: linked_def list_all_iff)
  have U: "linked U c as" "item U b = item S b" for b
    using w by (auto intro: linked_congs [OF assms(1)] simp: item_def)
  show "fst (allocVariant (s_pool S))" by (rule w(2))
  have addrs: "list_all (slot_addr (s_pool U)) (as @ [a])" using U(1) w(4) by (simp add: linked_def)
  have "linked T d (as @ [a]) \<and> map (item T) (as @ [a]) = map (item S) as @ [(None, None)] \<and> s_pool T = s_pool U"
  proof (cases as rule: rev_cases)
    case Nil
    then have "T = slot_clear a U" "d = c\<lparr>c_head := Some a, c_tail := Some a\<rparr>"
      using assms al by (auto simp: addSlot_def linked_def)
    then show ?thesis using Nil w(3) addrs by (simp add: linked_def)
  next
    case (snoc bs t)
    then have T: "T = slot_clear a (setNextNotNull a t U)" and d: "d = c\<lparr>c_tail := Some a\<rparr>"
      using assms al by (auto simp: addSlot_def linked_def)
    have ne: "a \<noteq> t" using new snoc by simp
    have n: "slot_next T t = Some a"
      by (rule pointer_diff_next [of "s_pool U" t a])
        (use addrs snoc w(3) ne T in \<open>auto simp: slot_clear_def setNextNotNull_def\<close>)
    have "chain T (c_head c) (bs @ t # [a])"
    proof (rule chain_relink)
      show "chain U (c_head c) (bs @ t # [])" "distinct (bs @ [t])" using U(1) snoc by (simp_all add: linked_def)
      show "s_next (s_mem T b) = s_next (s_mem U b)" if "b \<in> set bs" for b
      proof -
        have "b \<noteq> a" "b \<noteq> t" using that U(1) new snoc by (auto simp: linked_def)
        then show ?thesis by (simp add: T slot_clear_other setNext_other)
      qed
      show "chain T (slot_next T t) [a]" using n T by simp
    qed
    moreover have "item T b = item S b" if "b \<in> set as" for b
      using that new U(2) [of b] by (cases "b = a") (auto simp: T slot_clear_other)
    ultimately show ?thesis using U(1) snoc new addrs w(3) T d by (simp add: linked_def)
  qed
  then show "linked T d (as @ [a])" "map (item T) (as @ [a]) = map (item S) as @ [(None, None)]"
    "s_pool T = snd (allocVariant (s_pool S))" "slot_addr (s_pool T) a"
    using w(1,4) by simp_all
qed

section \<open>The loops along a chain\<close>

lemma count_slots_chain: "chain S q as \<Longrightarrow> count_slots n S q = Some (n + length as)"
  by (induction as arbitrary: q n) (simp_all add: count_slots.simps)

lemma usage_from_chain:
  "chain S q as \<Longrightarrow> usage_from f n S q = Some (n + sum_list (map (\<lambda>a. slot_usage f (s_mem S a)) as))"
  by (induction as arbitrary: q n) (simp_all add: usage_from.simps)

definition first_key :: "string \<Rightarrow> (string option \<times> 'v) list \<Rightarrow> nat" where
  "first_key k xs = length (takeWhile (\<lambda>x. \<not> key_equals k (fst x)) xs)"

lemma find_slot_chain:
  "chain S q as \<Longrightarrow> find_slot k S q =
     Some (let i = first_key k (map (item S) as) in if i < length as then Some (as ! i) else None)"
proof (induction as arbitrary: q)
  case (Cons a as)
  then show ?case
    by (cases "key_equals k (s_key (s_mem S a))") (auto simp: find_slot.simps first_key_def item_def Let_def)
qed (simp add: find_slot.simps first_key_def)

lemma slot_skip_chain:
  "chain S (Some a) as \<Longrightarrow> slot_skip i S a = (if i < length as then Some (as ! i) else None)"
proof (induction i arbitrary: a as)
  case 0
  then show ?case by (cases as) auto
next
  case (Suc i)
  then obtain bs where as: "as = a # bs" and c: "chain S (slot_next S a) bs" by (cases as) auto
  show ?case
  proof (cases bs)
    case Nil
    then show ?thesis using as c by simp
  next
    case (Cons b cs)
    then show ?thesis using as c Suc.IH [of b bs] by simp
  qed
qed

lemma getSlot_index_chain:
  "chain S (c_head c) as \<Longrightarrow> getSlot_index i S c = (if i < length as then Some (as ! i) else None)"
proof (cases as)
  case (Cons a bs)
  assume c: "chain S (c_head c) as"
  then have h: "c_head c = Some a" using Cons by simp
  then show ?thesis using slot_skip_chain [of S a as i] c by (simp add: getSlot_index_def)
qed (simp add: getSlot_index_def)

lemma forward_chain:
  "chain S q as \<Longrightarrow> forward i S q = (if i < length as then (0, Some (as ! i)) else (i - length as, None))"
proof (induction i S q arbitrary: as rule: forward.induct)
  case (2 S a)
  then show ?case by (cases as) auto
next
  case (3 i S a)
  then obtain bs where "as = a # bs" and "chain S (slot_next S a) bs" by (cases as) auto
  then show ?case using 3 by simp
qed (auto dest: chain_head split: list.splits)

lemma previous_slot_none: "chain S q bs \<Longrightarrow> a \<notin> set (tl bs) \<Longrightarrow> previous_slot a S q = Some None"
proof (induction bs arbitrary: q)
  case (Cons b bs)
  then have c: "chain S (slot_next S b) bs" and q: "q = Some b" by simp_all
  have "slot_next S b \<noteq> Some a" using chain_head [OF c] Cons.prems(2) by (cases bs) auto
  moreover have "a \<notin> set (tl bs)" using Cons.prems(2) by (cases bs) auto
  ultimately show ?case using Cons.IH [OF c] q by (simp add: previous_slot.simps)
qed (simp add: previous_slot.simps)

lemma previous_slot_chain:
  "chain S q (xs @ a # ys) \<Longrightarrow> distinct (xs @ a # ys) \<Longrightarrow>
     previous_slot a S q = Some (if xs = [] then None else Some (last xs))"
proof (induction xs arbitrary: q)
  case Nil
  then show ?case using previous_slot_none [of S q "a # ys" a] by simp
next
  case (Cons x xs)
  then have c: "chain S (slot_next S x) (xs @ a # ys)" and q: "q = Some x" by simp_all
  show ?case
  proof (cases xs)
    case Nil
    then show ?thesis using c q by (simp add: previous_slot.simps)
  next
    case (Cons z zs)
    then have "slot_next S x \<noteq> Some a" using c Cons.prems by auto
    then show ?thesis using Cons.IH [OF c] Cons.prems q Cons by (simp add: previous_slot.simps)
  qed
qed

section \<open>Removal\<close>

lemma removeSlot_chain:
  assumes l: "linked S c (xs @ a # ys)"
  obtains T d where "removeSlot (Some a) S c = Some (T, d)" and "linked T d (xs @ ys)"
    and "map (item T) (xs @ ys) = map (item S) (xs @ ys)" and "s_pool T = s_pool S"
proof -
  have ch: "chain S (c_head c) (xs @ a # ys)" and dis: "distinct (xs @ a # ys)" and lim: "pool_limit (s_pool S)"
    and adr: "list_all (slot_addr (s_pool S)) (xs @ a # ys)" and tl: "c_tail c = Some (last (a # ys))"
    using l by (auto simp: linked_def)
  have prev: "getPreviousSlot a S c = Some (if xs = [] then None else Some (last xs))"
    using previous_slot_chain [OF ch dis] by (simp add: getPreviousSlot_def)
  have nxt: "slot_next S a = (case ys of [] \<Rightarrow> None | b # _ \<Rightarrow> Some b)" by (rule chain_next [OF ch])
  have suf: "chain S (slot_next S a) ys" by (rule chain_suffix [OF ch])
  show thesis
  proof (cases xs rule: rev_cases)
    case Nil
    let ?d = "if slot_next S a = None then c\<lparr>c_head := slot_next S a, c_tail := None\<rparr> else c\<lparr>c_head := slot_next S a\<rparr>"
    have "removeSlot (Some a) S c = Some (S, ?d)" using prev Nil by (simp add: removeSlot_def Let_def)
    moreover have "linked S ?d (xs @ ys)"
      using l suf nxt Nil tl by (cases ys) (auto simp: linked_def)
    ultimately show thesis using that by simp
  next
    case (snoc zs b)
    let ?T = "setNext (slot_next S a) b S"
    let ?d = "if slot_next S a = None then c\<lparr>c_tail := Some b\<rparr> else c"
    have r: "removeSlot (Some a) S c = Some (?T, ?d)" using prev snoc by (simp add: removeSlot_def Let_def)
    have nb: "slot_next ?T b = slot_next S a"
      by (rule setNext_next [of "s_pool S"]) (use adr snoc lim dis nxt in \<open>auto split: list.splits\<close>)
    have "chain ?T (c_head c) (zs @ b # ys)"
    proof (rule chain_relink)
      show "chain S (c_head c) (zs @ b # a # ys)" using ch snoc by simp
      show "distinct (zs @ [b])" using dis snoc by simp
      show "s_next (s_mem ?T x) = s_next (s_mem S x)" if "x \<in> set zs" for x
        using that dis snoc by (intro setNext_other) auto
      show "chain ?T (slot_next ?T b) ys" unfolding nb
      proof (rule iffD2 [OF chain_cong suf])
        show "s_next (s_mem ?T x) = s_next (s_mem S x)" if "x \<in> set ys" for x
          using that dis snoc by (intro setNext_other) auto
      qed
    qed
    then have "linked ?T ?d (xs @ ys)"
      using l snoc nxt tl by (cases ys) (auto simp: linked_def)
    then show thesis using that r by simp
  qed
qed

section \<open>The lists the collections stand for\<close>

type_synonym 'v items = "(string option \<times> 'v option) list"

definition represents :: "'v slots \<times> collection \<Rightarrow> 'v items \<times> pool \<Rightarrow> bool" where
  "represents st l = (\<exists>as. linked (fst st) (snd st) as \<and> map (item (fst st)) as = fst l \<and> s_pool (fst st) = snd l)"

datatype coll_op =
    AddElement
  | GetOrAddElement nat
  | AddMember string key_policy
  | GetOrAddMember string key_policy
  | RemoveElement nat
  | RemoveMember string

definition coll_step :: "coll_op \<Rightarrow> 'v slots \<times> collection \<Rightarrow> ('v slots \<times> collection) option" where
  "coll_step r st = (case st of (S, c) \<Rightarrow> (case r of
     AddElement \<Rightarrow> Some (snd (addElement S c))
   | GetOrAddElement i \<Rightarrow> Some (snd (getOrAddElement i S c))
   | AddMember k pol \<Rightarrow> map_option snd (addMember k pol S c)
   | GetOrAddMember k pol \<Rightarrow> map_option snd (getOrAddMember k pol S c)
   | RemoveElement i \<Rightarrow> removeElement i S c
   | RemoveMember k \<Rightarrow> removeMember k S c))"

text \<open>The same operations on lists, and on the pool that pays for them.\<close>

definition list_add :: "'v items \<times> pool \<Rightarrow> 'v items \<times> pool" where
  "list_add l = (case allocVariant (snd l) of (ok, p) \<Rightarrow> (if ok then fst l @ [(None, None)] else fst l, p))"

definition list_add_member :: "string \<Rightarrow> key_policy \<Rightarrow> 'v items \<times> pool \<Rightarrow> 'v items \<times> pool" where
  "list_add_member k pol l = (case allocVariant (snd l) of (ok, p) \<Rightarrow>
     if \<not> ok then (fst l, p)
     else (case pol of Link \<Rightarrow> (fst l @ [(Some k, None)], p)
       | Copy \<Rightarrow> (case saveString k p of (saved, p) \<Rightarrow>
           (if saved = None then fst l else fst l @ [(Some k, None)], p))))"

definition list_remove :: "nat \<Rightarrow> 'v items \<times> pool \<Rightarrow> 'v items \<times> pool" where
  "list_remove i l = (take i (fst l) @ drop (Suc i) (fst l), snd l)"

definition list_step :: "coll_op \<Rightarrow> 'v items \<times> pool \<Rightarrow> 'v items \<times> pool" where
  "list_step r l = (case r of
     AddElement \<Rightarrow> list_add l
   | GetOrAddElement i \<Rightarrow> (list_add ^^ (Suc i - length (fst l))) l
   | AddMember k pol \<Rightarrow> list_add_member k pol l
   | GetOrAddMember k pol \<Rightarrow> if first_key k (fst l) < length (fst l) then l else list_add_member k pol l
   | RemoveElement i \<Rightarrow> list_remove i l
   | RemoveMember k \<Rightarrow> list_remove (first_key k (fst l)) l)"

section \<open>Refinement\<close>

text \<open>
  An implementation refines a list when each of its operations has the effect of the list's; then every
  sequence of operations has.
\<close>

fun run_steps :: "('r \<Rightarrow> 's \<Rightarrow> 's option) \<Rightarrow> 'r list \<Rightarrow> 's \<Rightarrow> 's option" where
  "run_steps f [] s = Some s"
| "run_steps f (r # rs) s = (case f r s of None \<Rightarrow> None | Some s \<Rightarrow> run_steps f rs s)"

locale refinement =
  fixes rep :: "'s \<Rightarrow> 'l \<Rightarrow> bool" and step :: "'r \<Rightarrow> 's \<Rightarrow> 's option" and spec :: "'r \<Rightarrow> 'l \<Rightarrow> 'l"
  assumes simulates: "rep s l \<Longrightarrow> \<exists>s'. step r s = Some s' \<and> rep s' (spec r l)"
begin

lemma run_simulates: "rep s l \<Longrightarrow> \<exists>s'. run_steps step rs s = Some s' \<and> rep s' (fold spec rs l)"
proof (induction rs arbitrary: s l)
  case (Cons r rs)
  then obtain t where "step r s = Some t" "rep t (spec r l)" using simulates by blast
  then show ?case using Cons.IH by simp
qed simp

lemma run_returns: "rep s l \<Longrightarrow> run_steps step rs s \<noteq> None"
  using run_simulates by (metis option.distinct(1))

end

lemma add_represents:
  assumes "represents (S, c) l"
  shows "represents (snd (addSlot S c)) (list_add l)"
proof -
  obtain as where l: "linked S c as" "map (item S) as = fst l" "s_pool S = snd l"
    using assms by (auto simp: represents_def)
  obtain q T d where a: "addSlot S c = (q, T, d)" by (metis prod_cases3)
  show ?thesis
  proof (cases q)
    case None
    note f = addSlot_fails [OF l(1) a [unfolded None]]
    have "list_add l = (fst l, s_pool T)" using f(3,4) l(3) by (simp add: list_add_def case_prod_unfold)
    then show ?thesis using f(1,2) a l(2) by (auto simp: represents_def)
  next
    case (Some x)
    note f = addSlot_works [OF l(1) a [unfolded Some]]
    have "list_add l = (fst l @ [(None, None)], s_pool T)" using f(3,4) l(3) by (simp add: list_add_def case_prod_unfold)
    moreover have "linked T d (as @ [x]) \<and> map (item T) (as @ [x]) = fst l @ [(None, None)]"
      using f(1,2) l(2) by simp
    ultimately show ?thesis using a by (auto simp: represents_def)
  qed
qed

lemma add_slots_represents:
  "represents (S, c) l \<Longrightarrow> represents (snd (add_slots n q S c)) ((list_add ^^ n) l)"
proof (induction n arbitrary: q S c l)
  case (Suc n)
  obtain q' T d where a: "addSlot S c = (q', T, d)" by (metis prod_cases3)
  have "represents (T, d) (list_add l)" using add_represents [OF Suc.prems] a by simp
  from Suc.IH [OF this, of q'] a show ?case by (simp only: funpow_Suc_right o_apply add_slots.simps prod.case)
qed simp

lemma saveString_pool:
  assumes "saveString k p = (r, p')" and "pool_limit p"
  shows "pool_limit p'" and "slot_addr p' a = slot_addr p a"
  using assms by (auto simp: saveString_def pool_limit_def pool_inv_def slot_addr_def canAlloc_def markAsOverflowed_def
      split: option.splits if_splits)

lemma removeSlot_represents:
  assumes "linked S c as" and "i < length as"
  shows "\<exists>T d. removeSlot (Some (as ! i)) S c = Some (T, d) \<and> linked T d (take i as @ drop (Suc i) as) \<and>
    map (item T) (take i as @ drop (Suc i) as) = take i (map (item S) as) @ drop (Suc i) (map (item S) as) \<and>
    s_pool T = s_pool S"
proof -
  have "linked S c (take i as @ as ! i # drop (Suc i) as)"
    using assms by (simp add: id_take_nth_drop [symmetric])
  from removeSlot_chain [OF this] obtain T d where "removeSlot (Some (as ! i)) S c = Some (T, d)"
    "linked T d (take i as @ drop (Suc i) as)"
    "map (item T) (take i as @ drop (Suc i) as) = map (item S) (take i as @ drop (Suc i) as)" "s_pool T = s_pool S" .
  then show ?thesis by (simp add: take_map drop_map)
qed

lemma addMember_represents:
  assumes "represents (S, c) l"
  shows "\<exists>q st. addMember k pol S c = Some (q, st) \<and> represents st (list_add_member k pol l)"
proof -
  obtain as where l: "linked S c as" "map (item S) as = fst l" "s_pool S = snd l"
    using assms by (auto simp: represents_def)
  obtain q T d where a: "addSlot S c = (q, T, d)" by (metis prod_cases3)
  show ?thesis
  proof (cases q)
    case None
    note f = addSlot_fails [OF l(1) a [unfolded None]]
    have "list_add_member k pol l = (fst l, s_pool T)"
      using f(3,4) l(3) by (simp add: list_add_member_def case_prod_unfold)
    then show ?thesis using f(1,2) a l(2) None
      by (auto simp: represents_def addMember_def slotSetKey_def removeSlot_def)
  next
    case (Some x)
    note f = addSlot_works [OF l(1) a [unfolded Some]]
    have alloc: "allocVariant (snd l) = (True, s_pool T)" using f(3,4) l(3) by (simp add: prod_eq_iff)
    have dis: "x \<notin> set as" and lim: "pool_limit (s_pool T)" using f(1) by (auto simp: linked_def)
    have new: "item T x = (None, None)" and old: "map (item T) as = fst l" using f(2) l(2) by simp_all
    have set_key: "linked (setKey k w x U) d (as @ [x]) \<and> map (item (setKey k w x U)) (as @ [x]) = fst l @ [(Some k, None)]"
      if U: "s_mem U = s_mem T" "linked U d (as @ [x])" for w U
    proof
      show "linked (setKey k w x U) d (as @ [x])"
        by (rule linked_congs [OF U(2)]) (use U(2) in \<open>simp_all add: linked_def\<close>)
      have "item (setKey k w x U) b = item T b" if "b \<in> set as" for b
      proof -
        have "b \<noteq> x" using that dis by auto
        then have "item (setKey k w x U) b = item U b" by (rule setKey_item)
        then show ?thesis using U(1) by (simp add: item_def)
      qed
      then have "map (item (setKey k w x U)) as = fst l" using old by (metis map_cong)
      moreover have "item U x = item T x" using U(1) by (simp add: item_def)
      ultimately show "map (item (setKey k w x U)) (as @ [x]) = fst l @ [(Some k, None)]"
        using new by (simp add: setKey_item(2))
    qed
    show ?thesis
    proof (cases pol)
      case Link
      then have "list_add_member k pol l = (fst l @ [(Some k, None)], s_pool T)"
        using alloc by (simp add: list_add_member_def)
      moreover have "addMember k pol S c = Some (Some x, setKey k False x T, d)"
        using a Some Link by (simp add: addMember_def slotSetKey_def)
      moreover have "represents (setKey k False x T, d) (fst l @ [(Some k, None)], s_pool T)"
        using set_key [of T False] f(1) by (auto simp: represents_def)
      ultimately show ?thesis by auto
    next
      case Copy
      obtain r p where s: "saveString k (s_pool T) = (r, p)" by (cases "saveString k (s_pool T)")
      let ?U = "T\<lparr>s_pool := p\<rparr>"
      have U: "linked ?U d (as @ [x])"
        by (rule linked_congs [OF f(1)]) (use saveString_pool [OF s lim] in simp_all)
      show ?thesis
      proof (cases r)
        case None
        then have "list_add_member k pol l = (fst l, p)" using alloc s Copy by (simp add: list_add_member_def)
        moreover obtain V e where "removeSlot (Some x) ?U d = Some (V, e)" "linked V e as"
          "map (item V) as = map (item ?U) as" "s_pool V = p"
          using removeSlot_chain [of ?U d as x "[]"] U by auto
        moreover have "item ?U = item T" by (rule ext) (simp add: item_def)
        then have "map (item ?U) as = fst l" using old by simp
        ultimately show ?thesis using a Some Copy s None by (auto simp: represents_def addMember_def slotSetKey_def)
      next
        case (Some i)
        then have "list_add_member k pol l = (fst l @ [(Some k, None)], p)"
          using alloc s Copy by (simp add: list_add_member_def)
        moreover have "addMember k pol S c = Some (Some x, setKey k True x ?U, d)"
          using a \<open>q = Some x\<close> Copy s Some by (simp add: addMember_def slotSetKey_def)
        moreover have "represents (setKey k True x ?U, d) (fst l @ [(Some k, None)], p)"
          using set_key [of ?U True] U by (auto simp: represents_def)
        ultimately show ?thesis by auto
      qed
    qed
  qed
qed

lemma remove_at_represents:
  assumes "represents (S, c) l" and "i \<le> length (fst l)" and
    "q = (if i < length (fst l) then Some (as ! i) else None)" and "linked S c as" and "map (item S) as = fst l"
  shows "\<exists>st. removeSlot q S c = Some st \<and> represents st (list_remove i l)"
proof (cases "i < length as")
  case True
  have len: "length (fst l) = length as" using assms(5) by (metis length_map)
  obtain T d where r: "removeSlot (Some (as ! i)) S c = Some (T, d)" "linked T d (take i as @ drop (Suc i) as)"
    "map (item T) (take i as @ drop (Suc i) as) = take i (fst l) @ drop (Suc i) (fst l)" "s_pool T = s_pool S"
    using removeSlot_represents [OF assms(4) True] assms(5) by metis
  have "s_pool S = snd l" using assms(1) by (auto simp: represents_def)
  then have "represents (T, d) (list_remove i l)" using r by (auto simp: represents_def list_remove_def)
  then show ?thesis using r(1) assms(3) True len by auto
next
  case False
  have len: "length (fst l) = length as" using assms(5) by (metis length_map)
  then have "list_remove i l = l" using False by (simp add: list_remove_def prod_eq_iff)
  then show ?thesis using assms(1,3) False len by (simp add: removeSlot_def)
qed

lemma coll_step_represents:
  assumes "represents st l"
  shows "\<exists>st'. coll_step r st = Some st' \<and> represents st' (list_step r l)"
proof -
  obtain S c where st: "st = (S, c)" by (cases st)
  obtain as where l: "linked S c as" "map (item S) as = fst l" "s_pool S = snd l"
    using assms st by (auto simp: represents_def)
  have ch: "chain S (c_head c) as" using l(1) by (simp add: linked_def)
  have len: "length (fst l) = length as" using l(2) by (metis length_map)
  have key: "getSlot_key k S c = Some (if first_key k (fst l) < length (fst l) then Some (as ! first_key k (fst l)) else None)" for k
    using find_slot_chain [OF ch, of k] l(2) len by (simp add: getSlot_key_def Let_def)
  have kl: "first_key k (fst l) \<le> length (fst l)" for k by (simp add: first_key_def length_takeWhile_le)
  show ?thesis
  proof (cases r)
    case AddElement
    then show ?thesis using add_represents assms st by (simp add: coll_step_def list_step_def addElement_def)
  next
    case (GetOrAddElement i)
    have f: "forward i S (c_head c) = (if i < length as then (0, Some (as ! i)) else (i - length as, None))"
      by (rule forward_chain [OF ch])
    show ?thesis
    proof (cases "i < length as")
      case True
      then show ?thesis using GetOrAddElement f assms st len by (simp add: coll_step_def list_step_def getOrAddElement_def)
    next
      case False
      then have "Suc i - length (fst l) = (i - length as) + 1" using len by simp
      then show ?thesis
        using GetOrAddElement f assms st add_slots_represents [of S c l "i - length as + 1" None] False
        by (simp add: coll_step_def list_step_def getOrAddElement_def del: funpow.simps add_slots.simps)
    qed
  next
    case (AddMember k pol)
    then show ?thesis using addMember_represents [of S c l k pol] assms st by (auto simp: coll_step_def list_step_def)
  next
    case (GetOrAddMember k pol)
    then show ?thesis using addMember_represents [of S c l k pol] assms st key [of k]
      by (auto simp: coll_step_def list_step_def getOrAddMember_def)
  next
    case (RemoveElement i)
    show ?thesis
    proof (cases "i < length as")
      case True
      then show ?thesis
        using remove_at_represents [OF _ _ _ l(1,2), of i "Some (as ! i)"] RemoveElement assms st len getSlot_index_chain [OF ch, of i]
        by (simp add: coll_step_def list_step_def removeElement_def)
    next
      case False
      then have "list_remove i l = l" using len by (simp add: list_remove_def prod_eq_iff)
      then show ?thesis using RemoveElement assms st False getSlot_index_chain [OF ch, of i]
        by (simp add: coll_step_def list_step_def removeElement_def removeSlot_def)
    qed
  next
    case (RemoveMember k)
    then show ?thesis
      using remove_at_represents [OF _ kl [of k] refl l(1,2)] assms st key [of k]
      by (simp add: coll_step_def list_step_def removeMember_def)
  qed
qed

interpretation collections: refinement represents coll_step list_step
  by unfold_locales (rule coll_step_represents)


text \<open>C31. Arrays and objects as chains of slots do what lists do: whatever sequence of insertions, removals and lookups
  with insertion runs on a well-formed chain, it ends, the chain stays well-formed and holds the list that
  the same sequence makes of the list it held, with the same memory taken from the pool.\<close>
theorem collections_refine_lists:
  assumes "represents st l"
  shows "\<exists>st'. run_steps coll_step rs st = Some st' \<and> represents st' (fold list_step rs l)"
  by (rule collections.run_simulates [OF assms])

text \<open>What the readers of a collection return is what the list holds: the element at an index, the first member
  with a key, whether there is one, and the number of elements; all of them end.\<close>
theorem collection_lookups:
  assumes "represents (S, c) l"
  shows "getElement i S c = (if i < length (fst l) then Some (snd (fst l ! i)) else None) \<and>
    getMember_slot k S c = Some (map_option snd (find (\<lambda>x. key_equals k (fst x)) (fst l))) \<and>
    containsKey k S c = Some (\<exists>x \<in> set (fst l). key_equals k (fst x)) \<and>
    collection_size S c = Some (length (fst l))"
proof -
  obtain as where l: "linked S c as" "map (item S) as = fst l"
    using assms by (auto simp: represents_def)
  have ch: "chain S (c_head c) as" using l(1) by (simp add: linked_def)
  have data: "s_data (s_mem S a) = snd (item S a)" for a by (simp add: item_def)
  have "find_slot k S q = Some (find (\<lambda>a. key_equals k (fst (item S a))) bs)" if "chain S q bs" for q bs
    using that by (induction bs arbitrary: q) (simp_all add: find_slot.simps item_def)
  from this [OF ch] have key: "getSlot_key k S c = Some (find (\<lambda>a. key_equals k (fst (item S a))) as)"
    by (simp add: getSlot_key_def)
  have "map_option (\<lambda>a. s_data (s_mem S a)) (find (\<lambda>a. key_equals k (fst (item S a))) as) =
      map_option snd (find (\<lambda>x. key_equals k (fst x)) (map (item S) as))"
    by (induction as) (simp_all add: data)
  then have "getMember_slot k S c = Some (map_option snd (find (\<lambda>x. key_equals k (fst x)) (fst l)))"
    unfolding getMember_slot_def key l(2) [symmetric] by simp
  moreover have "(find (\<lambda>a. key_equals k (fst (item S a))) as \<noteq> None) = (\<exists>x \<in> set (map (item S) as). key_equals k (fst x))"
    by (induction as) auto
  then have "containsKey k S c = Some (\<exists>x \<in> set (fst l). key_equals k (fst x))"
    unfolding containsKey_def key l(2) [symmetric] by simp
  moreover have "getElement i S c = (if i < length (fst l) then Some (snd (fst l ! i)) else None)"
    unfolding getElement_def getSlot_index_chain [OF ch] l(2) [symmetric] by (simp add: data)
  moreover have "collection_size S c = Some (length (fst l))"
    unfolding collection_size_def slotSize_def count_slots_chain [OF ch] l(2) [symmetric] by simp
  ultimately show ?thesis by blast
qed

section \<open>Witnesses\<close>

definition demo_slots :: "nat slots" where
  "demo_slots = \<lparr>s_pool = new_pool 128, s_mem = (\<lambda>_. \<lparr>s_data = None, s_owned = False, s_next = 0, s_key = None\<rparr>)\<rparr>"

lemma demo_represents: "represents (demo_slots, clear_collection) ([], new_pool 128)"
proof -
  have "linked demo_slots clear_collection []"
    by (simp add: linked_def demo_slots_def clear_collection_def new_pool_def pool_limit_def pool_inv_def SLOT_SIZE_def)
  then show ?thesis by (auto simp: represents_def demo_slots_def)
qed

lemma collections_refine_lists_witness:
  "\<exists>st p. run_steps coll_step [AddMember ''a'' Link, AddMember ''b'' Copy, RemoveMember ''a'', AddElement] (demo_slots, clear_collection) =
     Some st \<and> represents st ([(Some ''b'', None), (None, None)], p)"
proof -
  let ?rs = "[AddMember ''a'' Link, AddMember ''b'' Copy, RemoveMember ''a'', AddElement]"
  have "fst (fold list_step ?rs ([] :: nat items, new_pool 128)) = [(Some ''b'', None), (None, None)]"
    by (simp add: list_step_def list_add_member_def list_add_def list_remove_def allocVariant_def canAlloc_def new_pool_def
        SLOT_SIZE_def saveString_def findString.simps first_key_def key_equals_def cstr_def)
  then show ?thesis using collections_refine_lists [OF demo_represents, of ?rs] by (metis prod.collapse)
qed

lemma collection_lookups_witness: "getElement 0 demo_slots clear_collection = None \<and>
    containsKey ''a'' demo_slots clear_collection = Some False"
  using collection_lookups [OF demo_represents, of 0 "''a''"] by simp

end
