(* ===== verification/JsonMsgPack.thy ===== *)
theory JsonMsgPack
  imports JsonParse
begin

text \<open>
  The MessagePack half of the JSON library: \<open>MsgPackSerializer.hpp\<close> and \<open>MsgPackDeserializer.hpp\<close>, over the same
  variants, filters, string storages and pool. A byte is a character. \<open>None\<close> as the result of the
  deserializer is a call through a null pointer.
\<close>

section \<open>Floats\<close>

text \<open>IEEE numbers are a parameter, as for the JSON text.\<close>

record 'f float_bits =
  is_single :: "'f \<Rightarrow> bool"
  integral :: "'f \<Rightarrow> u64 option"
  single_bits :: "'f \<Rightarrow> u32"
  double_bits :: "'f \<Rightarrow> u64"
  of_single :: "u32 \<Rightarrow> 'f"
  of_double :: "u64 \<Rightarrow> 'f"

section \<open>The serializer\<close>

text \<open>\<open>writeInteger\<close> with \<open>fixEndianess\<close>: the low \<open>k\<close> bytes, the highest first.\<close>

fun big_endian :: "nat \<Rightarrow> nat \<Rightarrow> string" where
  "big_endian 0 n = []"
| "big_endian (Suc k) n = big_endian k (n div 256) @ [char_of n]"

definition writeByte :: "nat \<Rightarrow> string" where
  "writeByte n = [char_of n]"

definition pack_unsigned :: "u64 \<Rightarrow> string" where
  "pack_unsigned v = (let n = unat v in
     if n \<le> 0x7F then big_endian 1 n
     else if n \<le> 0xFF then writeByte 0xCC @ big_endian 1 n
     else if n \<le> 0xFFFF then writeByte 0xCD @ big_endian 2 n
     else if n \<le> 0xFFFFFFFF then writeByte 0xCE @ big_endian 4 n
     else writeByte 0xCF @ big_endian 8 n)"

definition pack_signed :: "u64 \<Rightarrow> string" where
  "pack_signed v = (let n = unat v in
     if sint v > 0 then pack_unsigned v
     else if sint v \<ge> - 0x20 then big_endian 1 n
     else if sint v \<ge> - 0x80 then writeByte 0xD0 @ big_endian 1 n
     else if sint v \<ge> - 0x8000 then writeByte 0xD1 @ big_endian 2 n
     else if sint v \<ge> - 0x80000000 then writeByte 0xD2 @ big_endian 4 n
     else writeByte 0xD3 @ big_endian 8 n)"

text \<open>Both versions of \<open>visitFloat\<close>.\<close>

definition pack_float :: "'f float_bits \<Rightarrow> 'f \<Rightarrow> string" where
  "pack_float X f =
    (if is_single X f then (case integral X f of Some n \<Rightarrow> pack_signed n
       | None \<Rightarrow> writeByte 0xCA @ big_endian 4 (unat (single_bits X f)))
     else writeByte 0xCB @ big_endian 8 (unat (double_bits X f)))"

definition pack_string :: "string \<Rightarrow> string" where
  "pack_string s = (let n = length s in
     (if n < 0x20 then writeByte (0xA0 + n)
      else if n < 0x100 then writeByte 0xD9 @ big_endian 1 n
      else if n < 0x10000 then writeByte 0xDA @ big_endian 2 n
      else writeByte 0xDB @ big_endian 4 n) @ s)"

definition pack_array_size :: "nat \<Rightarrow> string" where
  "pack_array_size n =
    (if n < 0x10 then writeByte (0x90 + n)
     else if n < 0x10000 then writeByte 0xDC @ big_endian 2 n
     else writeByte 0xDD @ big_endian 4 n)"

definition pack_object_size :: "nat \<Rightarrow> string" where
  "pack_object_size n =
    (if n < 0x10 then writeByte (0x80 + n)
     else if n < 0x10000 then writeByte 0xDE @ big_endian 2 n
     else writeByte 0xDF @ big_endian 4 n)"

fun serializeMsgPack :: "'f float_bits \<Rightarrow> 'f jvariant \<Rightarrow> string" where
  "serializeMsgPack X JNull = writeByte 0xC0"
| "serializeMsgPack X (JBool b) = writeByte (if b then 0xC3 else 0xC2)"
| "serializeMsgPack X (JUnsigned n) = pack_unsigned n"
| "serializeMsgPack X (JSigned n) = pack_signed n"
| "serializeMsgPack X (JFloat f) = pack_float X f"
| "serializeMsgPack X (JString s) = pack_string s"
| "serializeMsgPack X (JRaw s) = s"
| "serializeMsgPack X (JArray vs) = pack_array_size (length vs) @ concat (map (serializeMsgPack X) vs)"
| "serializeMsgPack X (JObject ms) =
     pack_object_size (length ms) @ concat (map (\<lambda>(k, v). pack_string (cstr k) @ serializeMsgPack X v) ms)"

definition measureMsgPack :: "'f float_bits \<Rightarrow> 'f jvariant \<Rightarrow> nat" where
  "measureMsgPack X v = length (serializeMsgPack X v)"

section \<open>Reading bytes\<close>

definition readByte :: "'m jstate \<Rightarrow> code \<times> nat \<times> 'm jstate" where
  "readByte s = (case j_in s of [] \<Rightarrow> (IncompleteInput, 0, s) | c # cs \<Rightarrow> (Ok, of_char c, s\<lparr>j_in := cs\<rparr>))"

definition readBytes :: "nat \<Rightarrow> 'm jstate \<Rightarrow> code \<times> string \<times> 'm jstate" where
  "readBytes n s = (let bs = take n (j_in s) in
     (if length bs = n then Ok else IncompleteInput, bs, s\<lparr>j_in := drop n (j_in s)\<rparr>))"

fun skipBytes :: "nat \<Rightarrow> 'm jstate \<Rightarrow> code \<times> 'm jstate" where
  "skipBytes 0 s = (Ok, s)"
| "skipBytes (Suc n) s = (case j_in s of [] \<Rightarrow> (IncompleteInput, s) | c # cs \<Rightarrow> skipBytes n (s\<lparr>j_in := cs\<rparr>))"

definition big_endian_value :: "string \<Rightarrow> nat" where
  "big_endian_value bs = foldl (\<lambda>n c. n * 256 + of_char c) 0 bs"

definition readInteger :: "nat \<Rightarrow> 'm jstate \<Rightarrow> code \<times> nat \<times> 'm jstate" where
  "readInteger k s = (case readBytes k s of (err, bs, s) \<Rightarrow> (err, big_endian_value bs, s))"

text \<open>The value of \<open>k\<close> bytes as a signed integer of that width, extended to 64 bits.\<close>

definition signed_value :: "nat \<Rightarrow> nat \<Rightarrow> u64" where
  "signed_value k n = word_of_int (if n < 2 ^ (8 * k - 1) then int n else int n - 2 ^ (8 * k))"

definition read_number ::
    "nat \<Rightarrow> (nat \<Rightarrow> 'f jvariant) \<Rightarrow> 'f jvariant \<Rightarrow> 'm jstate \<Rightarrow> code \<times> 'f jvariant \<times> 'm jstate" where
  "read_number k f v s = (case readInteger k s of (err, n, s) \<Rightarrow> if err \<noteq> Ok then (err, v, s) else (Ok, f n, s))"

definition skipString :: "nat \<Rightarrow> 'm jstate \<Rightarrow> code \<times> 'm jstate" where
  "skipString k s = (case readInteger k s of (err, n, s) \<Rightarrow> if err \<noteq> Ok then (err, s) else skipBytes n s)"

text \<open>\<open>size + 1U\<close> is computed in 32 bits.\<close>

definition skipExt :: "nat \<Rightarrow> 'm jstate \<Rightarrow> code \<times> 'm jstate" where
  "skipExt k s = (case readInteger k s of (err, n, s) \<Rightarrow>
     if err \<noteq> Ok then (err, s) else skipBytes (unat (word_of_nat n + 1 :: u32)) s)"

fun readChars :: "'m mem_ops \<Rightarrow> nat \<Rightarrow> 'm jstate \<Rightarrow> code \<times> 'm jstate" where
  "readChars M 0 s = (Ok, s)"
| "readChars M (Suc n) s = (case readBytes 1 s of (err, bs, s) \<Rightarrow>
     if err \<noteq> Ok then (err, s) else readChars M n (appendc M (hd bs) s))"

definition readString :: "'m mem_ops \<Rightarrow> nat \<Rightarrow> 'm jstate \<Rightarrow> code \<times> 'm jstate" where
  "readString M n s = (case readChars M n (start_string M s) of (err, s) \<Rightarrow>
     if err \<noteq> Ok then (err, s) else (if isValid M (j_mem s) then Ok else NoMemory, s))"

definition readString_sized :: "'m mem_ops \<Rightarrow> nat \<Rightarrow> 'm jstate \<Rightarrow> code \<times> 'm jstate" where
  "readString_sized M k s = (case readInteger k s of (err, n, s) \<Rightarrow> if err \<noteq> Ok then (err, s) else readString M n s)"

text \<open>The two ways to a string value: the length is in the code, or behind it.\<close>

definition store_string ::
    "'m mem_ops \<Rightarrow> 'f jvariant \<Rightarrow> code \<times> 'm jstate \<Rightarrow> code \<times> 'f jvariant \<times> 'm jstate" where
  "store_string M v r = (case r of (err, s) \<Rightarrow> if err \<noteq> Ok then (err, v, s)
     else case save_string M s of (t, s) \<Rightarrow> (Ok, JString t, s))"

definition readKey :: "'m mem_ops \<Rightarrow> 'm jstate \<Rightarrow> code \<times> 'm jstate" where
  "readKey M s = (case readByte s of (err, code, s) \<Rightarrow> if err \<noteq> Ok then (err, s)
     else if and code 0xE0 = 0xA0 then readString M (and code 0x1F) s
     else if code = 0xD9 then readString_sized M 1 s
     else if code = 0xDA then readString_sized M 2 s
     else if code = 0xDB then readString_sized M 4 s
     else (InvalidInput, s))"

section \<open>The deserializer\<close>

text \<open>
  \<open>parse\<close> reads a nested value. The loops over elements and members count down the number that was read. \<open>here\<close>
  says whether the collection pointer is not null; where the code goes on with a null pointer the result is \<open>None\<close>.
\<close>

fun readElements ::
    "'m mem_ops \<Rightarrow> ('f jvariant \<Rightarrow> 'm jstate \<Rightarrow> (code \<times> 'f jvariant \<times> 'm jstate) option) \<Rightarrow> bool \<Rightarrow> bool \<Rightarrow> nat \<Rightarrow>
     'f jvariant list \<Rightarrow> 'm jstate \<Rightarrow> (code \<times> 'f jvariant list \<times> 'm jstate) option" where
  "readElements M parse here allowed 0 vs s = Some (Ok, vs, s)"
| "readElements M parse here allowed (Suc n) vs s =
    (if allowed then
       if \<not> here then None
       else case addSlot M (j_mem s) of (ok, m) \<Rightarrow>
         if \<not> ok then Some (NoMemory, vs, s\<lparr>j_mem := m\<rparr>)
         else case parse JNull (s\<lparr>j_mem := m\<rparr>) of None \<Rightarrow> None | Some (err, v, s) \<Rightarrow>
           if err \<noteq> Ok then Some (err, vs @ [v], s)
           else readElements M parse here allowed n (vs @ [v]) s
     else case parse JNull s of None \<Rightarrow> None | Some (err, v, s) \<Rightarrow>
       if err \<noteq> Ok then Some (err, vs, s) else readElements M parse here allowed n vs s)"

definition readArray ::
    "'m mem_ops \<Rightarrow> 'f float_ops \<Rightarrow> bool \<Rightarrow>
     ('f jfilter \<Rightarrow> 'f jvariant \<Rightarrow> 'm jstate \<Rightarrow> (code \<times> 'f jvariant \<times> 'm jstate) option) \<Rightarrow>
     'f jfilter \<Rightarrow> nat \<Rightarrow> 'f jvariant \<Rightarrow> 'm jstate \<Rightarrow> (code \<times> 'f jvariant \<times> 'm jstate) option" where
  "readArray M F reached parse flt n v s =
    (if reached then Some (TooDeep, v, s)
     else let here = allowArray F flt; member = elementFilter F flt in
       map_option (\<lambda>(err, vs, s). (err, if here then JArray vs else v, s))
         (readElements M (parse member) here (allow F member) n [] s))"

fun readMembers ::
    "'m mem_ops \<Rightarrow> 'f float_ops \<Rightarrow>
     ('f jfilter \<Rightarrow> 'f jvariant \<Rightarrow> 'm jstate \<Rightarrow> (code \<times> 'f jvariant \<times> 'm jstate) option) \<Rightarrow> 'f jfilter \<Rightarrow> bool \<Rightarrow> nat \<Rightarrow>
     (string \<times> 'f jvariant) list \<Rightarrow> 'm jstate \<Rightarrow> (code \<times> (string \<times> 'f jvariant) list \<times> 'm jstate) option" where
  "readMembers M F parse flt here 0 ms s = Some (Ok, ms, s)"
| "readMembers M F parse flt here (Suc n) ms s =
    (case readKey M s of (err, s) \<Rightarrow> if err \<noteq> Ok then Some (err, ms, s)
     else let member = memberFilter F (cstr (str M (j_mem s))) flt in
       if allow F member then
         if \<not> here then None
         else case save_string M s of (t, s) \<Rightarrow>
           (case addSlot M (j_mem s) of (ok, m) \<Rightarrow>
             if \<not> ok then Some (NoMemory, ms, s\<lparr>j_mem := m\<rparr>)
             else case parse member JNull (s\<lparr>j_mem := m\<rparr>) of None \<Rightarrow> None | Some (err, v, s) \<Rightarrow>
               if err \<noteq> Ok then Some (err, ms @ [(cstr t, v)], s)
               else readMembers M F parse flt here n (ms @ [(cstr t, v)]) s)
       else case parse member JNull s of None \<Rightarrow> None | Some (err, v, s) \<Rightarrow>
         if err \<noteq> Ok then Some (err, ms, s) else readMembers M F parse flt here n ms s)"

definition readObject ::
    "'m mem_ops \<Rightarrow> 'f float_ops \<Rightarrow> bool \<Rightarrow>
     ('f jfilter \<Rightarrow> 'f jvariant \<Rightarrow> 'm jstate \<Rightarrow> (code \<times> 'f jvariant \<times> 'm jstate) option) \<Rightarrow>
     'f jfilter \<Rightarrow> nat \<Rightarrow> 'f jvariant \<Rightarrow> 'm jstate \<Rightarrow> (code \<times> 'f jvariant \<times> 'm jstate) option" where
  "readObject M F reached parse flt n v s =
    (if reached then Some (TooDeep, v, s)
     else let here = allowObject F flt in
       map_option (\<lambda>(err, ms, s). (err, if here then JObject ms else v, s)) (readMembers M F parse flt here n [] s))"

definition sized ::
    "nat \<Rightarrow> (nat \<Rightarrow> 'f jvariant \<Rightarrow> 'm jstate \<Rightarrow> (code \<times> 'f jvariant \<times> 'm jstate) option) \<Rightarrow> 'f jvariant \<Rightarrow> 'm jstate \<Rightarrow>
     (code \<times> 'f jvariant \<times> 'm jstate) option" where
  "sized k f v s = (case readInteger k s of (err, n, s) \<Rightarrow> if err \<noteq> Ok then Some (err, v, s) else f n v s)"

text \<open>The body of \<open>parseVariant\<close>. \<open>value a b\<close> is \<open>a\<close> where the filter keeps the value and \<open>b\<close>, which skips, elsewhere.\<close>

definition unpack_value ::
    "'m mem_ops \<Rightarrow> 'f float_ops \<Rightarrow> 'f float_bits \<Rightarrow> bool \<Rightarrow>
     ('f jfilter \<Rightarrow> 'f jvariant \<Rightarrow> 'm jstate \<Rightarrow> (code \<times> 'f jvariant \<times> 'm jstate) option) \<Rightarrow>
     'f jfilter \<Rightarrow> 'f jvariant \<Rightarrow> 'm jstate \<Rightarrow> (code \<times> 'f jvariant \<times> 'm jstate) option" where
  "unpack_value M F X reached parse flt v s = (case readByte s of (err, code, s) \<Rightarrow>
     if err \<noteq> Ok then Some (err, v, s)
     else let s = s\<lparr>j_found := True\<rparr>;
              allowed = allowValue F flt;
              skip = (\<lambda>(err, s). Some (err, v, s));
              set = (\<lambda>w. Some (Ok, if allowed then w else v, s));
              num = (\<lambda>k f. if allowed then Some (read_number k f v s) else skip (skipBytes k s));
              unsigned = (\<lambda>k. num k (\<lambda>n. JUnsigned (word_of_nat n)));
              signed = (\<lambda>k. num k (\<lambda>n. JSigned (signed_value k n)));
              text = (\<lambda>k. if allowed then Some (store_string M v (readString_sized M k s)) else skip (skipString k s))
       in if code = 0xC0 then Some (Ok, v, s)
       else if code = 0xC1 then Some (InvalidInput, v, s)
       else if code = 0xC2 then set (JBool False)
       else if code = 0xC3 then set (JBool True)
       else if code = 0xC4 then skip (skipString 1 s)
       else if code = 0xC5 then skip (skipString 2 s)
       else if code = 0xC6 then skip (skipString 4 s)
       else if code = 0xC7 then skip (skipExt 1 s)
       else if code = 0xC8 then skip (skipExt 2 s)
       else if code = 0xC9 then skip (skipExt 4 s)
       else if code = 0xCA then num 4 (\<lambda>n. JFloat (of_single X (word_of_nat n)))
       else if code = 0xCB then num 8 (\<lambda>n. JFloat (of_double X (word_of_nat n)))
       else if code = 0xCC then unsigned 1
       else if code = 0xCD then unsigned 2
       else if code = 0xCE then unsigned 4
       else if code = 0xCF then unsigned 8
       else if code = 0xD0 then signed 1
       else if code = 0xD1 then signed 2
       else if code = 0xD2 then signed 4
       else if code = 0xD3 then signed 8
       else if code = 0xD4 then skip (skipBytes 2 s)
       else if code = 0xD5 then skip (skipBytes 3 s)
       else if code = 0xD6 then skip (skipBytes 5 s)
       else if code = 0xD7 then skip (skipBytes 9 s)
       else if code = 0xD8 then skip (skipBytes 17 s)
       else if code = 0xD9 then text 1
       else if code = 0xDA then text 2
       else if code = 0xDB then text 4
       else if code = 0xDC then sized 2 (readArray M F reached parse flt) v s
       else if code = 0xDD then sized 4 (readArray M F reached parse flt) v s
       else if code = 0xDE then sized 2 (readObject M F reached parse flt) v s
       else if code = 0xDF then sized 4 (readObject M F reached parse flt) v s
       else if and code 0xF0 = 0x80 then readObject M F reached parse flt (and code 0x0F) v s
       else if and code 0xF0 = 0x90 then readArray M F reached parse flt (and code 0x0F) v s
       else if and code 0xE0 = 0xA0 then
         if allowed then Some (store_string M v (readString M (and code 0x1F) s)) else skip (skipBytes (and code 0x1F) s)
       else set (JSigned (signed_value 1 code)))"

primrec unpackVariant ::
    "'m mem_ops \<Rightarrow> 'f float_ops \<Rightarrow> 'f float_bits \<Rightarrow> nat \<Rightarrow> 'f jfilter \<Rightarrow> 'f jvariant \<Rightarrow> 'm jstate \<Rightarrow>
     (code \<times> 'f jvariant \<times> 'm jstate) option" where
  "unpackVariant M F X 0 = unpack_value M F X True (\<lambda>_ v s. Some (TooDeep, v, s))"
| "unpackVariant M F X (Suc n) = unpack_value M F X False (unpackVariant M F X n)"

definition parse_msgpack ::
    "'m mem_ops \<Rightarrow> 'f float_ops \<Rightarrow> 'f float_bits \<Rightarrow> nat \<Rightarrow> 'f jfilter \<Rightarrow> 'f jvariant \<Rightarrow> 'm jstate \<Rightarrow>
     (code \<times> 'f jvariant \<times> 'm jstate) option" where
  "parse_msgpack M F X limit flt v s =
    map_option (\<lambda>(err, v, s). (if j_found s then err else EmptyInput, v, s)) (unpackVariant M F X limit flt v s)"

definition deserializeMsgPack ::
    "'f float_ops \<Rightarrow> 'f float_bits \<Rightarrow> nat \<Rightarrow> 'f jfilter \<Rightarrow> string \<Rightarrow> pool \<Rightarrow> (code \<times> 'f jvariant \<times> pool) option" where
  "deserializeMsgPack F X limit flt inp p =
    map_option (\<lambda>(err, v, s). (err, v, c_pool (j_mem s))) (parse_msgpack copier_ops F X limit flt JNull
       \<lparr>j_in = inp, j_found = False, j_mem = \<lparr>c_pool = clear_pool p, c_text = [], c_capacity = 0\<rparr>\<rparr>)"

definition deserializeMsgPack_inplace ::
    "'f float_ops \<Rightarrow> 'f float_bits \<Rightarrow> nat \<Rightarrow> 'f jfilter \<Rightarrow> string \<Rightarrow> pool \<Rightarrow> (code \<times> 'f jvariant \<times> pool) option" where
  "deserializeMsgPack_inplace F X limit flt inp p =
    map_option (\<lambda>(err, v, s). (err, v, m_pool (j_mem s))) (parse_msgpack mover_ops F X limit flt JNull
       \<lparr>j_in = inp, j_found = False, j_mem = \<lparr>m_pool = clear_pool p, m_text = [], m_write = 0\<rparr>\<rparr>)"

end
