(* ===== verification/JsonMsgPack_Round.thy ===== *)
theory JsonMsgPack_Round
  imports JsonRound JsonMsgPack
begin

text \<open>
  Reading back what the MessagePack serializer writes: bytes, numbers, strings, arrays, objects, documents. The
  memory is again the locale of the JSON round trip, so both storages are covered.
\<close>

section \<open>Bytes\<close>

lemma big_endian_length [simp]: "length (big_endian k n) = k"
  by (induction k arbitrary: n) simp_all

lemma big_endian_value_snoc: "big_endian_value (bs @ [c]) = big_endian_value bs * 256 + of_char c"
  by (simp add: big_endian_value_def)

lemma big_endian_read: "big_endian_value (big_endian k n) = n mod 256 ^ k"
proof (induction k arbitrary: n)
  case (Suc k)
  have "big_endian_value (big_endian (Suc k) n) = (n div 256 mod 256 ^ k) * 256 + n mod 256"
    using Suc [of "n div 256"] by (simp add: big_endian_value_snoc of_char_of)
  also have "\<dots> = n mod (256 * 256 ^ k)" by (simp add: mod_mult2_eq)
  finally show ?case by simp
qed (simp add: big_endian_value_def)

lemma readByte_here: "j_in s = c # cs \<Longrightarrow> readByte s = (Ok, of_char c, s\<lparr>j_in := cs\<rparr>)"
  by (simp add: readByte_def)

lemma readInteger_written:
  assumes "j_in s = big_endian k n @ rest" and "n < 256 ^ k"
  shows "readInteger k s = (Ok, n, s\<lparr>j_in := rest\<rparr>)"
  using assms by (simp add: readInteger_def readBytes_def big_endian_read)

lemma read_number_written:
  assumes "j_in s = big_endian k n @ rest" and "n < 256 ^ k"
  shows "read_number k f v s = (Ok, f n, s\<lparr>j_in := rest\<rparr>)"
  using readInteger_written [OF assms] by (simp add: read_number_def)

lemma and_high: "and n (push_bit k (mask m)) = push_bit k (take_bit m (drop_bit k (n :: nat)))"
  by (rule bit_eqI) (auto simp: bit_simps)

lemma code_masks:
  "and n 240 = n div 16 mod 16 * (16 :: nat)" "and n 224 = n div 32 mod 8 * (32 :: nat)"
  "and n 15 = n mod (16 :: nat)" "and n 31 = n mod (32 :: nat)"
proof -
  show "and n 240 = n div 16 mod 16 * (16 :: nat)"
    using and_high [of n 4 4] by (simp add: mask_eq_exp_minus_1 push_bit_eq_mult drop_bit_eq_div take_bit_eq_mod)
  show "and n 224 = n div 32 mod 8 * (32 :: nat)"
    using and_high [of n 5 3] by (simp add: mask_eq_exp_minus_1 push_bit_eq_mult drop_bit_eq_div take_bit_eq_mod)
  show "and n 15 = n mod (16 :: nat)" "and n 31 = n mod (32 :: nat)"
    using take_bit_eq_mask [of 4 n] take_bit_eq_mask [of 5 n] by (simp_all add: mask_eq_exp_minus_1 take_bit_eq_mod)
qed

section \<open>Numbers\<close>

text \<open>What the deserializer makes of a number: the small ones come back signed.\<close>

definition unpacked_unsigned :: "u64 \<Rightarrow> 'f jvariant" where
  "unpacked_unsigned v = (if v \<le> 0x7F then JSigned v else JUnsigned v)"

definition unpacked_signed :: "u64 \<Rightarrow> 'f jvariant" where
  "unpacked_signed v = (if sint v > 0 then unpacked_unsigned v else JSigned v)"

definition scalar_reads ::
    "(('f jvariant) \<Rightarrow> 'm jstate \<Rightarrow> (code \<times> 'f jvariant \<times> 'm jstate) option) \<Rightarrow> string \<Rightarrow> 'f jvariant \<Rightarrow> bool" where
  "scalar_reads parse cs v = (\<forall>s rest. j_in s = cs @ rest \<longrightarrow>
     parse JNull s = Some (Ok, v, s\<lparr>j_in := rest, j_found := True\<rparr>))"

lemma word_small: "n < 2 ^ 64 \<Longrightarrow> unat (word_of_nat n :: u64) = n"
  by (simp add: unat_of_nat take_bit_nat_eq_self)

lemma byte_code: "n < 256 \<Longrightarrow> of_char (char_of n :: char) = (n :: nat)"
  by (simp add: of_char_of)

lemma other_codes:
  "n < 192 \<or> 223 < (n :: nat) \<Longrightarrow>
  n \<noteq> 192 \<and> n \<noteq> 193 \<and> n \<noteq> 194 \<and> n \<noteq> 195 \<and> n \<noteq> 196
    \<and> n \<noteq> 197 \<and> n \<noteq> 198 \<and> n \<noteq> 199 \<and> n \<noteq> 200 \<and> n
    \<noteq> 201 \<and> n \<noteq> 202 \<and> n \<noteq> 203 \<and> n \<noteq> 204 \<and> n \<noteq> 205
    \<and> n \<noteq> 206 \<and> n \<noteq> 207 \<and> n \<noteq> 208 \<and> n \<noteq> 209 \<and> n
    \<noteq> 210 \<and> n \<noteq> 211 \<and> n \<noteq> 212 \<and> n \<noteq> 213 \<and> n \<noteq> 214
    \<and> n \<noteq> 215 \<and> n \<noteq> 216 \<and> n \<noteq> 217 \<and> n \<noteq> 218 \<and> n
    \<noteq> 219 \<and> n \<noteq> 220 \<and> n \<noteq> 221 \<and> n \<noteq> 222 \<and> n \<noteq> 223"
  by auto

lemma unpack_fixint:
  fixes M :: "'m mem_ops"
  assumes "n < 128 \<or> 224 \<le> n" and "n < 256"
  shows "scalar_reads (unpack_value M F X r parse AllowAll) (big_endian 1 n) (JSigned (signed_value 1 n))"
proof -
  have m: "n div 16 mod 16 * 16 \<noteq> 128" "n div 16 mod 16 * 16 \<noteq> 144" "n div 32 mod 8 * 32 \<noteq> 160"
  proof -
    have "n div 16 mod 16 = n div 16" "n div 32 mod 8 = n div 32" using assms(2) by simp_all
    moreover have "n = n div 16 * 16 + n mod 16" "n mod 16 < 16" "n = n div 32 * 32 + n mod 32" "n mod 32 < 32" by simp_all
    ultimately show "n div 16 mod 16 * 16 \<noteq> 128" "n div 16 mod 16 * 16 \<noteq> 144" "n div 32 mod 8 * 32 \<noteq> 160"
      using assms by linarith+
  qed
  have "n < 192 \<or> 223 < n" using assms(1) by linarith
  note c = other_codes [OF this]
  show ?thesis unfolding scalar_reads_def
  proof (intro allI impI)
    fix s :: "'m jstate" and rest
    assume "j_in s = big_endian 1 n @ rest"
    then have rb: "readByte s = (Ok, n, s\<lparr>j_in := rest\<rparr>)"
      using byte_code [OF assms(2)] by (simp add: readByte_here)
    show "unpack_value M F X r parse AllowAll JNull s = Some (Ok, JSigned (signed_value 1 n), s\<lparr>j_in := rest, j_found := True\<rparr>)"
      unfolding unpack_value_def rb prod.case code_masks Let_def by (simp add: c m)
  qed
qed

lemma writeByte_here:
  "j_in s = writeByte c @ cs \<Longrightarrow> c < 256 \<Longrightarrow> readByte s = (Ok, c, s\<lparr>j_in := cs\<rparr>)"
  using byte_code [of c] by (simp add: readByte_here writeByte_def)

lemma scalar_readsI:
  fixes parse :: "'f jvariant \<Rightarrow> 'm jstate \<Rightarrow> (code \<times> 'f jvariant \<times> 'm jstate) option"
  assumes "\<And>(s :: 'm jstate) rest. j_in s = cs @ rest \<Longrightarrow> parse JNull s = Some (Ok, v, s\<lparr>j_in := rest, j_found := True\<rparr>)"
  shows "scalar_reads parse cs v"
  using assms by (simp add: scalar_reads_def)

lemma read_number_step:
  assumes "j_in s = big_endian k n @ rest" and "n < 256 ^ k"
  shows "read_number k f v (s\<lparr>j_found := True\<rparr>) = (Ok, f n, s\<lparr>j_in := rest, j_found := True\<rparr>)"
  using read_number_written [of "s\<lparr>j_found := True\<rparr>" k n rest f v] assms by simp

lemma unpack_number:
  fixes M :: "'m mem_ops"
  shows "n < 2 ^ 8 \<Longrightarrow> scalar_reads (unpack_value M F X r parse AllowAll) (writeByte 0xCC @ big_endian 1 n) (JUnsigned (word_of_nat n))"
    and "n < 2 ^ 16 \<Longrightarrow> scalar_reads (unpack_value M F X r parse AllowAll) (writeByte 0xCD @ big_endian 2 n) (JUnsigned (word_of_nat n))"
    and "n < 2 ^ 32 \<Longrightarrow> scalar_reads (unpack_value M F X r parse AllowAll) (writeByte 0xCE @ big_endian 4 n) (JUnsigned (word_of_nat n))"
    and "n < 2 ^ 64 \<Longrightarrow> scalar_reads (unpack_value M F X r parse AllowAll) (writeByte 0xCF @ big_endian 8 n) (JUnsigned (word_of_nat n))"
    and "n < 2 ^ 8 \<Longrightarrow> scalar_reads (unpack_value M F X r parse AllowAll) (writeByte 0xD0 @ big_endian 1 n) (JSigned (signed_value 1 n))"
    and "n < 2 ^ 16 \<Longrightarrow> scalar_reads (unpack_value M F X r parse AllowAll) (writeByte 0xD1 @ big_endian 2 n) (JSigned (signed_value 2 n))"
    and "n < 2 ^ 32 \<Longrightarrow> scalar_reads (unpack_value M F X r parse AllowAll) (writeByte 0xD2 @ big_endian 4 n) (JSigned (signed_value 4 n))"
    and "n < 2 ^ 64 \<Longrightarrow> scalar_reads (unpack_value M F X r parse AllowAll) (writeByte 0xD3 @ big_endian 8 n) (JSigned (signed_value 8 n))"
proof -
  have step: "unpack_value M F X r parse AllowAll JNull s = Some (Ok, f n, s\<lparr>j_in := rest, j_found := True\<rparr>)"
    if "j_in s = (writeByte c @ big_endian k n) @ rest" "n < 256 ^ k"
      "(c, k) \<in> {(0xCC, 1), (0xCD, 2), (0xCE, 4), (0xCF, 8)} \<and> f = (\<lambda>n. JUnsigned (word_of_nat n)) \<or>
       (c, k) \<in> {(0xD0, 1), (0xD1, 2), (0xD2, 4), (0xD3, 8)} \<and> f = (\<lambda>n. JSigned (signed_value k n))"
    for s :: "'m jstate" and c k f rest
  proof -
    have "c < 256" using that(3) by auto
    then have rb: "readByte s = (Ok, c, s\<lparr>j_in := big_endian k n @ rest\<rparr>)"
      using writeByte_here [of s c "big_endian k n @ rest"] that(1) by simp
    have rn: "read_number k f JNull (s\<lparr>j_in := big_endian k n @ rest, j_found := True\<rparr>) =
        (Ok, f n, s\<lparr>j_in := rest, j_found := True\<rparr>)"
      using read_number_step [of "s\<lparr>j_in := big_endian k n @ rest\<rparr>" k n rest f JNull] that(2) by simp
    show ?thesis
      using that(3) rn unfolding unpack_value_def rb prod.case Let_def by (elim disjE conjE insertE emptyE) simp_all
  qed
  show "n < 2 ^ 8 \<Longrightarrow> scalar_reads (unpack_value M F X r parse AllowAll) (writeByte 0xCC @ big_endian 1 n) (JUnsigned (word_of_nat n))"
    "n < 2 ^ 16 \<Longrightarrow> scalar_reads (unpack_value M F X r parse AllowAll) (writeByte 0xCD @ big_endian 2 n) (JUnsigned (word_of_nat n))"
    "n < 2 ^ 32 \<Longrightarrow> scalar_reads (unpack_value M F X r parse AllowAll) (writeByte 0xCE @ big_endian 4 n) (JUnsigned (word_of_nat n))"
    "n < 2 ^ 64 \<Longrightarrow> scalar_reads (unpack_value M F X r parse AllowAll) (writeByte 0xCF @ big_endian 8 n) (JUnsigned (word_of_nat n))"
    "n < 2 ^ 8 \<Longrightarrow> scalar_reads (unpack_value M F X r parse AllowAll) (writeByte 0xD0 @ big_endian 1 n) (JSigned (signed_value 1 n))"
    "n < 2 ^ 16 \<Longrightarrow> scalar_reads (unpack_value M F X r parse AllowAll) (writeByte 0xD1 @ big_endian 2 n) (JSigned (signed_value 2 n))"
    "n < 2 ^ 32 \<Longrightarrow> scalar_reads (unpack_value M F X r parse AllowAll) (writeByte 0xD2 @ big_endian 4 n) (JSigned (signed_value 4 n))"
    "n < 2 ^ 64 \<Longrightarrow> scalar_reads (unpack_value M F X r parse AllowAll) (writeByte 0xD3 @ big_endian 8 n) (JSigned (signed_value 8 n))"
    by (rule scalar_readsI, erule step; simp)+
qed

lemma big_endian_mod: "big_endian k (n mod 256 ^ k) = big_endian k n"
proof (induction k arbitrary: n)
  case (Suc k)
  have "n mod 256 ^ Suc k div 256 = n div 256 mod 256 ^ k"
    by (simp add: mod_mult2_eq)
  moreover have "char_of (n mod 256 ^ Suc k) = (char_of n :: char)"
  proof -
    have "n mod 256 ^ Suc k mod 256 = n mod 256" by (rule mod_mod_cancel) simp
    then show ?thesis by (simp only: char_of_mod_256 [of "n mod 256 ^ Suc k", symmetric] char_of_mod_256)
  qed
  ultimately show ?case using Suc [of "n div 256"] by simp
qed simp

lemma unpack_unsigned:
  fixes M :: "'m mem_ops"
  shows "scalar_reads (unpack_value M F X r parse AllowAll) (pack_unsigned v) (unpacked_unsigned v)"
proof -
  have lt: "unat v < 2 ^ 64" using unsigned_less [of v, where 'a = nat] by simp
  have w: "word_of_nat (unat v) = v" by simp
  consider "unat v \<le> 0x7F" | "0x7F < unat v" "unat v \<le> 0xFF" | "0xFF < unat v" "unat v \<le> 0xFFFF"
    | "0xFFFF < unat v" "unat v \<le> 0xFFFFFFFF" | "0xFFFFFFFF < unat v" by linarith
  then show ?thesis
  proof cases
    case 1
    then have "signed_value 1 (unat v) = v" by (simp add: signed_value_def)
    then show ?thesis using unpack_fixint [of "unat v" M F X r parse] 1
      by (simp add: pack_unsigned_def unpacked_unsigned_def word_le_nat_alt)
  next
    case 2
    then show ?thesis using unpack_number(1) [of "unat v" M F X r parse]
      by (simp add: pack_unsigned_def unpacked_unsigned_def word_le_nat_alt)
  next
    case 3
    then show ?thesis using unpack_number(2) [of "unat v" M F X r parse]
      by (simp add: pack_unsigned_def unpacked_unsigned_def word_le_nat_alt)
  next
    case 4
    then show ?thesis using unpack_number(3) [of "unat v" M F X r parse]
      by (simp add: pack_unsigned_def unpacked_unsigned_def word_le_nat_alt)
  next
    case 5
    then show ?thesis using unpack_number(4) [of "unat v" M F X r parse] lt
      by (simp add: pack_unsigned_def unpacked_unsigned_def word_le_nat_alt)
  qed
qed

text \<open>A number that fits into \<open>k\<close> bytes survives the cut to them.\<close>

lemma signed_value_cut:
  fixes v :: u64
  assumes "- (2 ^ (8 * k - 1)) \<le> sint v" and "sint v \<le> 0" and "k \<in> {1, 2, 4, 8}"
  shows "signed_value k (unat v mod 256 ^ k) = v"
proof -
  have dv: "(2 :: int) ^ (8 * k) dvd 2 ^ 64" using assms(3) by (intro le_imp_power_dvd) auto
  have "(256 :: nat) ^ k = 2 ^ (8 * k)" by (simp add: power_mult)
  then have "int (unat v mod 256 ^ k) = uint v mod 2 ^ (8 * k)" by (simp add: zmod_int)
  also have "uint v = sint v mod 2 ^ 64" by (simp add: uint_sint take_bit_eq_mod)
  also have "sint v mod 2 ^ 64 mod 2 ^ (8 * k) = sint v mod 2 ^ (8 * k)" by (rule mod_mod_cancel [OF dv])
  finally have n: "int (unat v mod 256 ^ k) = sint v mod 2 ^ (8 * k)" .
  have p: "(2 :: int) ^ (8 * k) = 2 * 2 ^ (8 * k - 1)" using assms(3) by auto
  show ?thesis
  proof (cases "sint v = 0")
    case True
    then have "v = 0" by (metis signed_eq_0_iff)
    then show ?thesis by (simp add: signed_value_def)
  next
    case False
    then have "sint v mod 2 ^ (8 * k) = sint v + 2 ^ (8 * k)"
      using assms(1,2) p mod_pos_pos_trivial [of "sint v + 2 ^ (8 * k)" "2 ^ (8 * k)"] by simp
    then have e: "int (unat v mod 256 ^ k) = sint v + 2 ^ (8 * k)" using n by simp
    then have "\<not> int (unat v mod 256 ^ k) < int (2 ^ (8 * k - 1))" using assms(1) p by simp
    then have "\<not> unat v mod 256 ^ k < 2 ^ (8 * k - 1)" by (simp only: of_nat_less_iff not_False_eq_True)
    then show ?thesis using e by (simp add: signed_value_def)
  qed
qed

lemma sint_lower: "- (2 ^ 63) \<le> sint (v :: u64)"
  using sint_ge [of v] by simp

lemma unpack_signed:
  fixes M :: "'m mem_ops"
  shows "scalar_reads (unpack_value M F X r parse AllowAll) (pack_signed v) (unpacked_signed v)"
proof (cases "sint v > 0")
  case True
  then show ?thesis using unpack_unsigned [of M F X r parse v] by (simp add: pack_signed_def unpacked_signed_def)
next
  case False
  then have neg: "sint v \<le> 0" by simp
  let ?n = "\<lambda>k. unat v mod 256 ^ k"
  have cut: "big_endian k (unat v) = big_endian k (?n k)" for k by (simp add: big_endian_mod)
  have lt: "?n 1 < 2 ^ 8" "?n 2 < 2 ^ 16" "?n 4 < 2 ^ 32" "?n 8 < 2 ^ 64" by simp_all
  have res: "unpacked_signed v = JSigned v" using False by (simp add: unpacked_signed_def)
  consider "sint v \<ge> - 0x20" | "\<not> sint v \<ge> - 0x20" "sint v \<ge> - 0x80" | "\<not> sint v \<ge> - 0x80" "sint v \<ge> - 0x8000"
    | "\<not> sint v \<ge> - 0x8000" "sint v \<ge> - 0x80000000" | "\<not> sint v \<ge> - 0x80000000" by linarith
  then show ?thesis
  proof cases
    case 1
    have sv: "signed_value 1 (?n 1) = v" by (rule signed_value_cut) (use 1 neg in simp_all)
    have "int (?n 1) = sint v mod 256"
      by (simp add: zmod_int uint_sint take_bit_eq_mod mod_mod_cancel)
    then have "?n 1 < 128 \<or> 224 \<le> ?n 1"
      using 1 neg mod_pos_pos_trivial [of "sint v + 256" 256] by (cases "sint v = 0") auto
    then show ?thesis using unpack_fixint [of "?n 1" M F X r parse] lt(1) 1 False sv cut [of 1]
      by (simp add: pack_signed_def res del: big_endian.simps One_nat_def power_one_right)
  next
    case 2
    have sv: "signed_value 1 (?n 1) = v" by (rule signed_value_cut) (use 2 neg in simp_all)
    show ?thesis using unpack_number(5) [OF lt(1), of M F X r parse] 2 False sv cut [of 1]
      by (simp add: pack_signed_def res del: big_endian.simps One_nat_def power_one_right)
  next
    case 3
    have sv: "signed_value 2 (?n 2) = v" by (rule signed_value_cut) (use 3 neg in simp_all)
    show ?thesis using unpack_number(6) [OF lt(2), of M F X r parse] 3 False sv cut [of 2]
      by (simp add: pack_signed_def res del: big_endian.simps)
  next
    case 4
    have sv: "signed_value 4 (?n 4) = v" by (rule signed_value_cut) (use 4 neg in simp_all)
    show ?thesis using unpack_number(7) [OF lt(3), of M F X r parse] 4 False sv cut [of 4]
      by (simp add: pack_signed_def res del: big_endian.simps)
  next
    case 5
    have sv: "signed_value 8 (?n 8) = v" by (rule signed_value_cut) (use neg sint_lower [of v] in simp_all)
    show ?thesis using unpack_number(8) [OF lt(4), of M F X r parse] 5 False sv cut [of 8]
      by (simp add: pack_signed_def res del: big_endian.simps)
  qed
qed

section \<open>Strings\<close>

lemma readChars_written:
  "j_in s = x @ rest \<Longrightarrow> readChars M (length x) s = (Ok, s\<lparr>j_in := rest, j_mem := fold (append_char M) x (j_mem s)\<rparr>)"
  by (induction x arbitrary: s) (simp_all add: readBytes_def appendc_def)

context string_memory
begin

lemma readString_written:
  assumes "good (j_mem s)" and "cost (length x) \<le> room (j_mem s)" and "j_in s = x @ rest"
  shows "readString M (length x) s = (Ok, s\<lparr>j_in := rest, j_mem := appended M x (j_mem s)\<rparr>)"
  using assms appended_valid [of "j_mem s" x] readChars_written [of "start_string M s" x rest M]
  by (simp add: readString_def start_string_def appended_def jstate_commute)

lemma readString_sized_written:
  assumes "good (j_mem s)" and "cost (length x) \<le> room (j_mem s)" and "j_in s = big_endian k (length x) @ x @ rest"
    and "length x < 256 ^ k"
  shows "readString_sized M k s = (Ok, s\<lparr>j_in := rest, j_mem := appended M x (j_mem s)\<rparr>)"
  using readInteger_written [OF assms(3,4)] readString_written [of "s\<lparr>j_in := x @ rest\<rparr>" x rest] assms
  by (simp add: readString_sized_def)

lemma store_written:
  fixes v :: "'f jvariant"
  assumes "good (j_mem s)" and "cost (length x) \<le> room (j_mem s)" and "j_mem u = appended M x (j_mem s)"
  shows "\<exists>t. store_string M v (Ok, u) = (Ok, JString x, t) \<and> j_in t = j_in u \<and> good (j_mem t) \<and>
    room (j_mem s) \<le> room (j_mem t) + cost (length x)"
proof -
  obtain y m' where sv: "save M (appended M x (j_mem s)) = (y, m')" by (metis surj_pair)
  show ?thesis using saved [OF assms(1,2) sv] sv assms(3) by (simp add: store_string_def save_string_def)
qed

definition unpacks ::
    "('f jvariant \<Rightarrow> 'm jstate \<Rightarrow> (code \<times> 'f jvariant \<times> 'm jstate) option) \<Rightarrow> string \<Rightarrow> 'f jvariant \<Rightarrow> nat \<Rightarrow> bool" where
  "unpacks parse cs v n = (\<forall>s rest. good (j_mem s) \<longrightarrow> n \<le> room (j_mem s) \<longrightarrow> j_in s = cs @ rest \<longrightarrow>
     (\<exists>t. parse JNull s = Some (Ok, v, t) \<and> j_in t = rest \<and> j_found t \<and> good (j_mem t) \<and>
       room (j_mem s) \<le> room (j_mem t) + n))"

lemma unpacksD:
  assumes "unpacks parse cs v n" "good (j_mem s)" "n \<le> room (j_mem s)" "j_in s = cs @ rest"
  obtains t where "parse JNull s = Some (Ok, v, t)" "j_in t = rest" "j_found t" "good (j_mem t)"
    "room (j_mem s) \<le> room (j_mem t) + n"
  using assms unfolding unpacks_def by blast

lemma unpacks_scalar: "scalar_reads parse cs v \<Longrightarrow> unpacks parse cs v n"
  by (auto simp: unpacks_def scalar_reads_def)

text \<open>The head of a string value and of a key: the length in the code, or the code and the length.\<close>

lemma string_codes:
  "n < 32 \<Longrightarrow> (160 + n) div 16 mod 16 * 16 \<noteq> (128 :: nat) \<and> (160 + n) div 16 mod 16 * 16 \<noteq> 144 \<and>
    (160 + n) div 32 mod 8 * 32 = 160 \<and> (160 + n) mod 32 = n \<and> 160 + n < 192"
proof -
  assume n: "n < 32"
  have "(160 + n) div 16 = 10 + n div 16" "n div 16 < 2" using n by simp_all
  moreover have "(160 + n) div 32 = 5" "(160 + n) mod 32 = n" using n mod_mult_self1 [of n 5 32] by (simp_all add: div_add1_eq add.commute)
  ultimately show ?thesis using n by auto
qed

lemma string_cases:
  assumes "length x < 2 ^ 32"
  obtains (short) "length x < 32" "pack_string x = writeByte (160 + length x) @ x"
  | (sized) c k where "(c, k) \<in> {(0xD9, 1), (0xDA, 2), (0xDB, 4)}" "length x < 256 ^ k"
      "pack_string x = writeByte c @ big_endian k (length x) @ x"
proof -
  consider "length x < 0x20" | "\<not> length x < 0x20" "length x < 0x100" | "\<not> length x < 0x100" "length x < 0x10000"
    | "\<not> length x < 0x10000" by linarith
  then show thesis
  proof cases
    case 1
    then show thesis by (intro short) (simp_all add: pack_string_def)
  next
    case 2
    then show thesis by (intro that(2) [of "0xD9" 1]) (simp_all add: pack_string_def)
  next
    case 3
    then show thesis by (intro that(2) [of "0xDA" 2]) (simp_all add: pack_string_def)
  next
    case 4
    then show thesis using assms by (intro that(2) [of "0xDB" 4]) (simp_all add: pack_string_def)
  qed
qed

lemma unpack_string:
  assumes "length x < 2 ^ 32"
  shows "unpacks (unpack_value M F X r parse AllowAll) (pack_string x) (JString x) (cost (length x))"
  unfolding unpacks_def
proof (intro allI impI)
  fix s :: "'m jstate" and rest
  assume g: "good (j_mem s)" "cost (length x) \<le> room (j_mem s)" and s: "j_in s = pack_string x @ rest"
  let ?u = "s\<lparr>j_in := rest, j_found := True, j_mem := appended M x (j_mem s)\<rparr>"
  have "unpack_value M F X r parse AllowAll JNull s = Some (store_string M JNull (Ok, ?u))"
    using assms
  proof (cases rule: string_cases)
    case short
    have rb: "readByte s = (Ok, 160 + length x, s\<lparr>j_in := x @ rest\<rparr>)"
      using short s by (intro writeByte_here) simp_all
    note c = string_codes [OF short(1)]
    have "160 + length x < 192 \<or> 223 < 160 + length x" using c by simp
    note o = other_codes [OF this]
    have "readString M (length x) (s\<lparr>j_in := x @ rest, j_found := True\<rparr>) = (Ok, ?u)"
      using readString_written [of "s\<lparr>j_in := x @ rest, j_found := True\<rparr>" x rest] g by simp
    then show ?thesis unfolding unpack_value_def rb prod.case code_masks Let_def by (simp add: o c del: Suc_eq_plus1 add_is_0)
  next
    case (sized c k)
    have rb: "readByte s = (Ok, c, s\<lparr>j_in := big_endian k (length x) @ x @ rest\<rparr>)"
      using sized s by (intro writeByte_here) auto
    have "readString_sized M k (s\<lparr>j_in := big_endian k (length x) @ x @ rest, j_found := True\<rparr>) = (Ok, ?u)"
      using readString_sized_written [of "s\<lparr>j_in := big_endian k (length x) @ x @ rest, j_found := True\<rparr>" x k rest] g sized
      by simp
    then show ?thesis using sized(1) unfolding unpack_value_def rb prod.case Let_def
      by (elim disjE conjE insertE emptyE) simp_all
  qed
  then show "\<exists>t. unpack_value M F X r parse AllowAll JNull s = Some (Ok, JString x, t) \<and> j_in t = rest \<and> j_found t \<and>
      good (j_mem t) \<and> room (j_mem s) \<le> room (j_mem t) + cost (length x)"
  proof -
    obtain y m' where sv: "save M (appended M x (j_mem s)) = (y, m')" by (metis surj_pair)
    show ?thesis using saved [OF g sv] sv \<open>unpack_value M F X r parse AllowAll JNull s = _\<close>
      by (simp add: store_string_def save_string_def)
  qed
qed

lemma readKey_written:
  assumes "length x < 2 ^ 32" and g: "good (j_mem s)" "cost (length x) \<le> room (j_mem s)" and s: "j_in s = pack_string x @ rest"
  shows "readKey M s = (Ok, s\<lparr>j_in := rest, j_mem := appended M x (j_mem s)\<rparr>)"
  using assms(1)
proof (cases rule: string_cases)
  case short
  have rb: "readByte s = (Ok, 160 + length x, s\<lparr>j_in := x @ rest\<rparr>)"
    using short s by (intro writeByte_here) simp_all
  have "readString M (length x) (s\<lparr>j_in := x @ rest\<rparr>) = (Ok, s\<lparr>j_in := rest, j_mem := appended M x (j_mem s)\<rparr>)"
    using readString_written [of "s\<lparr>j_in := x @ rest\<rparr>" x rest] g by simp
  then show ?thesis unfolding readKey_def rb prod.case code_masks by (simp add: string_codes [OF short(1)])
next
  case (sized c k)
  have rb: "readByte s = (Ok, c, s\<lparr>j_in := big_endian k (length x) @ x @ rest\<rparr>)"
    using sized s by (intro writeByte_here) auto
  have "readString_sized M k (s\<lparr>j_in := big_endian k (length x) @ x @ rest\<rparr>) =
      (Ok, s\<lparr>j_in := rest, j_mem := appended M x (j_mem s)\<rparr>)"
    using readString_sized_written [of "s\<lparr>j_in := big_endian k (length x) @ x @ rest\<rparr>" x k rest] g sized by simp
  then show ?thesis using sized(1) unfolding readKey_def rb prod.case code_masks
    by (elim disjE conjE insertE emptyE) simp_all
qed

end

section \<open>Arrays and objects\<close>

lemma size_codes:
  assumes "n < (16 :: nat)"
  shows "(144 + n) div 16 mod 16 * 16 = 144" "(144 + n) mod 16 = n" "(128 + n) div 16 mod 16 * 16 = 128" "(128 + n) mod 16 = n"
proof -
  have "(144 + n) div 16 = 9" "(128 + n) div 16 = 8" using assms by (simp_all add: div_add1_eq)
  then show "(144 + n) div 16 mod 16 * 16 = 144" "(128 + n) div 16 mod 16 * 16 = 128" by simp_all
  show "(144 + n) mod 16 = n" "(128 + n) mod 16 = n"
    using assms mod_mult_self1 [of n 9 16] mod_mult_self1 [of n 8 16] by (simp_all add: add.commute)
qed

lemma sized_written:
  assumes "j_in s = big_endian k n @ rest" and "n < 256 ^ k"
  shows "sized k f v s = f n v (s\<lparr>j_in := rest\<rparr>)"
  using readInteger_written [OF assms] by (simp add: sized_def)

lemma found_commute: "s\<lparr>j_found := b, j_in := cs\<rparr> = s\<lparr>j_in := cs, j_found := b\<rparr>"
  by simp

lemma array_head:
  assumes "n < 2 ^ 32" and s: "j_in s = pack_array_size n @ rest"
  shows "unpack_value M F X r parse flt v s = readArray M F r parse flt n v (s\<lparr>j_in := rest, j_found := True\<rparr>)"
proof -
  consider "n < 16" "pack_array_size n = writeByte (144 + n)"
    | c k where "(c, k) \<in> {(0xDC, 2), (0xDD, 4)}" "n < 256 ^ k" "pack_array_size n = writeByte c @ big_endian k n"
  proof -
    consider "n < 16" | "\<not> n < 16" "n < 0x10000" | "\<not> n < 0x10000" by linarith
    then show thesis
    proof cases
      case 2
      then show thesis by (intro that(2) [of "0xDC" 2]) (simp_all add: pack_array_size_def)
    next
      case 3
      then show thesis using assms(1) by (intro that(2) [of "0xDD" 4]) (simp_all add: pack_array_size_def)
    qed (simp add: that pack_array_size_def)
  qed
  then show ?thesis
  proof cases
    case 1
    have rb: "readByte s = (Ok, 144 + n, s\<lparr>j_in := rest\<rparr>)" using 1 s by (intro writeByte_here) simp_all
    have "144 + n < 192 \<or> 223 < 144 + n" using 1 by simp
    note o = other_codes [OF this]
    show ?thesis unfolding unpack_value_def rb prod.case code_masks Let_def by (simp add: o size_codes [OF 1(1)])
  next
    case (2 c k)
    have rb: "readByte s = (Ok, c, s\<lparr>j_in := big_endian k n @ rest\<rparr>)" using 2 s by (intro writeByte_here) auto
    have "sized k (readArray M F r parse flt) v (s\<lparr>j_in := big_endian k n @ rest, j_found := True\<rparr>) =
        readArray M F r parse flt n v (s\<lparr>j_in := rest, j_found := True\<rparr>)"
      using 2(2) by (simp add: sized_written [where n = n and rest = rest] found_commute)
    then show ?thesis using 2(1) unfolding unpack_value_def rb prod.case Let_def
      by (elim insertE emptyE) simp_all
  qed
qed

lemma object_head:
  assumes "n < 2 ^ 32" and s: "j_in s = pack_object_size n @ rest"
  shows "unpack_value M F X r parse flt v s = readObject M F r parse flt n v (s\<lparr>j_in := rest, j_found := True\<rparr>)"
proof -
  consider "n < 16" "pack_object_size n = writeByte (128 + n)"
    | c k where "(c, k) \<in> {(0xDE, 2), (0xDF, 4)}" "n < 256 ^ k" "pack_object_size n = writeByte c @ big_endian k n"
  proof -
    consider "n < 16" | "\<not> n < 16" "n < 0x10000" | "\<not> n < 0x10000" by linarith
    then show thesis
    proof cases
      case 2
      then show thesis by (intro that(2) [of "0xDE" 2]) (simp_all add: pack_object_size_def)
    next
      case 3
      then show thesis using assms(1) by (intro that(2) [of "0xDF" 4]) (simp_all add: pack_object_size_def)
    qed (simp add: that pack_object_size_def)
  qed
  then show ?thesis
  proof cases
    case 1
    have rb: "readByte s = (Ok, 128 + n, s\<lparr>j_in := rest\<rparr>)" using 1 s by (intro writeByte_here) simp_all
    have "128 + n < 192 \<or> 223 < 128 + n" using 1 by simp
    note o = other_codes [OF this]
    show ?thesis unfolding unpack_value_def rb prod.case code_masks Let_def by (simp add: o size_codes [OF 1(1)])
  next
    case (2 c k)
    have rb: "readByte s = (Ok, c, s\<lparr>j_in := big_endian k n @ rest\<rparr>)" using 2 s by (intro writeByte_here) auto
    have "sized k (readObject M F r parse flt) v (s\<lparr>j_in := big_endian k n @ rest, j_found := True\<rparr>) =
        readObject M F r parse flt n v (s\<lparr>j_in := rest, j_found := True\<rparr>)"
      using 2(2) by (simp add: sized_written [where n = n and rest = rest] found_commute)
    then show ?thesis using 2(1) unfolding unpack_value_def rb prod.case Let_def
      by (elim insertE emptyE) simp_all
  qed
qed

section \<open>Documents\<close>

text \<open>
  What can be packed: every length fits into 32 bits, keys have no NUL, there is no raw text. What comes back
  is the same tree, up to the class of its numbers.
\<close>

fun packable :: "'f jvariant \<Rightarrow> bool" where
  "packable (JRaw _) = False"
| "packable (JString s) = (length s < 2 ^ 32)"
| "packable (JArray vs) = (length vs < 2 ^ 32 \<and> (\<forall>v\<in>set vs. packable v))"
| "packable (JObject ms) = (length ms < 2 ^ 32 \<and>
     (\<forall>m\<in>set ms. NUL \<notin> set (fst m) \<and> length (fst m) < 2 ^ 32 \<and> packable (snd m)))"
| "packable _ = True"

fun unpacked :: "'f float_bits \<Rightarrow> 'f jvariant \<Rightarrow> 'f jvariant" where
  "unpacked X (JUnsigned n) = unpacked_unsigned n"
| "unpacked X (JSigned n) = unpacked_signed n"
| "unpacked X (JFloat f) = (if is_single X f then
     (case integral X f of Some n \<Rightarrow> unpacked_signed n | None \<Rightarrow> JFloat f) else JFloat f)"
| "unpacked X (JArray vs) = JArray (map (unpacked X) vs)"
| "unpacked X (JObject ms) = JObject (map (\<lambda>(k, v). (k, unpacked X v)) ms)"
| "unpacked X v = v"

text \<open>The bit patterns of IEEE numbers give the number back.\<close>

definition exact_bits :: "'f float_bits \<Rightarrow> bool" where
  "exact_bits X \<longleftrightarrow> (\<forall>f. (is_single X f \<longrightarrow> of_single X (single_bits X f) = f) \<and> of_double X (double_bits X f) = f)"

lemma unpack_float:
  fixes M :: "'m mem_ops"
  assumes "exact_bits X"
  shows "scalar_reads (unpack_value M F X r parse AllowAll) (pack_float X f) (unpacked X (JFloat f))"
proof -
  have bits: "unat (single_bits X f) < 2 ^ 32" "unat (double_bits X f) < 2 ^ 64"
    using unsigned_less [of "single_bits X f", where 'a = nat] unsigned_less [of "double_bits X f", where 'a = nat] by simp_all
  have num: "unpack_value M F X r parse AllowAll JNull s = Some (Ok, g n, s\<lparr>j_in := rest, j_found := True\<rparr>)"
    if "j_in s = (writeByte c @ big_endian k n) @ rest" "n < 256 ^ k"
      "(c, k) = (0xCA, 4) \<and> g = (\<lambda>n. JFloat (of_single X (word_of_nat n))) \<or>
       (c, k) = (0xCB, 8) \<and> g = (\<lambda>n. JFloat (of_double X (word_of_nat n)))"
    for s :: "'m jstate" and c k g n rest
  proof -
    have rb: "readByte s = (Ok, c, s\<lparr>j_in := big_endian k n @ rest\<rparr>)"
      using writeByte_here [of s c "big_endian k n @ rest"] that(1,3) by auto
    have rn: "read_number k g JNull (s\<lparr>j_in := big_endian k n @ rest, j_found := True\<rparr>) =
        (Ok, g n, s\<lparr>j_in := rest, j_found := True\<rparr>)"
      using read_number_step [of "s\<lparr>j_in := big_endian k n @ rest\<rparr>" k n rest g JNull] that(2) by simp
    show ?thesis using that(3) rn unfolding unpack_value_def rb prod.case Let_def by (elim disjE conjE) simp_all
  qed
  have single: "scalar_reads (unpack_value M F X r parse AllowAll) (writeByte 0xCA @ big_endian 4 (unat (single_bits X f))) (JFloat f)"
    if "is_single X f"
    using assms that bits num [where c = "0xCA" and k = 4 and n = "unat (single_bits X f)"]
    by (intro scalar_readsI) (simp add: exact_bits_def)
  have double: "scalar_reads (unpack_value M F X r parse AllowAll) (writeByte 0xCB @ big_endian 8 (unat (double_bits X f))) (JFloat f)"
    using assms bits num [where c = "0xCB" and k = 8 and n = "unat (double_bits X f)"]
    by (intro scalar_readsI) (simp add: exact_bits_def)
  show ?thesis using single double unpack_signed [of M F X r parse]
    by (simp add: pack_float_def split: option.split)
qed

context string_memory
begin

lemma elements_unpacked:
  assumes "\<forall>w\<in>set ws. unpacks parse (fst w) (fst (snd w)) (snd (snd w))"
    and "good (j_mem s)" and "sum_list (map (\<lambda>w. SLOT_SIZE + snd (snd w)) ws) \<le> room (j_mem s)"
    and "j_in s = concat (map fst ws) @ rest" and "j_found s"
  shows "\<exists>t. readElements M parse True True (length ws) acc s = Some (Ok, acc @ map (fst \<circ> snd) ws, t) \<and> j_in t = rest \<and>
    j_found t \<and> good (j_mem t) \<and> room (j_mem s) \<le> room (j_mem t) + sum_list (map (\<lambda>w. SLOT_SIZE + snd (snd w)) ws)"
  using assms
proof (induction ws arbitrary: acc s)
  case (Cons w ws)
  obtain c v n where w: "w = (c, v, n)" by (metis prod_cases3)
  obtain ok m where sl: "addSlot M (j_mem s) = (ok, m)" by (metis surj_pair)
  have m: "ok" "good m" "room (j_mem s) \<le> room m + SLOT_SIZE"
    using slot [OF Cons.prems(2) _ sl] Cons.prems(3) w by auto
  have r: "unpacks parse c v n" using Cons.prems(1) w by simp
  let ?s = "s\<lparr>j_mem := m\<rparr>"
  obtain t where t: "parse JNull ?s = Some (Ok, v, t)" "j_in t = concat (map fst ws) @ rest" "j_found t" "good (j_mem t)"
      "room (j_mem ?s) \<le> room (j_mem t) + n"
  proof (rule unpacksD [OF r])
    show "good (j_mem ?s)" using m by simp
    show "n \<le> room (j_mem ?s)" using m(3) Cons.prems(3) w by simp
    show "j_in ?s = c @ concat (map fst ws) @ rest" using Cons.prems(4) w by simp
  qed
  have "sum_list (map (\<lambda>w. SLOT_SIZE + snd (snd w)) ws) \<le> room (j_mem t)" using m t Cons.prems(3) w by simp
  then obtain u where "readElements M parse True True (length ws) (acc @ [v]) t =
        Some (Ok, (acc @ [v]) @ map (fst \<circ> snd) ws, u)" "j_in u = rest" "j_found u" "good (j_mem u)"
      "room (j_mem t) \<le> room (j_mem u) + sum_list (map (\<lambda>w. SLOT_SIZE + snd (snd w)) ws)"
    using Cons.IH [of t "acc @ [v]"] Cons.prems(1) t by auto
  then show ?case using sl m t w by simp
qed simp

lemma members_unpacked:
  assumes "\<forall>w\<in>set ws. unpacks (parse AllowAll) (fst (snd w)) (fst (snd (snd w))) (snd (snd (snd w)))"
    and "good (j_mem s)" and "sum_list (map member_need ws) \<le> room (j_mem s)"
    and "j_in s = concat (map (\<lambda>w. pack_string (fst w) @ fst (snd w)) ws) @ rest" and "j_found s"
    and "\<forall>w\<in>set ws. NUL \<notin> set (fst w) \<and> length (fst w) < 2 ^ 32"
  shows "\<exists>t. readMembers M F parse AllowAll True (length ws) acc s = Some (Ok, acc @ map member_value ws, t) \<and>
    j_in t = rest \<and> j_found t \<and> good (j_mem t) \<and> room (j_mem s) \<le> room (j_mem t) + sum_list (map member_need ws)"
  using assms
proof (induction ws arbitrary: acc s)
  case (Cons w ws)
  obtain key c v n where w: "w = (key, c, v, n)" by (metis prod_cases4)
  let ?rest = "concat (map (\<lambda>w. pack_string (fst w) @ fst (snd w)) ws) @ rest"
  have l: "cost (length key) \<le> room (j_mem s)" "length key < 2 ^ 32" using Cons.prems(3,6) w by simp_all
  have k: "cstr key = key" using Cons.prems(6) w by (auto simp: cstr_def takeWhile_eq_all_conv)
  define s1 where "s1 = s\<lparr>j_in := c @ ?rest, j_mem := appended M key (j_mem s)\<rparr>"
  have rk: "readKey M s = (Ok, s1)" unfolding s1_def
    by (rule readKey_written [OF l(2) Cons.prems(2) l(1)]) (use Cons.prems(4) w in simp)
  obtain y m where sv: "save M (appended M key (j_mem s)) = (y, m)" by (metis surj_pair)
  note m = saved [OF Cons.prems(2) l(1) sv]
  obtain ok m' where sl: "addSlot M m = (ok, m')" by (metis surj_pair)
  have sz: "SLOT_SIZE \<le> room m" using m Cons.prems(3) w by simp
  note m' = slot [OF conjunct1 [OF conjunct2 [OF m]] sz sl]
  let ?u = "s1\<lparr>j_mem := m'\<rparr>"
  have r: "unpacks (parse AllowAll) c v n" using Cons.prems(1) w by simp
  obtain t where t: "parse AllowAll JNull ?u = Some (Ok, v, t)" "j_in t = ?rest" "j_found t" "good (j_mem t)"
      "room (j_mem ?u) \<le> room (j_mem t) + n"
  proof (rule unpacksD [OF r])
    show "good (j_mem ?u)" using m' by simp
    show "n \<le> room (j_mem ?u)" using m m' Cons.prems(3) w by simp
    show "j_in ?u = c @ ?rest" by (simp add: s1_def)
  qed
  have "sum_list (map member_need ws) \<le> room (j_mem t)" using m m' t Cons.prems(3) w by simp
  then obtain u where "readMembers M F parse AllowAll True (length ws) (acc @ [(key, v)]) t =
        Some (Ok, (acc @ [(key, v)]) @ map member_value ws, u)" "j_in u = rest" "j_found u" "good (j_mem u)"
      "room (j_mem t) \<le> room (j_mem u) + sum_list (map member_need ws)"
    using Cons.IH [of t "acc @ [(key, v)]"] Cons.prems(1,6) t by auto
  moreover have "save_string M s1 = (key, s1\<lparr>j_mem := m\<rparr>)" using sv m by (simp add: save_string_def s1_def)
  ultimately show ?case using sl m m' t w rk k by (simp add: Let_def)
qed simp

lemma unpack_scalar:
  assumes "exact_bits X" and "packable v" and "depth v = 0"
  shows "unpacks (unpack_value M F X r parse AllowAll) (serializeMsgPack X v) (unpacked X v) (need cost v)"
proof (cases v)
  case JNull
  have "scalar_reads (unpack_value M F X r parse AllowAll) (writeByte 0xC0) JNull"
    by (rule scalar_readsI) (simp add: unpack_value_def writeByte_here [of _ "0xC0"])
  then show ?thesis using JNull unpacks_scalar by simp
next
  case (JBool b)
  have "scalar_reads (unpack_value M F X r parse AllowAll) (writeByte (if b then 0xC3 else 0xC2)) (JBool b)"
    by (rule scalar_readsI) (cases b; simp add: unpack_value_def writeByte_here [of _ "0xC3"] writeByte_here [of _ "0xC2"])
  then show ?thesis using JBool unpacks_scalar by (cases b) simp_all
next
  case (JUnsigned n)
  then show ?thesis using unpacks_scalar [OF unpack_unsigned] by simp
next
  case (JSigned n)
  then show ?thesis using unpacks_scalar [OF unpack_signed] by simp
next
  case (JFloat f)
  show ?thesis unfolding JFloat serializeMsgPack.simps by (rule unpacks_scalar [OF unpack_float [OF assms(1)]])
next
  case (JString x)
  then show ?thesis using assms(2) unpack_string [of x] by simp
qed (use assms in auto)

lemma unpack_array:
  assumes "\<forall>v\<in>set vs. unpacks (parse AllowAll) (serializeMsgPack X v) (unpacked X v) (need cost v)" and "length vs < 2 ^ 32"
  shows "unpacks (unpack_value M F X False parse AllowAll) (serializeMsgPack X (JArray vs)) (unpacked X (JArray vs))
    (need cost (JArray vs))"
  unfolding unpacks_def
proof (intro allI impI)
  fix s :: "'m jstate" and rest
  assume a: "good (j_mem s)" "need cost (JArray vs) \<le> room (j_mem s)" "j_in s = serializeMsgPack X (JArray vs) @ rest"
  let ?ws = "map (\<lambda>v. (serializeMsgPack X v, unpacked X v, need cost v)) vs"
  let ?s = "s\<lparr>j_in := concat (map fst ?ws) @ rest, j_found := True\<rparr>"
  have "unpack_value M F X False parse AllowAll JNull s = readArray M F False parse AllowAll (length vs) JNull ?s"
    by (rule array_head [OF assms(2)]) (use a in \<open>simp add: comp_def\<close>)
  then show "\<exists>t. unpack_value M F X False parse AllowAll JNull s = Some (Ok, unpacked X (JArray vs), t) \<and> j_in t = rest \<and>
      j_found t \<and> good (j_mem t) \<and> room (j_mem s) \<le> room (j_mem t) + need cost (JArray vs)"
    using elements_unpacked [of ?ws "parse AllowAll" ?s rest "[]"] assms(1) a by (auto simp: readArray_def comp_def)
qed

lemma unpack_object:
  assumes "\<forall>m\<in>set ms. NUL \<notin> set (fst m) \<and> length (fst m) < 2 ^ 32 \<and>
      unpacks (parse AllowAll) (serializeMsgPack X (snd m)) (unpacked X (snd m)) (need cost (snd m))"
    and "length ms < 2 ^ 32"
  shows "unpacks (unpack_value M F X False parse AllowAll) (serializeMsgPack X (JObject ms)) (unpacked X (JObject ms))
    (need cost (JObject ms))"
  unfolding unpacks_def
proof (intro allI impI)
  fix s :: "'m jstate" and rest
  assume a: "good (j_mem s)" "need cost (JObject ms) \<le> room (j_mem s)" "j_in s = serializeMsgPack X (JObject ms) @ rest"
  let ?ws = "map (\<lambda>(k, v). (k, serializeMsgPack X v, unpacked X v, need cost v)) ms"
  let ?s = "s\<lparr>j_in := concat (map (\<lambda>w. pack_string (fst w) @ fst (snd w)) ?ws) @ rest, j_found := True\<rparr>"
  have key: "cstr (fst m) = fst m" if "m \<in> set ms" for m
    using assms(1) that by (auto simp: cstr_def takeWhile_eq_all_conv)
  have "concat (map (\<lambda>(k, v). pack_string (cstr k) @ serializeMsgPack X v) ms) =
      concat (map (\<lambda>w. pack_string (fst w) @ fst (snd w)) ?ws)"
    using key by (auto simp: comp_def case_prod_unfold intro!: arg_cong [where f = concat])
  then have "unpack_value M F X False parse AllowAll JNull s = readObject M F False parse AllowAll (length ms) JNull ?s"
    by (intro object_head [OF assms(2)]) (use a in simp)
  moreover have "sum_list (map member_need ?ws) = need cost (JObject ms)" by (simp add: comp_def case_prod_unfold)
  ultimately show "\<exists>t. unpack_value M F X False parse AllowAll JNull s = Some (Ok, unpacked X (JObject ms), t) \<and> j_in t = rest \<and>
      j_found t \<and> good (j_mem t) \<and> room (j_mem s) \<le> room (j_mem t) + need cost (JObject ms)"
    using members_unpacked [of ?ws parse ?s rest F "[]"] assms(1) a
    by (auto simp: readObject_def comp_def case_prod_unfold simp del: need.simps)
qed

lemma unpack_document:
  assumes "exact_bits X"
  shows "packable v \<Longrightarrow> depth v \<le> n \<Longrightarrow>
    unpacks (unpackVariant M F X n AllowAll) (serializeMsgPack X v) (unpacked X v) (need cost v)"
proof (induction n arbitrary: v)
  case 0
  then show ?case unfolding unpackVariant.simps by (intro unpack_scalar assms) auto
next
  case (Suc n)
  show ?case
  proof (cases v)
    case (JArray vs)
    then show ?thesis using Suc.prems Suc.IH unfolding unpackVariant.simps depth_le JArray
      by (intro unpack_array) auto
  next
    case (JObject ms)
    then show ?thesis using Suc.prems Suc.IH unfolding unpackVariant.simps depth_le JObject
      by (intro unpack_object) auto
  qed (use Suc.prems assms in \<open>auto simp del: serializeMsgPack.simps unpacked.simps need.simps intro!: unpack_scalar\<close>)
qed

end

end
