(* ===== verification/JsonMsgPack_Frame.thy ===== *)
theory JsonMsgPack_Frame
  imports JsonRound JsonMsgPack
begin

text \<open>
  What the MessagePack deserializer does whatever the input: its functions are made of the same steps as those of
  the JSON parser, and it calls through no null pointer unless the filter has a wildcard.
\<close>

section \<open>What every function does to its state\<close>

context parser_frame
begin

lemma R_readByte:
  assumes "readByte s = (e, n, t)"
  shows "R 0 s t \<and> j_mem t = j_mem s \<and> (e = Ok \<longrightarrow> R 1 s t)"
  using assms R_refl R_drop [of _ 1 s] by (auto simp: readByte_def consume_def split: list.splits)

lemma R_readBytes: "readBytes n s = (e, bs, t) \<Longrightarrow> R 0 s t \<and> j_mem t = j_mem s"
  using R_drop [of 0 "min n (length (j_in s))" s]
  by (auto simp: readBytes_def consume_def Let_def min_def split: if_splits)

lemma R_readInteger: "readInteger k s = (e, n, t) \<Longrightarrow> R 0 s t \<and> j_mem t = j_mem s"
  using R_readBytes [of k s] by (auto simp: readInteger_def split: prod.splits)

lemma R_skipBytes: "skipBytes n s = (e, t) \<Longrightarrow> R 0 s t"
proof (induction n s rule: skipBytes.induct)
  case (2 n s)
  then show ?case using R_refl R_trans0 [OF R_drop [of 0 1 s]]
    by (auto simp: consume_def split: list.splits)
qed (use R_refl in simp)

lemma R_skipString: "skipString k s = (e, t) \<Longrightarrow> R 0 s t"
  using R_readInteger [of k s] R_skipBytes R_trans0 by (fastforce simp: skipString_def split: prod.splits if_splits)

lemma R_skipExt: "skipExt k s = (e, t) \<Longrightarrow> R 0 s t"
  using R_readInteger [of k s] R_skipBytes R_trans0 by (fastforce simp: skipExt_def split: prod.splits if_splits)

lemma R_read_number: "read_number k f v s = (e, v', t) \<Longrightarrow> R 0 s t"
  using R_readInteger [of k s] by (fastforce simp: read_number_def split: prod.splits if_splits)


lemma R_readChars: "readChars M n s = (e, t) \<Longrightarrow> ready (j_mem s) \<Longrightarrow> R 0 s t \<and> ready (j_mem t)"
proof (induction n arbitrary: s)
  case (Suc n)
  show ?case
  proof (cases "j_in s")
    case Nil
    then show ?thesis using Suc.prems R_drop [of 0 0 s] by (auto simp: readBytes_def consume_def)
  next
    case (Cons c cs)
    let ?u = "appendc M c (s\<lparr>j_in := cs\<rparr>)"
    have "R 0 s ?u" using R_consume [of "[c]" 0 1 s] Suc.prems(2) Cons by (simp add: append_all_def consume_def appendc_def)
    moreover have "ready (j_mem ?u)" using Suc.prems(2) by (simp add: appendc_def ready_append)
    moreover have "readChars M n ?u = (e, t)" using Suc.prems(1) Cons by (simp add: readBytes_def)
    ultimately show ?thesis using Suc.IH R_trans0 by blast
  qed
qed (use R_refl in simp)

lemma R_readString:
  assumes "readString M n s = (e, t)"
  shows "R 0 s t \<and> (e = Ok \<longrightarrow> ready (j_mem t) \<and> isValid M (j_mem t))"
proof -
  have r: "ready (j_mem (start_string M s))" by (simp add: start_string_def ready_start)
  show ?thesis using assms R_readChars [OF _ r] R_trans0 [OF R_start]
    by (fastforce simp: readString_def split: prod.splits if_splits)
qed

lemma R_readString_sized:
  assumes "readString_sized M k s = (e, t)"
  shows "R 0 s t \<and> (e = Ok \<longrightarrow> ready (j_mem t) \<and> isValid M (j_mem t))"
  using assms R_readInteger [of k s] R_readString R_trans0
  by (fastforce simp: readString_sized_def split: prod.splits if_splits)

lemma R_store:
  assumes "R 1 s0 s" and "R 0 s t" and "err = Ok \<longrightarrow> ready (j_mem t) \<and> isValid M (j_mem t)"
    and "store_string M v (err, t) = (e, v', u)"
  shows "R 0 s0 u"
  using assms R_trans1(1) [OF assms(1,2)] R_weak R_save [of s0 t]
  by (auto simp: store_string_def split: if_splits prod.splits)

lemma R_readKey:
  assumes "readKey M s = (e, t)"
  shows "R 0 s t \<and> (e = Ok \<longrightarrow> R 1 s t \<and> ready (j_mem t) \<and> isValid M (j_mem t))"
proof -
  obtain e1 c s1 where 1: "readByte s = (e1, c, s1)" by (metis prod_cases3)
  show ?thesis
  proof (cases "e1 = Ok")
    case True
    then have r: "R 1 s s1" using R_readByte [OF 1] by blast
    then show ?thesis
      using assms 1 True R_readString R_readString_sized R_trans1(1) [OF r] R_weak
      by (auto simp: readKey_def split: if_splits) 
  next
    case False
    then show ?thesis using assms 1 R_readByte [OF 1] by (simp add: readKey_def)
  qed
qed

definition unpacks_within :: "('f jvariant \<Rightarrow> 'm jstate \<Rightarrow> (code \<times> 'f jvariant \<times> 'm jstate) option) \<Rightarrow> bool" where
  "unpacks_within f \<longleftrightarrow> (\<forall>v s e v' t. f v s = Some (e, v', t) \<longrightarrow> R 0 s t)"

lemma R_readElements:
  assumes p: "unpacks_within parse"
  shows "readElements M parse here b n vs s = Some (e, vs', t) \<Longrightarrow> R 0 s t"
proof (induction n arbitrary: vs s)
  case (Suc n)
  obtain ok m where sl: "addSlot M (j_mem s) = (ok, m)" by (metis surj_pair)
  note m = R_slot [OF sl]
  show ?case
  proof (cases b)
    case True
    then show ?thesis using Suc.prems sl m p R_trans0 [OF m] R_trans0 Suc.IH
      by (auto simp: unpacks_within_def split: if_splits option.splits; meson R_trans0)
  next
    case False
    then show ?thesis using Suc.prems p Suc.IH
      by (auto simp: unpacks_within_def split: if_splits option.splits; meson R_trans0)
  qed
qed (use R_refl in simp)

lemma R_readMembers:
  assumes p: "\<And>flt. unpacks_within (parse flt)"
  shows "readMembers M F parse flt here n ms s = Some (e, ms', t) \<Longrightarrow> R 0 s t"
proof (induction n arbitrary: ms s)
  case (Suc n)
  obtain e1 s1 where 1: "readKey M s = (e1, s1)" by (metis surj_pair)
  note k = R_readKey [OF 1]
  obtain x s2 where 2: "save_string M s1 = (x, s2)" by (metis surj_pair)
  obtain ok m where sl: "addSlot M (j_mem s2) = (ok, m)" by (metis surj_pair)
  have pd: "parse flt v s = Some (e, v', t) \<Longrightarrow> R 0 s t" for flt v s e v' t using p by (simp add: unpacks_within_def)
  show ?case
  proof (cases "e1 = Ok")
    case True
    then have s2: "R 0 s s2" using R_save [of s s1] k 2 by blast
    note m = R_trans0 [OF s2 R_slot [OF sl]]
    show ?thesis using Suc.prems 1 True k 2 sl m pd Suc.IH
      by (auto simp: Let_def split: if_splits option.splits; meson R_trans0)
  next
    case False
    then show ?thesis using Suc.prems 1 k by simp
  qed
qed (use R_refl in simp)

lemma R_readArray:
  assumes "\<And>flt. unpacks_within (parse flt)" and "readArray M F r parse flt n v s = Some (e, v', t)"
  shows "R 0 s t"
  using assms R_readElements [OF assms(1)] R_refl by (auto simp: readArray_def Let_def split: if_splits)

lemma R_readObject:
  assumes "\<And>flt. unpacks_within (parse flt)" and "readObject M F r parse flt n v s = Some (e, v', t)"
  shows "R 0 s t"
  using assms R_readMembers [OF assms(1)] R_refl by (auto simp: readObject_def Let_def split: if_splits)

lemma R_sized:
  assumes "\<And>n v s e v' t. f n v s = Some (e, v', t) \<Longrightarrow> R 0 s t" and "sized k f v s = Some (e, v', t)"
  shows "R 0 s t"
  using assms R_readInteger [of k s] R_trans0 by (fastforce simp: sized_def split: prod.splits if_splits)

text \<open>The branches of \<open>parseVariant\<close> behind its code byte.\<close>

definition stays :: "'m jstate \<Rightarrow> (code \<times> 'f jvariant \<times> 'm jstate) option \<Rightarrow> bool" where
  "stays s r \<longleftrightarrow> (\<forall>e v t. r = Some (e, v, t) \<longrightarrow> R 0 s t)"

lemma stays_if: "stays s a \<Longrightarrow> stays s b \<Longrightarrow> stays s (if c then a else b)"
  by simp

lemma unpack_value_within:
  assumes p: "\<And>flt. unpacks_within (parse flt)"
  shows "stays s (unpack_value M F X r parse flt v s)"
proof -
  obtain e1 c s1 where 1: "readByte s = (e1, c, s1)" by (metis prod_cases3)
  show ?thesis
  proof (cases "e1 = Ok")
    case True
    let ?s = "s1\<lparr>j_found := True\<rparr>"
    have r1: "R 1 s ?s" using R_readByte [OF 1] True R_trans1(1) [OF _ R_found] by blast
    note r = R_trans0 [OF R_weak [OF r1]]
    have leaf: "stays s (Some (e, w, ?s))" for e and w :: "'f jvariant" using R_weak [OF r1] by (simp add: stays_def)
    have skip: "stays s (case q of (err, s) \<Rightarrow> Some (err, v, s))"
      if "\<And>e t. q = (e, t) \<Longrightarrow> R 0 ?s t" for q using that r by (cases q) (auto simp: stays_def)
    have num: "stays s (Some (read_number k f v ?s))" for k f using r R_read_number by (fastforce simp: stays_def)
    have texts: "stays s (Some (store_string M v q))"
      if "\<And>e t. q = (e, t) \<Longrightarrow> R 0 ?s t \<and> (e = Ok \<longrightarrow> ready (j_mem t) \<and> isValid M (j_mem t))" for q
      using that R_store [OF r1] by (cases q) (fastforce simp: stays_def)
    have arr: "R 0 u t" if "readArray M F r parse flt n v u = Some (e, v', t)" for n v u e v' t
      using R_readArray [OF p that] .
    have obj: "R 0 u t" if "readObject M F r parse flt n v u = Some (e, v', t)" for n v u e v' t
      using R_readObject [OF p that] .
    have col: "stays s (readArray M F r parse flt k v ?s)" "stays s (readObject M F r parse flt k v ?s)" for k
      unfolding stays_def using arr obj r by blast+
    have col_sized: "stays s (sized k (readArray M F r parse flt) v ?s)" "stays s (sized k (readObject M F r parse flt) v ?s)" for k
      unfolding stays_def by (intro allI impI r; erule R_sized [rotated]; erule arr obj)+
    show ?thesis unfolding unpack_value_def 1 prod.case Let_def
      by (simp only: True simp_thms if_True if_False,
        (rule stays_if leaf num col col_sized skip texts R_skipBytes R_skipString R_skipExt R_readString R_readString_sized | assumption)+)
  next
    case False
    then show ?thesis using R_readByte [OF 1] by (simp add: unpack_value_def 1 stays_def)
  qed
qed

lemma unpackVariant_within: "unpacks_within (unpackVariant M F X n flt)"
proof (induction n arbitrary: flt)
  case 0
  have "unpacks_within (\<lambda>v s. Some (TooDeep, v, s))" by (auto simp: unpacks_within_def R_refl)
  then show ?case using unpack_value_within [of "\<lambda>_ v s. Some (TooDeep, v, s)" _ F X True flt]
    by (simp add: unpacks_within_def stays_def)
next
  case (Suc n)
  then show ?case using unpack_value_within [of "unpackVariant M F X n" _ F X False flt]
    by (simp add: unpacks_within_def stays_def)
qed

lemma unpackVariant_step: "unpackVariant M F X n flt v s = Some (e, v', t) \<Longrightarrow> R 0 s t"
  using unpackVariant_within unfolding unpacks_within_def by blast

end

section \<open>No call through a null pointer\<close>

fun wildcard_free :: "'f jvariant \<Rightarrow> bool" where
  "wildcard_free (JArray vs) = (\<forall>v\<in>set vs. wildcard_free v)"
| "wildcard_free (JObject ms) = (\<forall>m\<in>set ms. fst m \<noteq> ''*'' \<and> wildcard_free (snd m))"
| "wildcard_free _ = True"

fun plain_filter :: "'f jfilter \<Rightarrow> bool" where
  "plain_filter AllowAll = True"
| "plain_filter (Filter v) = wildcard_free v"

lemma getMember_in: "getMember k ms = Some v \<Longrightarrow> (cstr k, v) \<in> set ms"
  by (auto simp: getMember_def dest: map_of_SomeD)

lemma wildcard_free_parts:
  assumes "wildcard_free v"
  shows "wildcard_free (variant_element i v)" "wildcard_free (variant_member k v)" "variant_member ''*'' v = JNull"
proof -
  show "wildcard_free (variant_element i v)" using assms by (cases v) auto
  show "wildcard_free (variant_member k v)"
  proof (cases v)
    case (JObject ms)
    then show ?thesis using assms getMember_in [of k ms] by (cases "getMember k ms") fastforce+
  qed simp_all
  have star: "cstr ''*'' = ''*''" by (simp add: cstr_def)
  show "variant_member ''*'' v = JNull"
  proof (cases v)
    case (JObject ms)
    have "getMember ''*'' ms = None"
    proof (rule ccontr)
      assume "getMember ''*'' ms \<noteq> None"
      then obtain w where "getMember ''*'' ms = Some w" by blast
      from getMember_in [OF this] have "(''*'', w) \<in> set ms" unfolding star .
      moreover have "\<forall>m\<in>set ms. fst m \<noteq> ''*''" using assms unfolding JObject wildcard_free.simps by blast
      ultimately show False by (metis fst_conv)
    qed
    then show ?thesis by (simp add: JObject)
  qed simp_all
qed

lemma plain_filter_parts:
  assumes "plain_filter flt"
  shows "plain_filter (elementFilter F flt)" "plain_filter (memberFilter F k flt)"
proof -
  have "plain_filter (elementFilter F flt) \<and> plain_filter (memberFilter F k flt)"
  proof (cases flt)
    case (Filter v)
    then have v: "wildcard_free v" using assms by simp
    show ?thesis
      using v wildcard_free_parts(1) [OF v, of 0] wildcard_free_parts(2) [OF v, of k]
      by (simp add: Filter wildcard_def wildcard_free_parts(3) [OF v])
  qed simp
  then show "plain_filter (elementFilter F flt)" "plain_filter (memberFilter F k flt)" by simp_all
qed

lemma unwanted_parts:
  assumes "plain_filter flt"
  shows "\<not> allowArray F flt \<Longrightarrow> \<not> allow F (elementFilter F flt)"
    and "\<not> allowObject F flt \<Longrightarrow> \<not> allow F (memberFilter F k flt)"
proof -
  show "\<not> allow F (elementFilter F flt)" if "\<not> allowArray F flt"
  proof (cases flt)
    case (Filter v)
    then have "variant_element 0 v = JNull" using that by (cases v) auto
    then show ?thesis using Filter that assms wildcard_free_parts(3) [of v] by (simp add: wildcard_def)
  qed (use that in simp)
  show "\<not> allow F (memberFilter F k flt)" if "\<not> allowObject F flt"
  proof (cases flt)
    case (Filter v)
    then have "variant_member k v = JNull" using that by (cases v) auto
    then show ?thesis using Filter that assms wildcard_free_parts(3) [of v] by (simp add: wildcard_def)
  qed (use that in simp)
qed

lemma readElements_some:
  assumes "\<And>v s. parse v s \<noteq> None" and "here \<or> \<not> b"
  shows "readElements M parse here b n vs s \<noteq> None"
proof -
  define f where "f v s = the (parse v s)" for v s
  have f: "parse v s = Some (f v s)" for v s using assms(1) [of v s] by (auto simp: f_def)
  show ?thesis using assms(2) by (induction n arbitrary: vs s) (auto simp: f split: prod.split)
qed

lemma readMembers_some:
  assumes "\<And>k v s. parse (memberFilter F k flt) v s \<noteq> None" and "\<And>k. here \<or> \<not> allow F (memberFilter F k flt)"
  shows "readMembers M F parse flt here n ms s \<noteq> None"
proof -
  define f where "f k v s = the (parse (memberFilter F k flt) v s)" for k v s
  have f: "parse (memberFilter F k flt) v s = Some (f k v s)" for k v s using assms(1) [of k v s] by (auto simp: f_def)
  show ?thesis using assms(2)
    by (induction n arbitrary: ms s) (auto simp: f Let_def split: prod.split)
qed

lemma collections_some:
  assumes "\<And>flt v s. plain_filter flt \<Longrightarrow> parse flt v s \<noteq> None" and "plain_filter flt"
  shows "readArray M F r parse flt n v s \<noteq> None" "readObject M F r parse flt n v s \<noteq> None"
proof -
  have "readElements M (parse (elementFilter F flt)) (allowArray F flt) (allow F (elementFilter F flt)) n [] s \<noteq> None"
    by (rule readElements_some) (use assms plain_filter_parts unwanted_parts in blast)+
  then show "readArray M F r parse flt n v s \<noteq> None" by (simp add: readArray_def Let_def del: not_None_eq)
  have "readMembers M F parse flt (allowObject F flt) n [] s \<noteq> None"
    by (rule readMembers_some) (use assms plain_filter_parts unwanted_parts in blast)+
  then show "readObject M F r parse flt n v s \<noteq> None" by (simp add: readObject_def Let_def del: not_None_eq)
qed

lemma unpack_value_some:
  assumes "\<And>flt v s. plain_filter flt \<Longrightarrow> parse flt v s \<noteq> None" and "plain_filter flt"
  shows "unpack_value M F X r parse flt v s \<noteq> None"
proof -
  obtain e c s1 where 1: "readByte s = (e, c, s1)" by (metis prod_cases3)
  have d: "a \<noteq> None \<Longrightarrow> b \<noteq> None \<Longrightarrow> (if q then a else b) \<noteq> None" for q and a b :: "'z option" by simp
  have skip: "(case q of (err, s) \<Rightarrow> Some (err, v, s)) \<noteq> None" for q :: "code \<times> 'b jstate" by (cases q) simp
  have sz: "sized k (readArray M F r parse flt) v s \<noteq> None" "sized k (readObject M F r parse flt) v s \<noteq> None" for k s
    using collections_some [OF assms] by (simp_all add: sized_def split: prod.split)
  show ?thesis unfolding unpack_value_def 1 prod.case Let_def
    by (rule d skip option.distinct(2) collections_some [OF assms] sz | assumption)+
qed

lemma unpackVariant_some: "plain_filter flt \<Longrightarrow> unpackVariant M F X n flt v s \<noteq> None"
proof (induction n arbitrary: flt v s)
  case 0
  then show ?case unfolding unpackVariant.simps by (intro unpack_value_some) auto
next
  case (Suc n)
  then show ?case unfolding unpackVariant.simps by (intro unpack_value_some)
qed

end
