(* ===== verification/JsonMsgPack_Props.thy ===== *)
theory JsonMsgPack_Props
  imports JsonMsgPack_Round JsonMsgPack_Frame
begin

text \<open>The properties of the MessagePack half, and numbers to evaluate them on.\<close>

section \<open>Numbers for the witnesses\<close>

text \<open>Bit patterns for numbers; those below \<open>2 ^ 32\<close> count as single, those below 1000 as integral.\<close>

definition word_floats :: "u64 float_ops" where
  "word_floats = \<lparr>make_float = (\<lambda>m e. m), neg_float = uminus, inf_float = 0, zero_float = 0,
     float_nonzero = (\<lambda>f. f \<noteq> 0), float_is_one = (\<lambda>f. f = 1)\<rparr>"

definition word_bits :: "u64 float_bits" where
  "word_bits = \<lparr>is_single = (\<lambda>f. f < 0x100000000), integral = (\<lambda>f. if f < 1000 then Some f else None),
     single_bits = (\<lambda>f. word_of_nat (unat f)), double_bits = (\<lambda>f. f), of_single = (\<lambda>b. word_of_nat (unat b)),
     of_double = (\<lambda>b. b)\<rparr>"

lemma word_bits_exact: "exact_bits word_bits"
proof -
  have "word_of_nat (unat (word_of_nat (unat f) :: u32)) = f" if "f < 0x100000000" for f :: u64
  proof -
    have "unat f < 2 ^ 32" using that by (simp add: word_less_nat_alt)
    then have "unat (word_of_nat (unat f) :: u32) = unat f" by (simp only: unat_of_nat) (simp add: take_bit_nat_eq_self)
    then show ?thesis by (simp only:) simp
  qed
  then show ?thesis by (simp add: exact_bits_def word_bits_def)
qed

section \<open>The round trip\<close>

text \<open>
  C32. A document without raw text, whose keys are free of NUL and whose lengths fit into 32 bits, not deeper than
  the nesting limit and not larger than the pool, comes back from its own MessagePack bytes: reading succeeds, with
  the strings copied or in place, and gives the same tree, in which a small or positive number may have changed its
  class and a float with an integral value has become that integer. Assumed of the IEEE numbers is that their bit
  patterns give them back.
\<close>

theorem msgpack_roundtrip:
  assumes "packable v" and "depth v \<le> limit" and "exact_bits X"
  shows "(need Suc v \<le> p_end p \<longrightarrow>
      (\<exists>q. deserializeMsgPack F X limit AllowAll (serializeMsgPack X v) p = Some (Ok, unpacked X v, q))) \<and>
    (need (\<lambda>_. 0) v \<le> p_end p \<longrightarrow>
      (\<exists>q. deserializeMsgPack_inplace F X limit AllowAll (serializeMsgPack X v) p = Some (Ok, unpacked X v, q)))"
proof (intro conjI impI)
  let ?s = "\<lparr>j_in = serializeMsgPack X v, j_found = False,
    j_mem = \<lparr>c_pool = clear_pool p, c_text = [], c_capacity = 0\<rparr>\<rparr>"
  assume "need Suc v \<le> p_end p"
  then obtain t where "unpackVariant copier_ops F X limit AllowAll JNull ?s = Some (Ok, unpacked X v, t)" "j_found t"
    using copied.unpacksD [OF copied.unpack_document [OF assms(3,1,2)], of ?s "[]" F]
    by (auto simp: copier_good_def)
  then show "\<exists>q. deserializeMsgPack F X limit AllowAll (serializeMsgPack X v) p = Some (Ok, unpacked X v, q)"
    by (simp add: deserializeMsgPack_def parse_msgpack_def)
next
  let ?s = "\<lparr>j_in = serializeMsgPack X v, j_found = False,
    j_mem = \<lparr>m_pool = clear_pool p, m_text = [], m_write = 0\<rparr>\<rparr>"
  assume "need (\<lambda>_. 0) v \<le> p_end p"
  then obtain t where "unpackVariant mover_ops F X limit AllowAll JNull ?s = Some (Ok, unpacked X v, t)" "j_found t"
    using in_place.unpacksD [OF in_place.unpack_document [OF assms(3,1,2)], of ?s "[]" F] by auto
  then show "\<exists>q. deserializeMsgPack_inplace F X limit AllowAll (serializeMsgPack X v) p = Some (Ok, unpacked X v, q)"
    by (simp add: deserializeMsgPack_inplace_def parse_msgpack_def)
qed

definition packed_doc :: "u64 jvariant" where
  "packed_doc = JObject [(''a'', JArray [JSigned (- 5), JBool True, JNull, JUnsigned 300, JFloat 7, JFloat 0x4000000000000000]),
     (''b'', JString ''xy'')]"

theorem msgpack_roundtrip_witness:
  "\<exists>q. deserializeMsgPack word_floats word_bits 2 AllowAll (serializeMsgPack word_bits packed_doc) (new_pool 300) =
    Some (Ok, unpacked word_bits packed_doc, q)"
proof -
  have "packable packed_doc" "depth packed_doc \<le> 2" "need Suc packed_doc \<le> p_end (new_pool 300)"
    by (simp_all add: packed_doc_def new_pool_def SLOT_SIZE_def)
  then show ?thesis using msgpack_roundtrip [of packed_doc 2 word_bits "new_pool 300" word_floats] word_bits_exact by blast
qed

section \<open>Whatever the input\<close>

text \<open>
  Whatever the bytes and the filter, reading MessagePack leaves a pool whose strings and slots do not overlap and
  do not leave its memory; and in place it never writes over bytes it has not read: while a value is read, at
  whatever depth and from whatever state, the write offset and the unread rest together never get longer.
\<close>

theorem msgpack_memory_safe:
  "(case deserializeMsgPack F X limit flt inp p of None \<Rightarrow> True | Some (e, v, q) \<Rightarrow> pool_inv q \<and> p_end q = p_end p) \<and>
   (case unpackVariant mover_ops F X n flt w s of None \<Rightarrow> True | Some (e, v, t) \<Rightarrow>
      m_write (j_mem t) + length (j_in t) \<le> m_write (j_mem s) + length (j_in s))"
proof
  let ?s = "\<lparr>j_in = inp, j_found = False, j_mem = \<lparr>c_pool = clear_pool p, c_text = [], c_capacity = 0\<rparr>\<rparr>"
  show "case deserializeMsgPack F X limit flt inp p of None \<Rightarrow> True | Some (e, v, q) \<Rightarrow> pool_inv q \<and> p_end q = p_end p"
  proof (cases "unpackVariant copier_ops F X limit flt JNull ?s")
    case (Some r)
    obtain e v t where r: "r = (e, v, t)" by (metis prod_cases3)
    have "copier_keeps 0 ?s t" using copier_pool.unpackVariant_step [of F X limit flt JNull ?s e v t] Some r by simp
    then show ?thesis using Some r
      by (simp add: copier_keeps_def deserializeMsgPack_def parse_msgpack_def)
  qed (simp add: deserializeMsgPack_def parse_msgpack_def)
  show "case unpackVariant mover_ops F X n flt w s of None \<Rightarrow> True | Some (e, v, t) \<Rightarrow>
      m_write (j_mem t) + length (j_in t) \<le> m_write (j_mem s) + length (j_in s)"
    using mover_place.unpackVariant_step [of F X n flt w s]
    by (fastforce simp: mover_keeps_def split: option.split)
qed

text \<open>
  C33. Without a wildcard in the filter, or without a filter, reading MessagePack always returns: whatever the bytes,
  the depth and the memory, no collection is used through a null pointer.
\<close>

theorem msgpack_returns:
  assumes "plain_filter flt"
  shows "\<exists>e v q. deserializeMsgPack F X limit flt inp p = Some (e, v, q)"
proof -
  have "deserializeMsgPack F X limit flt inp p \<noteq> None"
    using unpackVariant_some [OF assms] by (simp add: deserializeMsgPack_def parse_msgpack_def del: not_None_eq)
  then show ?thesis by auto
qed

theorem msgpack_returns_witness:
  "\<exists>e v q. deserializeMsgPack word_floats word_bits 2 (Filter (JObject [(''a'', JBool True)])) [CHR 0x93, CHR 0xC1]
     (new_pool 64) = Some (e, v, q)"
  by (rule msgpack_returns) simp

text \<open>
  C34. With a wildcard in the filter, the first element of any array is added through a null pointer. The filter is an
  object, so it does not allow an array and there is none to add to; but its wildcard allows the elements.
\<close>

theorem msgpack_wildcard_null:
  assumes "asBoolean F w" and "w \<noteq> JNull" and "0 < n" and "n < 2 ^ 32"
  shows "deserializeMsgPack F X (Suc limit) (Filter (JObject [(''*'', w)])) (pack_array_size n @ inp) p = None"
proof -
  have "readArray copier_ops F False (unpackVariant copier_ops F X limit) (Filter (JObject [(''*'', w)])) n JNull s = None" for s
    using assms by (cases n) (simp_all add: readArray_def wildcard_def getMember_def cstr_def)
  then show ?thesis using assms(4)
    by (simp add: deserializeMsgPack_def parse_msgpack_def array_head [where n = n and rest = inp])
qed

theorem msgpack_wildcard_null_witness:
  "deserializeMsgPack word_floats word_bits 10 (Filter (JObject [(''*'', JBool True)])) (pack_array_size 1 @ ''*'') (new_pool 64) = None"
  using msgpack_wildcard_null [of word_floats "JBool True" 1 word_bits 9] by simp

lemma skipBytes_short:
  "length (j_in s) < n \<Longrightarrow> j_found s \<Longrightarrow> \<exists>t. skipBytes n s = (IncompleteInput, t) \<and> j_found t"
  by (induction n s rule: skipBytes.induct) (auto split: list.split)

text \<open>
  An extension of the largest size is taken for an empty one: the size plus one for the type byte wraps to zero,
  so that nothing is skipped and the reading succeeds, where an extension one byte smaller is found to be incomplete.
\<close>

theorem msgpack_ext_size_wraps:
  "(\<exists>q. deserializeMsgPack F X limit flt (writeByte 0xC9 @ big_endian 4 0xFFFFFFFF @ inp) p = Some (Ok, JNull, q)) \<and>
   (length inp < 0xFFFFFFFF \<longrightarrow>
     (\<exists>q. deserializeMsgPack F X limit flt (writeByte 0xC9 @ big_endian 4 0xFFFFFFFE @ inp) p = Some (IncompleteInput, JNull, q)))"
proof
  let ?s = "\<lambda>n. \<lparr>j_in = writeByte 0xC9 @ big_endian 4 n @ inp, j_found = False,
    j_mem = \<lparr>c_pool = clear_pool p, c_text = [], c_capacity = 0\<rparr>\<rparr>"
  have ext: "unpackVariant copier_ops F X limit flt JNull (?s n) =
      (case skipBytes (unat (word_of_nat n + 1 :: u32)) (?s n\<lparr>j_in := inp, j_found := True\<rparr>) of (e, t) \<Rightarrow> Some (e, JNull, t))"
    if "n < 2 ^ 32" for n
  proof -
    have rb: "readByte (?s n) = (Ok, 0xC9, ?s n\<lparr>j_in := big_endian 4 n @ inp\<rparr>)" by (rule writeByte_here) simp_all
    have "skipExt 4 (?s n\<lparr>j_in := big_endian 4 n @ inp, j_found := True\<rparr>) =
        skipBytes (unat (word_of_nat n + 1 :: u32)) (?s n\<lparr>j_in := inp, j_found := True\<rparr>)"
      using that by (simp add: skipExt_def readInteger_written [where n = n and rest = inp])
    then show ?thesis by (cases limit) (simp_all add: unpack_value_def rb)
  qed
  show "\<exists>q. deserializeMsgPack F X limit flt (writeByte 0xC9 @ big_endian 4 0xFFFFFFFF @ inp) p = Some (Ok, JNull, q)"
    using ext [of "0xFFFFFFFF"] by (simp add: deserializeMsgPack_def parse_msgpack_def)
  show "length inp < 0xFFFFFFFF \<longrightarrow>
     (\<exists>q. deserializeMsgPack F X limit flt (writeByte 0xC9 @ big_endian 4 0xFFFFFFFE @ inp) p = Some (IncompleteInput, JNull, q))"
  proof
    assume "length inp < 0xFFFFFFFF"
    then obtain t where "skipBytes 0xFFFFFFFF (?s 0xFFFFFFFE\<lparr>j_in := inp, j_found := True\<rparr>) = (IncompleteInput, t)" "j_found t"
      using skipBytes_short [of "?s 0xFFFFFFFE\<lparr>j_in := inp, j_found := True\<rparr>" "0xFFFFFFFF"] by auto
    then show "\<exists>q. deserializeMsgPack F X limit flt (writeByte 0xC9 @ big_endian 4 0xFFFFFFFE @ inp) p =
        Some (IncompleteInput, JNull, q)"
      using ext [of "0xFFFFFFFE"] by (simp add: deserializeMsgPack_def parse_msgpack_def)
  qed
qed

theorem msgpack_ext_size_wraps_witness:
  "\<exists>q. deserializeMsgPack word_floats word_bits 2 AllowAll (writeByte 0xC9 @ big_endian 4 0xFFFFFFFE @ ''ab'') (new_pool 64) =
    Some (IncompleteInput, JNull, q)"
  using msgpack_ext_size_wraps [of word_floats word_bits 2 AllowAll "''ab''" "new_pool 64"] by simp

end
