(* ===== verification/JsonVariant.thy ===== *)
theory JsonVariant
  imports JsonRound
begin

text \<open>
  What a program does with a document it has read: the lookups of its members, the conversion of a value to a type
  of the language (\<open>convertNumber.hpp\<close>, \<open>VariantImpl.hpp\<close>, \<open>ConverterImpl.hpp\<close>), and the comparison of two
  values (\<open>VariantCompare.hpp\<close>, \<open>arithmeticCompare.hpp\<close>). A reference to nothing converts and compares like null, so
  both are \<open>JNull\<close> here.
\<close>

section \<open>Lookup\<close>

fun variant_size :: "'f jvariant \<Rightarrow> nat" where
  "variant_size (JArray vs) = length vs"
| "variant_size (JObject ms) = length ms"
| "variant_size _ = 0"

fun has_member :: "string \<Rightarrow> 'f jvariant \<Rightarrow> bool" where
  "has_member k (JObject ms) = (getMember k ms \<noteq> None)"
| "has_member k _ = False"

section \<open>Numbers of the language\<close>

text \<open>An integral type of at most 64 bits. Its values are integers here.\<close>

record int_type =
  type_signed :: bool
  type_bits :: nat

definition highest :: "int_type \<Rightarrow> int" where
  "highest T = (if type_signed T then 2 ^ (type_bits T - 1) - 1 else 2 ^ type_bits T - 1)"

definition lowest :: "int_type \<Rightarrow> int" where
  "lowest T = (if type_signed T then - (2 ^ (type_bits T - 1)) else 0)"

text \<open>The largest double that fits into a type of 64 bits is below the largest integer of the type.\<close>

definition highest_for :: "int_type \<Rightarrow> int" where
  "highest_for T = (if type_signed T then 0x7FFFFFFFFFFFFC00 else 0xFFFFFFFFFFFFF800)"

record 'f float_numbers =
  float_of_int :: "int \<Rightarrow> 'f"
  float_lt :: "'f \<Rightarrow> 'f \<Rightarrow> bool"
  float_ge_int :: "'f \<Rightarrow> int \<Rightarrow> bool"
  float_le_int :: "'f \<Rightarrow> int \<Rightarrow> bool"
  truncated :: "'f \<Rightarrow> int"

definition canConvert_unsigned :: "int_type \<Rightarrow> u64 \<Rightarrow> bool" where
  "canConvert_unsigned T n = (n \<le> word_of_int (highest T))"

definition canConvert_signed :: "int_type \<Rightarrow> u64 \<Rightarrow> bool" where
  "canConvert_signed T n =
    (if type_signed T then type_bits T \<ge> 64 \<or> (sint n \<ge> lowest T \<and> sint n \<le> highest T)
     else if sint n < 0 then False
     else if type_bits T \<ge> 64 then uint n \<le> highest T
     else sint n \<le> highest T)"

definition canConvert_float :: "'f float_numbers \<Rightarrow> int_type \<Rightarrow> 'f \<Rightarrow> bool" where
  "canConvert_float X T f =
    (float_ge_int X f (lowest T) \<and> float_le_int X f (if type_bits T < 64 then highest T else highest_for T))"

definition convert_unsigned :: "int_type \<Rightarrow> u64 \<Rightarrow> int" where
  "convert_unsigned T n = (if canConvert_unsigned T n then uint n else 0)"

definition convert_signed :: "int_type \<Rightarrow> u64 \<Rightarrow> int" where
  "convert_signed T n = (if canConvert_signed T n then sint n else 0)"

definition convert_float :: "'f float_numbers \<Rightarrow> int_type \<Rightarrow> 'f \<Rightarrow> int" where
  "convert_float X T f = (if canConvert_float X T f then truncated X f else 0)"

text \<open>A text is parsed into a second variant, which is a number or still null.\<close>

fun number_as :: "'f float_numbers \<Rightarrow> int_type \<Rightarrow> 'f jvariant \<Rightarrow> int" where
  "number_as X T (JBool b) = of_bool b"
| "number_as X T (JUnsigned n) = convert_unsigned T n"
| "number_as X T (JSigned n) = convert_signed T n"
| "number_as X T (JFloat f) = convert_float X T f"
| "number_as X T _ = 0"

fun asIntegral :: "'f float_ops \<Rightarrow> 'f float_numbers \<Rightarrow> int_type \<Rightarrow> 'f jvariant \<Rightarrow> int" where
  "asIntegral F X T (JString s) = (case parseNumber F (cstr s) of None \<Rightarrow> 0 | Some v \<Rightarrow> number_as X T v)"
| "asIntegral F X T v = number_as X T v"

fun isInteger :: "int_type \<Rightarrow> 'f jvariant \<Rightarrow> bool" where
  "isInteger T (JUnsigned n) = canConvert_unsigned T n"
| "isInteger T (JSigned n) = canConvert_signed T n"
| "isInteger T _ = False"

text \<open>The conversion to a \<open>std::string\<close>: what is not a string is printed.\<close>

fun asString :: "'f jvariant \<Rightarrow> string option" where
  "asString (JString s) = Some s"
| "asString _ = None"

definition as_std_string :: "'f float_ops \<Rightarrow> 'f float_format \<Rightarrow> 'f jvariant \<Rightarrow> string" where
  "as_std_string F W v = (case asString v of Some s \<Rightarrow> s | None \<Rightarrow> serialize F W v)"

section \<open>Comparison\<close>

datatype compare_result = Differ | Equal | Greater | Less

fun reversed :: "compare_result \<Rightarrow> compare_result" where
  "reversed Greater = Less"
| "reversed Less = Greater"
| "reversed r = r"

definition ordering :: "bool \<Rightarrow> bool \<Rightarrow> compare_result" where
  "ordering lt gt = (if lt then Less else if gt then Greater else Equal)"

definition compare_unsigned :: "u64 \<Rightarrow> u64 \<Rightarrow> compare_result" where
  "compare_unsigned a b = ordering (a < b) (b < a)"

definition compare_signed :: "u64 \<Rightarrow> u64 \<Rightarrow> compare_result" where
  "compare_signed a b = ordering (sint a < sint b) (sint b < sint a)"

definition compare_unsigned_signed :: "u64 \<Rightarrow> u64 \<Rightarrow> compare_result" where
  "compare_unsigned_signed a b = (if sint b < 0 then Greater else compare_unsigned a b)"

definition compare_signed_unsigned :: "u64 \<Rightarrow> u64 \<Rightarrow> compare_result" where
  "compare_signed_unsigned a b = (if sint a < 0 then Less else compare_unsigned a b)"

definition compare_float :: "'f float_numbers \<Rightarrow> 'f \<Rightarrow> 'f \<Rightarrow> compare_result" where
  "compare_float X a b = ordering (float_lt X a b) (float_lt X b a)"

text \<open>
  The visitors that hold the left value and are shown the right one; their result is the comparison of the right
  value with the left one.
\<close>

fun comparer_float :: "'f float_numbers \<Rightarrow> 'f \<Rightarrow> 'f jvariant \<Rightarrow> compare_result" where
  "comparer_float X f (JFloat g) = compare_float X g f"
| "comparer_float X f (JSigned n) = compare_float X (float_of_int X (sint n)) f"
| "comparer_float X f (JUnsigned n) = compare_float X (float_of_int X (uint n)) f"
| "comparer_float X f (JBool b) = compare_float X (float_of_int X (of_bool b)) f"
| "comparer_float X f _ = Differ"

fun comparer_signed :: "'f float_numbers \<Rightarrow> u64 \<Rightarrow> 'f jvariant \<Rightarrow> compare_result" where
  "comparer_signed X a (JFloat g) = compare_float X g (float_of_int X (sint a))"
| "comparer_signed X a (JSigned n) = compare_signed n a"
| "comparer_signed X a (JUnsigned n) = compare_unsigned_signed n a"
| "comparer_signed X a (JBool b) = compare_unsigned_signed (of_bool b) a"
| "comparer_signed X a _ = Differ"

fun comparer_unsigned :: "'f float_numbers \<Rightarrow> u64 \<Rightarrow> 'f jvariant \<Rightarrow> compare_result" where
  "comparer_unsigned X a (JFloat g) = compare_float X g (float_of_int X (uint a))"
| "comparer_unsigned X a (JSigned n) = compare_signed_unsigned n a"
| "comparer_unsigned X a (JUnsigned n) = compare_unsigned n a"
| "comparer_unsigned X a (JBool b) = compare_unsigned (of_bool b) a"
| "comparer_unsigned X a _ = Differ"

text \<open>A boolean is narrower than any number, so it takes the number's type.\<close>

fun comparer_bool :: "'f float_numbers \<Rightarrow> bool \<Rightarrow> 'f jvariant \<Rightarrow> compare_result" where
  "comparer_bool X a (JFloat g) = compare_float X g (float_of_int X (of_bool a))"
| "comparer_bool X a (JSigned n) = compare_signed n (of_bool a)"
| "comparer_bool X a (JUnsigned n) = compare_unsigned n (of_bool a)"
| "comparer_bool X a (JBool b) = compare_unsigned (of_bool b) (of_bool a)"
| "comparer_bool X a _ = Differ"

text \<open>\<open>char\<close> is signed.\<close>

definition char_value :: "char \<Rightarrow> int" where
  "char_value c = (if of_char c < (128 :: int) then of_char c else of_char c - 256)"

fun stringCompare :: "string \<Rightarrow> string \<Rightarrow> int" where
  "stringCompare [] [] = 0"
| "stringCompare [] (_ # _) = - 1"
| "stringCompare (_ # _) [] = 1"
| "stringCompare (a # as) (b # bs) = (if a \<noteq> b then char_value a - char_value b else stringCompare as bs)"

text \<open>The left string comes without its size, so it ends at its first NUL.\<close>

fun comparer_string :: "string \<Rightarrow> 'f jvariant \<Rightarrow> compare_result" where
  "comparer_string a (JString s) = (let i = stringCompare (cstr a) s in
     if i < 0 then Greater else if i > 0 then Less else Equal)"
| "comparer_string a _ = Differ"

fun memcmp :: "string \<Rightarrow> string \<Rightarrow> int" where
  "memcmp (a # as) (b # bs) = (if a \<noteq> b then of_char a - of_char b else memcmp as bs)"
| "memcmp _ _ = 0"

fun comparer_raw :: "string \<Rightarrow> 'f jvariant \<Rightarrow> compare_result" where
  "comparer_raw a (JRaw s) = (let size = min (length a) (length s); n = memcmp (take size s) (take size a) in
     if n < 0 then Less else if n > 0 then Greater else Equal)"
| "comparer_raw a _ = Differ"

definition equal_or_differ :: "bool \<Rightarrow> compare_result" where
  "equal_or_differ b = (if b then Equal else Differ)"

lemma member_smaller: "size (variant_member k (JObject ms)) \<le> size (JObject ms)"
proof (cases "getMember k ms")
  case (Some v)
  then have "(cstr k, v) \<in> set ms" by (auto simp: getMember_def dest: map_of_SomeD)
  then show ?thesis using Some size_list_estimation' [of "(cstr k, v)" ms "size v" "size_prod (\<lambda>_. 0) size"] by simp
qed simp

text \<open>
  \<open>compare\<close>, and the equality of arrays and objects, which compares elements and members. Values are trees here, so
  these are comparisons of collections at different places: a collection compared with the very same one
  (\<open>_data == rhs._data\<close>) is equal without a look at its elements.
\<close>

function variant_compare :: "'f float_numbers \<Rightarrow> 'f jvariant \<Rightarrow> 'f jvariant \<Rightarrow> compare_result"
  and arrays_equal :: "'f float_numbers \<Rightarrow> 'f jvariant list \<Rightarrow> 'f jvariant list \<Rightarrow> bool"
  and members_equal :: "'f float_numbers \<Rightarrow> (string \<times> 'f jvariant) list \<Rightarrow> (string \<times> 'f jvariant) list \<Rightarrow> bool" where
  "variant_compare X JNull w = reversed (case w of JNull \<Rightarrow> Equal | _ \<Rightarrow> Differ)"
| "variant_compare X (JBool a) w = reversed (comparer_bool X a w)"
| "variant_compare X (JUnsigned a) w = reversed (comparer_unsigned X a w)"
| "variant_compare X (JSigned a) w = reversed (comparer_signed X a w)"
| "variant_compare X (JFloat f) w = reversed (comparer_float X f w)"
| "variant_compare X (JString s) w = reversed (comparer_string s w)"
| "variant_compare X (JRaw s) w = reversed (comparer_raw s w)"
| "variant_compare X (JArray xs) w =
     reversed (case w of JArray ys \<Rightarrow> equal_or_differ (arrays_equal X xs ys) | _ \<Rightarrow> Differ)"
| "variant_compare X (JObject ms) w =
     reversed (case w of JObject ns \<Rightarrow> equal_or_differ (members_equal X ns ms \<and> length ns = length ms) | _ \<Rightarrow> Differ)"
| "arrays_equal X [] [] = True"
| "arrays_equal X [] (_ # _) = False"
| "arrays_equal X (_ # _) [] = False"
| "arrays_equal X (x # xs) (y # ys) = (variant_compare X x y = Equal \<and> arrays_equal X xs ys)"
| "members_equal X [] ms = True"
| "members_equal X ((k, v) # ns) ms =
     (variant_compare X (variant_member k (JObject ms)) v = Equal \<and> members_equal X ns ms)"
  by pat_completeness auto
termination
proof (relation "measure (case_sum (\<lambda>(X, v, w). 2 * (size v + size w) + 1)
    (case_sum (\<lambda>(X, xs, ys). 2 * (size_list size xs + size_list size ys))
      (\<lambda>(X, ns, ms). 2 * (size_list (size_prod (\<lambda>_. 0) size) ns + size (JObject ms)))))", goal_cases)
  case (6 X k v ns ms)
  then show ?case using member_smaller [of k ms] by simp
qed auto

end
