(* ===== verification/JsonVariant_Props.thy ===== *)
theory JsonVariant_Props
  imports JsonVariant JsonMsgPack_Round "HOL-Library.Finite_Map"
begin

text \<open>
  The conversions are exact, the comparison decides whether two values mean the same, and a document that was read back
  compares equal with the one that was written.
\<close>

section \<open>Values for the witnesses\<close>

text \<open>A document without floats needs nothing of them.\<close>

definition unit_floats :: "unit float_ops" where
  "unit_floats = \<lparr>make_float = (\<lambda>_ _. ()), neg_float = id, inf_float = (), zero_float = (),
     float_nonzero = (\<lambda>_. False), float_is_one = (\<lambda>_. False)\<rparr>"

definition unit_format :: "unit float_format" where
  "unit_format = \<lparr>f_isnan = (\<lambda>_. False), f_isinf = (\<lambda>_. False), f_negative = (\<lambda>_. False),
     f_parts = (\<lambda>_. (0, 0, 0, 0))\<rparr>"

definition unit_bits :: "unit float_bits" where
  "unit_bits = \<lparr>is_single = (\<lambda>_. False), integral = (\<lambda>_. None), single_bits = (\<lambda>_. 0), double_bits = (\<lambda>_. 0),
     of_single = (\<lambda>_. ()), of_double = (\<lambda>_. ())\<rparr>"

definition no_floats :: "unit float_numbers" where
  "no_floats = \<lparr>float_of_int = (\<lambda>_. ()), float_lt = (\<lambda>_ _. False), float_ge_int = (\<lambda>_ _. False),
     float_le_int = (\<lambda>_ _. False), truncated = (\<lambda>_. 0)\<rparr>"


section \<open>Conversions\<close>

lemma sint_nonneg: "0 \<le> sint x \<Longrightarrow> uint (x :: u64) = sint x"
proof -
  assume "0 \<le> sint x"
  moreover have "sint x < 2 ^ 64" using sint_lt [of x] by simp
  moreover have "uint x = sint x mod 2 ^ 64" by (simp add: uint_sint take_bit_eq_mod)
  ultimately show ?thesis by simp
qed

definition fits :: "int_type \<Rightarrow> int \<Rightarrow> bool" where
  "fits T i \<longleftrightarrow> lowest T \<le> i \<and> i \<le> highest T"

lemma highest_bounds:
  assumes "0 < type_bits T" and "type_bits T \<le> 64"
  shows "0 \<le> highest T" "highest T < 2 ^ 64"
proof -
  have "(2 :: int) ^ (type_bits T - 1) \<le> 2 ^ 63" "(2 :: int) ^ type_bits T \<le> 2 ^ 64"
    using assms by (intro power_increasing; simp)+
  then show "0 \<le> highest T" "highest T < 2 ^ 64" by (simp_all add: highest_def)
qed

lemma convert_unsigned_exact:
  assumes "0 < type_bits T" and "type_bits T \<le> 64"
  shows "convert_unsigned T n = (if fits T (uint n) then uint n else 0)"
proof -
  have "uint (word_of_int (highest T) :: u64) = highest T"
    using highest_bounds [OF assms] by (simp add: uint_word_of_int)
  moreover have "lowest T \<le> uint n" by (simp add: lowest_def order_trans [of _ 0])
  ultimately show ?thesis by (simp add: convert_unsigned_def canConvert_unsigned_def fits_def word_le_def)
qed

lemma convert_signed_exact:
  assumes "0 < type_bits T" and "type_bits T \<le> 64"
  shows "convert_signed T n = (if fits T (sint n) then sint n else 0)"
proof -
  have "- (2 ^ 63) \<le> sint n" "sint n < 2 ^ 63" using sint_ge [of n] sint_lt [of n] by simp_all
  moreover have "type_bits T = 64" if "64 \<le> type_bits T" using that assms by simp
  ultimately show ?thesis using sint_nonneg [of n]
    by (auto simp: convert_signed_def canConvert_signed_def fits_def lowest_def highest_def)
qed

lemma cstr_clean: "NUL \<notin> set s \<Longrightarrow> cstr s = s"
  by (auto simp: cstr_def takeWhile_eq_all_conv)

lemma cstr_written: "cstr (writeUnsigned n) = writeUnsigned n" "cstr (writeSigned n) = writeSigned n"
proof -
  have d: "NUL \<notin> set (writeUnsigned m)" for m
    using writeUnsigned_spec [of m] by (auto simp: list_all_iff is_digit_def)
  then show "cstr (writeUnsigned n) = writeUnsigned n" "cstr (writeSigned n) = writeSigned n"
    by (simp_all add: cstr_clean writeSigned_def)
qed

lemma integral_conversion:
  assumes "0 < type_bits T" and "type_bits T \<le> 64"
  shows "number_as X T (canonical_int n) = (if fits T (sint n) then sint n else 0)"
  using convert_unsigned_exact [OF assms, of n] convert_signed_exact [OF assms, of n] sint_nonneg [of n]
  by (auto simp: canonical_int_def)

text \<open>
  C37. Reading an integer out of a document is exact: whatever the integral type of at most 64 bits, the result is the
  number itself when the type can hold it and 0 when it cannot, be the value an unsigned or a signed number or a
  string with the decimal digits of one.
\<close>

theorem integral_conversion_exact:
  assumes "0 < type_bits T" and "type_bits T \<le> 64"
  shows "asIntegral F X T (JUnsigned n) = (if fits T (uint n) then uint n else 0) \<and>
    asIntegral F X T (JSigned n) = (if fits T (sint n) then sint n else 0) \<and>
    asIntegral F X T (JString (writeUnsigned n)) = (if fits T (uint n) then uint n else 0) \<and>
    asIntegral F X T (JString (writeSigned n)) = (if fits T (sint n) then sint n else 0)"
  by (simp add: convert_unsigned_exact [OF assms] convert_signed_exact [OF assms] cstr_written parseNumber_unsigned
      parseNumber_signed integral_conversion [OF assms])

theorem integral_conversion_exact_witness:
  "asIntegral unit_floats no_floats \<lparr>type_signed = False, type_bits = 16\<rparr> (JString (writeUnsigned 70000)) = 0 \<and>
   asIntegral unit_floats no_floats \<lparr>type_signed = True, type_bits = 32\<rparr> (JUnsigned 70000) = 70000"
  using integral_conversion_exact [of "\<lparr>type_signed = False, type_bits = 16\<rparr>" unit_floats no_floats 70000]
    integral_conversion_exact [of "\<lparr>type_signed = True, type_bits = 32\<rparr>" unit_floats no_floats 70000]
  by (simp add: fits_def lowest_def highest_def)

section \<open>Comparison\<close>

fun int_value :: "'f jvariant \<Rightarrow> int option" where
  "int_value (JBool b) = Some (of_bool b)"
| "int_value (JUnsigned n) = Some (uint n)"
| "int_value (JSigned n) = Some (sint n)"
| "int_value _ = None"

lemma compare_unsigned_uint: "compare_unsigned a b = ordering (uint a < uint b) (uint b < uint a)"
  by (simp add: compare_unsigned_def word_less_def)

lemma reversed_ordering [simp]: "\<not> (p \<and> q) \<Longrightarrow> reversed (ordering p q) = ordering q p"
  by (auto simp: ordering_def)

lemma reversed_equal [simp]: "reversed r = Equal \<longleftrightarrow> r = Equal"
  by (cases r) simp_all

lemma compare_unsigned_signed_int:
  "compare_unsigned_signed a b = ordering (uint a < sint b) (sint b < uint a)"
  using sint_nonneg [of b] by (simp add: compare_unsigned_signed_def compare_unsigned_uint ordering_def)
    (use uint_ge_0 [of a] in linarith)

lemma compare_signed_unsigned_int:
  "compare_signed_unsigned a b = ordering (sint a < uint b) (uint b < sint a)"
  using sint_nonneg [of a] by (simp add: compare_signed_unsigned_def compare_unsigned_uint ordering_def)
    (use uint_ge_0 [of b] in linarith)

lemma bool_word [simp]: "uint (of_bool b :: u64) = of_bool b" "sint (of_bool b :: u64) = of_bool b"
  by (cases b; simp)+

lemma compare_numbers:
  "int_value a = Some i \<Longrightarrow> int_value b = Some j \<Longrightarrow> variant_compare X a b = ordering (i < j) (j < i)"
  by (cases a; cases b)
    (auto simp: compare_unsigned_uint compare_signed_def compare_unsigned_signed_int compare_signed_unsigned_int)


section \<open>What a value means\<close>

datatype meaning = MNull | MInt int | MText string | MArray "meaning list" | MObject "(string, meaning) fmap"

fun means :: "'f jvariant \<Rightarrow> meaning" where
  "means JNull = MNull"
| "means (JString s) = MText s"
| "means (JArray vs) = MArray (map means vs)"
| "means (JObject ms) = MObject (fmap_of_list (map (\<lambda>(k, v). (k, means v)) ms))"
| "means v = (case int_value v of Some i \<Rightarrow> MInt i | None \<Rightarrow> MNull)"

fun comparable :: "'f jvariant \<Rightarrow> bool" where
  "comparable (JFloat _) = False"
| "comparable (JRaw _) = False"
| "comparable (JString s) = (NUL \<notin> set s)"
| "comparable (JArray vs) = (\<forall>v\<in>set vs. comparable v)"
| "comparable (JObject ms) = (distinct (map fst ms) \<and>
     (\<forall>m\<in>set ms. NUL \<notin> set (fst m) \<and> snd m \<noteq> JNull \<and> comparable (snd m)))"
| "comparable _ = True"

lemma char_value_eq: "char_value a = char_value b \<longleftrightarrow> a = b"
proof
  assume h: "char_value a = char_value b"
  have r: "0 \<le> (of_char c :: int)" "(of_char c :: int) < 256" for c
    using of_nat_of_char [where 'a = int, of c] nat_of_char_less_256 [of c] by linarith+
  have "(of_char a :: int) = of_char b" using h r [of a] r [of b] by (simp add: char_value_def split: if_splits)
  then show "a = b" by simp
qed simp

lemma stringCompare_eq: "stringCompare a b = 0 \<longleftrightarrow> a = b"
  by (induction a b rule: stringCompare.induct) (auto simp: char_value_eq)

lemma getMember_clean: "NUL \<notin> set k \<Longrightarrow> getMember k ms = map_of ms k"
  by (simp add: getMember_def cstr_clean)

lemma map_of_mapped: "map_of (map (\<lambda>(k, v). (k, f v)) xs) k = map_option f (map_of xs k)"
  by (simp add: map_of_map)

lemma same_members:
  assumes d: "distinct (map fst ns)" "distinct (map fst ms)"
  shows "(\<forall>(k, v)\<in>set ns. \<exists>w. map_of ms k = Some w \<and> f w = f v) \<and> length ns = length ms \<longleftrightarrow>
    fmap_of_list (map (\<lambda>(k, v). (k, f v)) ms) = fmap_of_list (map (\<lambda>(k, v). (k, f v)) ns)"
    (is "?l \<longleftrightarrow> ?r")
proof
  assume l: ?l
  have "fst ` set ns \<subseteq> fst ` set ms"
  proof
    fix k assume "k \<in> fst ` set ns"
    then obtain v where "(k, v) \<in> set ns" by auto
    then obtain w where "map_of ms k = Some w" using l by auto
    then show "k \<in> fst ` set ms" using map_of_SomeD by force
  qed
  moreover have "card (fst ` set ns) = card (fst ` set ms)"
    using l d by (metis distinct_card length_map set_map)
  ultimately have keys: "fst ` set ns = fst ` set ms" by (metis List.finite_set card_subset_eq finite_imageI)
  show ?r
  proof (rule fmap_ext)
    fix k
    show "fmlookup (fmap_of_list (map (\<lambda>(k, v). (k, f v)) ms)) k = fmlookup (fmap_of_list (map (\<lambda>(k, v). (k, f v)) ns)) k"
    proof (cases "k \<in> fst ` set ns")
      case True
      then obtain v where v: "map_of ns k = Some v" using map_of_eq_None_iff [of ns k] by (cases "map_of ns k") auto
      then obtain w where "map_of ms k = Some w" "f w = f v" using l map_of_SomeD by fastforce
      then show ?thesis using v by (simp add: fmlookup_of_list map_of_mapped)
    next
      case False
      then have "map_of ns k = None" "map_of ms k = None" using keys by (simp_all add: map_of_eq_None_iff)
      then show ?thesis by (simp add: fmlookup_of_list map_of_mapped)
    qed
  qed
next
  assume r: ?r
  then have e: "map_option f (map_of ms k) = map_option f (map_of ns k)" for k
    by (metis fmlookup_of_list map_of_mapped)
  have "dom (map_of ms) = dom (map_of ns)" using e by (metis (no_types, lifting) domIff option.map_disc_iff subset_antisym subsetI)
  then have "set (map fst ms) = set (map fst ns)" by (simp add: dom_map_of_conv_image_fst)
  then have "length ns = length ms" using d by (metis distinct_card length_map)
  moreover have "\<exists>w. map_of ms k = Some w \<and> f w = f v" if "(k, v) \<in> set ns" for k v
    using e [of k] map_of_is_SomeI [OF d(1) that] by auto
  ultimately show ?l by auto
qed

lemma compare_null: "variant_compare X JNull v = Equal \<longleftrightarrow> v = JNull"
  by (cases v) simp_all

lemma means_int: "int_value v = Some i \<Longrightarrow> means v = MInt i"
  by (cases v) simp_all

lemma compare_number:
  assumes "int_value a = Some i" and "comparable w"
  shows "variant_compare X a w = Equal \<longleftrightarrow> means a = means w"
proof (cases "int_value w")
  case (Some j)
  then show ?thesis using compare_numbers [OF assms(1) Some, of X] means_int [OF assms(1)] means_int [OF Some]
    by (auto simp: ordering_def)
next
  case None
  then show ?thesis using assms by (cases a; cases w) simp_all
qed

lemma compare_text:
  assumes "comparable w" and "NUL \<notin> set s"
  shows "variant_compare X (JString s) w = Equal \<longleftrightarrow> means (JString s) = means w"
proof (cases w)
  case (JString t)
  then show ?thesis using assms stringCompare_eq [of s t] by (auto simp: cstr_clean Let_def)
qed (use assms in simp_all)

lemma compare_meaning:
  "comparable a \<Longrightarrow> comparable b \<Longrightarrow> variant_compare X a b = Equal \<longleftrightarrow> means a = means b"
  "\<forall>v\<in>set xs. comparable v \<Longrightarrow> \<forall>v\<in>set ys. comparable v \<Longrightarrow> arrays_equal X xs ys \<longleftrightarrow> map means xs = map means ys"
  "\<forall>m\<in>set ns. NUL \<notin> set (fst m) \<and> snd m \<noteq> JNull \<and> comparable (snd m) \<Longrightarrow>
    \<forall>m\<in>set ms. NUL \<notin> set (fst m) \<and> snd m \<noteq> JNull \<and> comparable (snd m) \<Longrightarrow>
    members_equal X ns ms \<longleftrightarrow> (\<forall>(k, v)\<in>set ns. \<exists>w. map_of ms k = Some w \<and> means w = means v)"
proof (induction X a b and X xs ys and X ns ms rule: variant_compare_arrays_equal_members_equal.induct)
  case (1 X w)
  then show ?case by (cases w) simp_all
next
  case (2 X a w)
  then show ?case using compare_number [of "JBool a" "of_bool a" w X] by simp
next
  case (3 X a w)
  then show ?case using compare_number [of "JUnsigned a" "uint a" w X] by simp
next
  case (4 X a w)
  then show ?case using compare_number [of "JSigned a" "sint a" w X] by simp
next
  case (6 X s w)
  then show ?case using compare_text by simp
next
  case (8 X xs w)
  then show ?case by (cases w) (auto simp: equal_or_differ_def)
next
  case (9 X ms w)
  then show ?case
  proof (cases w)
    case (JObject ns)
    then show ?thesis using 9 same_members [of ns ms means] by (auto simp: equal_or_differ_def)
  qed auto
next
  case (15 X k v ns ms)
  have k: "NUL \<notin> set k" "v \<noteq> JNull" "comparable v" using "15.prems" by simp_all
  have "comparable (variant_member k (JObject ms))"
    using "15.prems"(2) map_of_SomeD by (fastforce simp: getMember_clean [OF k(1)] split: option.split)
  then have "variant_compare X (variant_member k (JObject ms)) v = Equal \<longleftrightarrow>
      means (variant_member k (JObject ms)) = means v"
    using "15.IH"(1) k(3) by blast
  also have "\<dots> \<longleftrightarrow> (\<exists>w. map_of ms k = Some w \<and> means w = means v)"
    using k(2,3) by (cases v) (auto simp: getMember_clean [OF k(1)] split: option.split)
  finally show ?case using "15.IH"(2) "15.prems" by simp
qed (auto simp: compare_null)


text \<open>
  C35. Comparing two values is deciding whether they mean the same. For values without floats and raw text, with
  strings and keys free of NUL, no key twice and no null member, compare says equal exactly if both mean the same
  integer (booleans and both classes of integers taken together), the same text, arrays of the same meanings in
  order, or objects that map the same keys to the same meanings in whatever order. So equality is an equivalence
  relation on them.
\<close>

theorem compare_is_equality:
  assumes "comparable a" and "comparable b"
  shows "variant_compare X a b = Equal \<longleftrightarrow> means a = means b"
  using compare_meaning(1) [OF assms] .

theorem compare_is_equality_witness:
  "variant_compare no_floats (JObject [(''a'', JUnsigned 1), (''b'', JArray [JNull])])
     (JObject [(''b'', JArray [JNull]), (''a'', JBool True)]) = Equal"
proof -
  let ?a = "JObject [(''a'', JUnsigned 1), (''b'', JArray [JNull])] :: unit jvariant"
  let ?b = "JObject [(''b'', JArray [JNull]), (''a'', JBool True)] :: unit jvariant"
  have "comparable ?a" "comparable ?b" by simp_all
  moreover have "means ?a = means ?b" by (simp add: fmupd_reorder_neq)
  ultimately show ?thesis using compare_is_equality by blast
qed

lemma cut_string_less: "NUL \<in> set x \<Longrightarrow> stringCompare (cstr x) x = - 1"
proof (induction x)
  case (Cons c x)
  then show ?case by (cases "c = NUL") (auto simp: cstr_def)
qed simp

lemma memcmp_same: "memcmp x x = 0"
  by (induction x) simp_all

text \<open>
  C38. Where comparing is not equality: two objects that each have one null member are equal whatever the names, since
  a missing member is compared like a null one; raw text is equal to anything it is the beginning of; and a string
  that contains NUL is not equal to itself, because the left one is cut at the NUL.
\<close>

theorem comparison_gaps:
  "variant_compare X (JObject [(k, JNull)]) (JObject [(l, JNull)]) = Equal \<and>
   variant_compare X (JRaw s) (JRaw (s @ t)) = Equal \<and>
   variant_compare X (JString (s @ NUL # t)) (JString (s @ NUL # t)) = Less"
  using cut_string_less [of "s @ NUL # t"]
  by (auto simp: equal_or_differ_def memcmp_same getMember_def Let_def split: option.split)

section \<open>Reading back\<close>

lemma comparable_plain: "comparable v \<Longrightarrow> plain v"
  by (induction v) auto

lemma canonical_means:
  "comparable v \<Longrightarrow> comparable (canonical v) \<and> means (canonical v) = means v \<and> (canonical v = JNull \<longleftrightarrow> v = JNull)"
proof (induction v)
  case (JSigned n)
  then show ?case using sint_nonneg [of n] by (simp add: canonical_int_def)
next
  case (JArray vs)
  then show ?case by (auto simp: comp_def)
next
  case (JObject ms)
  have k: "map fst (map (\<lambda>(k, v). (k, canonical v)) ms) = map fst ms" by (simp add: comp_def case_prod_unfold)
  have m: "map (\<lambda>(k, v). (k, means v)) (map (\<lambda>(k, v). (k, canonical v)) ms) = map (\<lambda>(k, v). (k, means v)) ms"
    using JObject by (auto simp: comp_def case_prod_unfold)
  show ?case using JObject k by (auto simp del: map_map simp: m)
qed simp_all

lemma sint_of_small: "uint x < 2 ^ 63 \<Longrightarrow> sint (x :: u64) = uint x"
proof (rule ccontr)
  assume x: "uint x < 2 ^ 63" and ne: "sint x \<noteq> uint x"
  then have neg: "sint x < 0" using sint_nonneg [of x] by linarith
  have "uint x = sint x mod 2 ^ 64" by (simp add: uint_sint take_bit_eq_mod)
  also have "sint x mod 2 ^ 64 = (sint x + 2 ^ 64) mod 2 ^ 64" by simp
  also have "\<dots> = sint x + 2 ^ 64" using neg sint_ge [of x] by (intro mod_pos_pos_trivial) simp_all
  finally show False using x sint_ge [of x] by simp
qed

lemma unpacked_number_means:
  "means (unpacked_unsigned n) = MInt (uint n)" "means (unpacked_signed n) = MInt (sint n)"
  "comparable (unpacked_unsigned n)" "comparable (unpacked_signed n)"
  "unpacked_unsigned n \<noteq> JNull" "unpacked_signed n \<noteq> JNull"
proof -
  show u: "means (unpacked_unsigned n) = MInt (uint n)"
    using sint_of_small [of n] by (simp add: unpacked_unsigned_def word_le_def)
  show "means (unpacked_signed n) = MInt (sint n)"
    using sint_nonneg [of n] by (simp add: unpacked_signed_def u)
qed (simp_all add: unpacked_unsigned_def unpacked_signed_def)

lemma unpacked_means:
  "comparable v \<Longrightarrow> comparable (unpacked X v) \<and> means (unpacked X v) = means v \<and> (unpacked X v = JNull \<longleftrightarrow> v = JNull)"
proof (induction v)
  case (JArray vs)
  then show ?case by (auto simp: comp_def)
next
  case (JObject ms)
  have k: "map fst (map (\<lambda>(k, v). (k, unpacked X v)) ms) = map fst ms" by (simp add: comp_def case_prod_unfold)
  have m: "map (\<lambda>(k, v). (k, means v)) (map (\<lambda>(k, v). (k, unpacked X v)) ms) = map (\<lambda>(k, v). (k, means v)) ms"
    using JObject by (auto simp: comp_def case_prod_unfold)
  show ?case using JObject k by (auto simp del: map_map simp: m)
qed (simp_all add: unpacked_number_means)

text \<open>
  C36. A document that is written and read back compares equal with the original, in both directions: as JSON text with
  the strings copied into the pool, and as MessagePack. It may have no floats, no raw text, no NUL and no null member,
  no key twice, lengths below 2 to the power of 32, and must fit into the pool and the nesting limit; for MessagePack the bit
  patterns of floating-point numbers must be exact.
\<close>

theorem read_back_compares_equal:
  assumes "comparable v" and "depth v \<le> limit" and "need Suc v \<le> p_end p" and "packable v" and "exact_bits B"
  shows "(\<exists>w q. deserializeJson F limit AllowAll (serialize F W v) p = (Ok, w, q) \<and>
      variant_compare X v w = Equal \<and> variant_compare X w v = Equal) \<and>
    (\<exists>w q. deserializeMsgPack F B limit AllowAll (serializeMsgPack B v) p = Some (Ok, w, q) \<and>
      variant_compare X v w = Equal \<and> variant_compare X w v = Equal)"
proof
  let ?s = "\<lambda>cs. \<lparr>j_in = cs, j_found = False, j_mem = \<lparr>c_pool = clear_pool p, c_text = [], c_capacity = 0\<rparr>\<rparr>"
  have g: "copier_good (j_mem (?s cs))" "need Suc v \<le> freeZone (c_pool (j_mem (?s cs)))" for cs
    using assms(3) by (simp_all add: copier_good_def)
  obtain t where "parse_json copier_ops F limit AllowAll JNull (?s (serialize F W v)) = (Ok, canonical v, t)"
    using copied.document_read [OF comparable_plain [OF assms(1)] assms(2), of "?s (serialize F W v)" F W] g by auto
  moreover have "variant_compare X v (canonical v) = Equal" "variant_compare X (canonical v) v = Equal"
    using canonical_means [OF assms(1)] assms(1) by (simp_all add: compare_meaning(1))
  ultimately show "\<exists>w q. deserializeJson F limit AllowAll (serialize F W v) p = (Ok, w, q) \<and>
      variant_compare X v w = Equal \<and> variant_compare X w v = Equal"
    by (simp add: deserializeJson_def)
  obtain t where "unpackVariant copier_ops F B limit AllowAll JNull (?s (serializeMsgPack B v)) = Some (Ok, unpacked B v, t)"
      "j_found t"
    using copied.unpacksD [OF copied.unpack_document [OF assms(5,4,2)], where s = "?s (serializeMsgPack B v)" and rest = "[]"] g by auto
  moreover have "variant_compare X v (unpacked B v) = Equal" "variant_compare X (unpacked B v) v = Equal"
    using unpacked_means [OF assms(1), of B] assms(1) by (simp_all add: compare_meaning(1))
  ultimately show "\<exists>w q. deserializeMsgPack F B limit AllowAll (serializeMsgPack B v) p = Some (Ok, w, q) \<and>
      variant_compare X v w = Equal \<and> variant_compare X w v = Equal"
    by (simp add: deserializeMsgPack_def parse_msgpack_def)
qed

definition read_back_doc :: "unit jvariant" where
  "read_back_doc = JObject [(''a'', JArray [JSigned 5, JNull]), (''b'', JString ''x'')]"

theorem read_back_compares_equal_witness:
  "\<exists>w q. deserializeJson unit_floats 2 AllowAll (serialize unit_floats unit_format read_back_doc) (new_pool 200) = (Ok, w, q) \<and>
    variant_compare no_floats read_back_doc w = Equal \<and> variant_compare no_floats w read_back_doc = Equal"
proof -
  have "comparable read_back_doc" "depth read_back_doc \<le> 2" "need Suc read_back_doc \<le> p_end (new_pool 200)"
      "packable read_back_doc" "exact_bits unit_bits"
    by (simp_all add: read_back_doc_def new_pool_def SLOT_SIZE_def exact_bits_def)
  then show ?thesis using read_back_compares_equal by blast
qed

end
