(* ===== verification/JsonCapacity.thy ===== *)
theory JsonCapacity
  imports JsonSafe
begin

text \<open>
  How much a parsed document can hold: every element and every member lies in a slot of its own, which
  was taken from the right end of the pool and is not given back. The locale states this of a storage, for both parsers.
\<close>

fun slots :: "'f jvariant \<Rightarrow> nat" where
  "slots (JArray vs) = sum_list (map (\<lambda>v. 1 + slots v) vs)"
| "slots (JObject ms) = sum_list (map (\<lambda>(k, v). 1 + slots v) ms)"
| "slots _ = 0"

locale slot_memory =
  fixes M :: "'m mem_ops" and right :: "'m \<Rightarrow> nat"
  assumes start_right: "right (startString M m) = right m"
    and append_right: "right (append_char M c m) = right m"
    and save_right: "right (snd (save M m)) = right m"
    and slot_right: "addSlot M m = (ok, m') \<Longrightarrow> right m' + (if ok then SLOT_SIZE else 0) = right m"
begin

lemma append_all_right: "right (fold (append_char M) cs m) = right m"
  by (induction cs arbitrary: m) (simp_all add: append_right)

end

sublocale slot_memory \<subseteq> frame: parser_frame M "\<lambda>_ s t. right (j_mem t) \<le> right (j_mem s)" "\<lambda>_. True"
proof
  show "right (j_mem (append_all M cs (consume n s))) \<le> right (j_mem s)" for cs n s
    by (simp add: append_all_def consume_def append_all_right)
  show "right (j_mem u) \<le> right (j_mem s)" if "right (j_mem t) \<le> right (j_mem s)" "save_string M t = (x, u)" for s t x u
    using that save_right [of "j_mem t"] by (auto simp: save_string_def split: prod.splits)
  show "right (j_mem (s\<lparr>j_mem := m\<rparr>)) \<le> right (j_mem s)" if "addSlot M (j_mem s) = (ok, m)" for s ok m
    using slot_right [OF that] by simp
qed (auto simp: start_string_def start_right)

context slot_memory
begin

text \<open>The slots of what was built and the room that is left.\<close>

definition hold :: "nat \<Rightarrow> 'm jstate \<Rightarrow> nat" where
  "hold n s = SLOT_SIZE * n + right (j_mem s)"

lemma hold_mono: "right (j_mem t) \<le> right (j_mem s) \<Longrightarrow> hold n t \<le> hold n s"
  by (simp add: hold_def)

lemma hold_skipped: "frame.skips g \<Longrightarrow> g s = (e, t) \<Longrightarrow> hold n t \<le> hold n s"
  by (simp add: frame.skips_def hold_mono)

lemma hold_spaces: "skipSpacesAndComments s = (e, t) \<Longrightarrow> hold n t = hold n s"
  using frame.R_skipSpaces [of s e t] by (simp add: hold_def)

lemma hold_eat: "eat c s = (b, t) \<Longrightarrow> hold n t = hold n s"
  using frame.R_eat [of c s b t] by (simp add: hold_def)

lemma hold_slot: "addSlot M (j_mem s) = (ok, m) \<Longrightarrow> hold (if ok then Suc n else n) (s\<lparr>j_mem := m\<rparr>) = hold n s"
  using slot_right [of "j_mem s" ok m] by (cases ok) (simp_all add: hold_def)

lemma hold_add: "hold a t \<le> hold b s \<Longrightarrow> hold (a + n) t \<le> hold (b + n) s"
  by (simp add: hold_def algebra_simps)

lemma hold_replace:
  assumes "hold v' t \<le> hold v s" and "a' + v = a + v'"
  shows "hold a' t \<le> hold a s"
proof -
  have "SLOT_SIZE * a' + SLOT_SIZE * v = SLOT_SIZE * a + SLOT_SIZE * v'"
    using assms(2) by (metis distrib_left)
  then show ?thesis using assms(1) by (simp add: hold_def)
qed

text \<open>A function that builds at most what it takes.\<close>

definition frugal :: "('f jvariant \<Rightarrow> 'm jstate \<Rightarrow> code \<times> 'f jvariant \<times> 'm jstate) \<Rightarrow> bool" where
  "frugal f = (\<forall>v s e v' t. f v s = (e, v', t) \<longrightarrow> hold (slots v') t \<le> hold (slots v) s)"

lemma frugalD: "frugal f \<Longrightarrow> f v s = (e, v', t) \<Longrightarrow> hold (slots v') t \<le> hold (slots v) s"
  unfolding frugal_def by blast

text \<open>The value of a new slot, in a collection that holds \<open>n\<close> slots already.\<close>

lemma frugal_slot:
  assumes "frugal f" and "addSlot M (j_mem s) = (True, m)" and "f JNull (s\<lparr>j_mem := m\<rparr>) = (e, v, t)"
  shows "hold (n + Suc (slots v)) t \<le> hold n s"
  using hold_add [OF frugalD [OF assms(1,3)], of "Suc n"] hold_slot [OF assms(2), of n] by (simp add: add.commute)

lemma element_frugal:
  assumes f: "frugal f" and g: "frame.skips g" and r: "parse_element M f g b vs s = (e, vs', t)"
  shows "hold (slots (JArray vs')) t \<le> hold (slots (JArray vs)) s"
proof -
  obtain ok m where m: "addSlot M (j_mem s) = (ok, m)" by (metis surj_pair)
  obtain e1 v t1 where 1: "f JNull (s\<lparr>j_mem := m\<rparr>) = (e1, v, t1)" by (metis prod_cases3)
  show ?thesis
    using r frugal_slot [OF f _ 1, of "slots (JArray vs)"] hold_slot [OF m, of "slots (JArray vs)"]
      hold_skipped [OF g, of s e t]
    by (auto simp: parse_element_def m 1 split: if_splits prod.splits)
qed

lemma elements_frugal:
  assumes f: "frugal f" and g: "frame.skips g" and "parse_elements M f g b vs s = (e, vs', t)"
  shows "hold (slots (JArray vs')) t \<le> hold (slots (JArray vs)) s"
  using assms(3)
proof (induction "length (j_in s)" arbitrary: vs s rule: less_induct)
  case less
  obtain e1 vs1 s1 where 1: "parse_element M f g b vs s = (e1, vs1, s1)" by (metis prod_cases3)
  obtain e2 s2 where 2: "skipSpacesAndComments s1 = (e2, s2)" by (metis surj_pair)
  obtain b3 s3 where 3: "eat (CHR '']'') s2 = (b3, s3)" by (metis surj_pair)
  obtain b4 s4 where 4: "eat (CHR '','') s3 = (b4, s4)" by (metis surj_pair)
  define n where "n = slots (JArray vs1)"
  have m: "hold n s1 \<le> hold (slots (JArray vs)) s" "hold n s2 = hold n s1" "hold n s3 = hold n s2" "hold n s4 = hold n s3"
    using element_frugal [OF f g 1] hold_spaces [OF 2] hold_eat [OF 3] hold_eat [OF 4] by (simp_all add: n_def)
  have more: "hold (slots (JArray vs')) t \<le> hold n s4"
    if "length (j_in s4) < length (j_in s)" "parse_elements M f g b vs1 s4 = (e, vs', t)"
    using less.hyps [OF that] by (simp add: n_def)
  show ?case
    using less.prems m more
    by (subst (asm) parse_elements.simps) (auto simp: 1 2 3 4 n_def simp del: slots.simps split: if_splits)
qed

lemma slots_setMember:
  assumes "map_of ms k = Some v"
  shows "slots (JObject (setMember k w ms)) + slots v = slots (JObject ms) + slots w"
  using assms by (induction k w ms rule: setMember.induct) (auto split: if_splits)

lemma member_frugal:
  assumes f: "\<And>flt. frugal (f flt)" and g: "frame.skips g" and r: "parse_member M f g F flt ms s = (e, ms', t)"
  shows "hold (slots (JObject ms')) t \<le> hold (slots (JObject ms)) s"
proof (cases "getMember (cstr (str M (j_mem s))) ms")
  case None
  obtain x s1 where 1: "save_string M s = (x, s1)" by (metis surj_pair)
  obtain ok m where 2: "addSlot M (j_mem s1) = (ok, m)" by (metis surj_pair)
  obtain e1 v1 s2 where 3: "f (memberFilter F (cstr (str M (j_mem s))) flt) JNull (s1\<lparr>j_mem := m\<rparr>) = (e1, v1, s2)"
    by (metis prod_cases3)
  have h: "hold n s1 = hold n s" for n
    using 1 save_right [of "j_mem s"] by (auto simp: save_string_def hold_def split: prod.splits)
  show ?thesis
    using r frugal_slot [OF f _ 3, of "slots (JObject ms)"] hold_slot [OF 2, of "slots (JObject ms)"] h
      hold_skipped [OF g, of s e t]
    by (auto simp: parse_member_def Let_def None 1 2 3 split: if_splits prod.splits)
next
  case (Some v)
  let ?k = "cstr (str M (j_mem s))"
  obtain e1 v1 s1 where 1: "f (memberFilter F ?k flt) v s = (e1, v1, s1)" by (metis prod_cases3)
  have "map_of ms ?k = Some v" using Some by (simp add: getMember_def cstr_def)
  then have "slots (JObject (setMember ?k v1 ms)) + slots v = slots (JObject ms) + slots v1" by (rule slots_setMember)
  then have "hold (slots (JObject (setMember ?k v1 ms))) s1 \<le> hold (slots (JObject ms)) s"
    by (rule hold_replace [OF frugalD [OF f 1]])
  then show ?thesis
    using r Some hold_skipped [OF g, of s e t]
    by (auto simp: parse_member_def Let_def 1 simp del: slots.simps split: if_splits prod.splits)
qed

lemma members_frugal:
  assumes f: "\<And>flt. frugal (f flt)" and g: "frame.skips g" and "parse_members M f g F flt ms s = (e, ms', t)"
  shows "hold (slots (JObject ms')) t \<le> hold (slots (JObject ms)) s"
  using assms(3)
proof (induction "length (j_in s)" arbitrary: ms s rule: less_induct)
  case less
  obtain e1 s1 where 1: "parseKey M s = (e1, s1)" by (metis surj_pair)
  obtain e2 s2 where 2: "skipSpacesAndComments s1 = (e2, s2)" by (metis surj_pair)
  obtain b3 s3 where 3: "eat (CHR '':'') s2 = (b3, s3)" by (metis surj_pair)
  obtain e4 ms4 s4 where 4: "parse_member M f g F flt ms s3 = (e4, ms4, s4)" by (metis prod_cases3)
  obtain e5 s5 where 5: "skipSpacesAndComments s4 = (e5, s5)" by (metis surj_pair)
  obtain b6 s6 where 6: "eat (CHR ''}'') s5 = (b6, s6)" by (metis surj_pair)
  obtain b7 s7 where 7: "eat (CHR '','') s6 = (b7, s7)" by (metis surj_pair)
  obtain e8 s8 where 8: "skipSpacesAndComments s7 = (e8, s8)" by (metis surj_pair)
  define n where "n = slots (JObject ms)"
  define n4 where "n4 = slots (JObject ms4)"
  have m: "hold n s1 \<le> hold n s" "hold n s2 = hold n s1" "hold n s3 = hold n s2" "hold n4 s4 \<le> hold n s3"
      "hold n4 s5 = hold n4 s4" "hold n4 s6 = hold n4 s5" "hold n4 s7 = hold n4 s6" "hold n4 s8 = hold n4 s7"
    using frame.R_key [OF 1] hold_spaces [OF 2] hold_eat [OF 3] member_frugal [of f, OF f g 4] hold_spaces [OF 5]
      hold_eat [OF 6] hold_eat [OF 7] hold_spaces [OF 8] hold_mono [of s1 s] by (simp_all add: n_def n4_def)
  have more: "hold (slots (JObject ms')) t \<le> hold n4 s8"
    if "length (j_in s8) < length (j_in s)" "parse_members M f g F flt ms4 s8 = (e, ms', t)"
    using less.hyps [OF that] by (simp add: n4_def)
  note r = less.prems [unfolded parse_members.simps [of M f g F flt ms s] 1 2 3 4 5 6 7 8 prod.case]
  have "ms' = ms \<and> hold n t \<le> hold n s \<or> ms' = ms4 \<and> hold n4 t \<le> hold n s \<or> hold (slots (JObject ms')) t \<le> hold n s"
    using r m more by (auto simp del: slots.simps split: if_splits)
  then show ?case by (auto simp: n_def n4_def simp del: slots.simps)
qed

lemma array_frugal:
  assumes f: "\<And>flt. frugal (f flt)" and g: "frame.skips g" and r: "parseArray M reached f g F flt s = (e, vs, t)"
  shows "hold (slots (JArray vs)) t \<le> hold n s"
proof -
  obtain e1 s1 where 1: "skipSpacesAndComments (move s) = (e1, s1)" by (metis surj_pair)
  obtain b2 s2 where 2: "eat (CHR '']'') s1 = (b2, s2)" by (metis surj_pair)
  have m: "hold k s1 = hold k s" "hold k s2 = hold k s1" for k
    using hold_spaces [OF 1] hold_eat [OF 2] by (simp_all add: hold_def move_def)
  have z: "hold 0 x \<le> hold n x" for x by (simp add: hold_def)
  have "hold (slots (JArray vs)) t \<le> hold 0 s"
    using r m [of 0] elements_frugal [OF f g, of "elementFilter F flt" "allow F (elementFilter F flt)" "[]" s2 e vs t]
    by (auto simp: parseArray_def 1 2 Let_def split: if_splits)
  then show ?thesis using z [of s] by simp
qed

lemma object_frugal:
  assumes f: "\<And>flt. frugal (f flt)" and g: "frame.skips g" and r: "parseObject M reached f g F flt s = (e, ms, t)"
  shows "hold (slots (JObject ms)) t \<le> hold n s"
proof -
  obtain e1 s1 where 1: "skipSpacesAndComments (move s) = (e1, s1)" by (metis surj_pair)
  obtain b2 s2 where 2: "eat (CHR ''}'') s1 = (b2, s2)" by (metis surj_pair)
  have m: "hold k s1 = hold k s" "hold k s2 = hold k s1" for k
    using hold_spaces [OF 1] hold_eat [OF 2] by (simp_all add: hold_def move_def)
  have z: "hold 0 x \<le> hold n x" for x by (simp add: hold_def)
  have "hold (slots (JObject ms)) t \<le> hold 0 s"
    using r m [of 0] members_frugal [of f, OF f g, of F flt "[]" s2 e ms t]
    by (auto simp: parseObject_def 1 2 split: if_splits)
  then show ?thesis using z [of s] by simp
qed

lemma slots_number: "parseNumber F cs = Some v \<Longrightarrow> slots v = 0"
proof -
  have t: "parse_float_tail F neg m x = Some v \<Longrightarrow> slots v = 0" for neg m x
    by (auto simp: parse_float_tail_def Let_def split: prod.splits if_splits option.splits)
  show "parseNumber F cs = Some v \<Longrightarrow> slots v = 0"
    by (auto simp: parseNumber_def Let_def split: prod.splits if_splits dest: t)
qed

lemma hold_less: "right (j_mem t) \<le> right (j_mem s) \<Longrightarrow> m \<le> n \<Longrightarrow> hold m t \<le> hold n s"
  by (simp add: hold_def add_mono)

lemma value_cases:
  assumes "skipSpacesAndComments s = (e1, s1)" and "parse_value M F reached f g flt v s = (e, v', t)"
  obtains vs where "parseArray M reached f g F flt s1 = (e, vs, t)" "v' = JArray vs"
  | ms where "parseObject M reached f g F flt s1 = (e, ms, t)" "v' = JObject ms"
  | "slots v' \<le> slots v"
proof -
  obtain ea vs ta where A: "parseArray M reached f g F flt s1 = (ea, vs, ta)" by (metis prod_cases3)
  obtain eo ms to where O: "parseObject M reached f g F flt s1 = (eo, ms, to)" by (metis prod_cases3)
  have str: "slots (fst (snd (parseStringValue M v s1))) \<le> slots v"
    by (auto simp: parseStringValue_def split: prod.splits)
  have num: "slots (fst (snd (parseNumericValue F v s1))) \<le> slots v"
    using slots_number [of F] by (auto simp: parseNumericValue_def Let_def split: option.splits)
  have "ea = e \<and> ta = t \<and> v' = JArray vs \<or> eo = e \<and> to = t \<and> v' = JObject ms \<or> slots v' \<le> slots v"
    using assms(2) str num
    by (simp add: parse_value_def assms(1) A O Let_def keyword_def case_prod_unfold
        del: skipKeyword.simps slots.simps(1,2) split: if_splits) auto
  then show thesis using A O that by blast
qed

lemma value_frugal:
  assumes f: "\<And>flt. frugal (f flt)" and p: "\<And>flt. frame.parses (f flt)" and g: "frame.skips g"
  shows "frugal (parse_value M F reached f g flt)"
  unfolding frugal_def
proof (intro allI impI)
  fix v s e v' t
  assume r: "parse_value M F reached f g flt v s = (e, v', t)"
  obtain e1 s1 where 1: "skipSpacesAndComments s = (e1, s1)" by (metis surj_pair)
  have eq: "hold (slots v) s1 = hold (slots v) s" using hold_spaces [OF 1] .
  have less: "right (j_mem t) \<le> right (j_mem s)"
    using frame.R_parse_value [of f g, OF p g] r unfolding frame.parses_def by blast
  show "hold (slots v') t \<le> hold (slots v) s"
  proof (rule value_cases [OF 1 r])
    show ?thesis if "parseArray M reached f g F flt s1 = (e, vs, t)" "v' = JArray vs" for vs
      using array_frugal [of f, OF f g that(1), of "slots v"] that(2) eq by (simp del: slots.simps)
    show ?thesis if "parseObject M reached f g F flt s1 = (e, ms, t)" "v' = JObject ms" for ms
      using object_frugal [of f, OF f g that(1), of "slots v"] that(2) eq by (simp del: slots.simps)
    show ?thesis if "slots v' \<le> slots v"
      using hold_less [OF less that] .
  qed
qed

lemma variant_frugal: "frugal (parseVariant M F n flt)"
proof (induction n arbitrary: flt)
  case 0
  have "frame.skips (\<lambda>s. (TooDeep, s))" "frame.parses (\<lambda>v s. (TooDeep, v, s))" "frugal (\<lambda>v s. (TooDeep, v, s))"
    by (auto simp: frame.skips_def frame.parses_def frugal_def)
  then show ?case unfolding parseVariant.simps by (intro value_frugal)
next
  case (Suc n)
  then show ?case by (simp add: value_frugal frame.R_parseVariant frame.R_skipVariant)
qed

text \<open>What a document holds fits into what was free.\<close>

lemma document_fits:
  "parse_json M F n flt JNull s = (e, v, t) \<Longrightarrow> SLOT_SIZE * slots v \<le> right (j_mem s)"
  using frugalD [OF variant_frugal, of F n flt JNull s]
  by (fastforce simp: parse_json_def hold_def split: prod.splits if_splits)

end

interpretation copied_slots: slot_memory copier_ops "\<lambda>c. p_right (c_pool c)"
proof
  show "p_right (c_pool m') + (if ok then SLOT_SIZE else 0) = p_right (c_pool m)"
    if "addSlot copier_ops m = (ok, m')" for m ok m'
    using that by (auto simp: copier_addSlot_def allocVariant_def canAlloc_def markAsOverflowed_def split: if_splits)
qed (auto simp: copier_start_simps copier_append_pool copier_save_def saveStringFromFreeZone_def split: option.splits)

interpretation moved_slots: slot_memory mover_ops "\<lambda>m. p_right (m_pool m)"
proof
  show "p_right (m_pool m') + (if ok then SLOT_SIZE else 0) = p_right (m_pool m)"
    if "addSlot mover_ops m = (ok, m')" for m ok m'
    using that by (auto simp: mover_addSlot_def allocVariant_def canAlloc_def markAsOverflowed_def split: if_splits)
qed (auto simp: mover_start_def mover_append_def mover_save_def)

lemma json_document_fits:
  "SLOT_SIZE * slots (fst (snd (deserializeJson F limit flt inp p))) \<le> p_end p"
  "SLOT_SIZE * slots (fst (snd (deserializeJson_inplace F limit flt inp p))) \<le> p_end p"
  using copied_slots.document_fits moved_slots.document_fits
  by (fastforce simp: deserializeJson_def deserializeJson_inplace_def split: prod.splits)+

end
