(* ===== verification/RelayDocument.thy ===== *)
theory RelayDocument
  imports ConnectionFetcher JsonVariant_Props JsonCapacity
begin

text \<open>
  The relay client on top of the JSON library: the document in which \<open>ConnectionFetcher.cpp\<close> parses every response, and
  what it reads from it. The theorem follows a response from the text the relay writes to the requests
  that reach the callback.
\<close>

section \<open>The document\<close>

definition type_long :: int_type where "type_long = \<lparr>type_signed = True, type_bits = 64\<rparr>"
definition type_int :: int_type where "type_int = \<lparr>type_signed = True, type_bits = 32\<rparr>"
definition type_unsigned :: int_type where "type_unsigned = \<lparr>type_signed = False, type_bits = 32\<rparr>"

text \<open>The members of \<open>conns[i]\<close>, as they are converted.\<close>

definition read_connection ::
    "'f float_ops \<Rightarrow> 'f float_format \<Rightarrow> 'f float_numbers \<Rightarrow> 'f jvariant \<Rightarrow> connection" where
  "read_connection F W X conn =
    \<lparr>c_client_id = asIntegral F X type_long (variant_member ''client_id'' conn),
     c_addr = as_std_string F W (variant_member ''addr'' conn),
     c_port = asIntegral F X type_int (variant_member ''port'' conn)\<rparr>"

definition read_document ::
    "'f float_ops \<Rightarrow> 'f float_format \<Rightarrow> 'f float_numbers \<Rightarrow> 'f jvariant \<Rightarrow> response_doc" where
  "read_document F W X doc =
    \<lparr>doc_id = (if has_member ''id'' doc
       then Some (word_of_int (asIntegral F X type_unsigned (variant_member ''id'' doc))) else None),
     doc_connections = (if has_member ''connections'' doc
       then let conns = variant_member ''connections'' doc in
         Some (map (\<lambda>i. read_connection F W X (variant_element i conns)) [0..<variant_size conns])
       else None)\<rparr>"

text \<open>
  \<open>DynamicJsonDocument doc{1000}\<close>: the pool is cleared by every \<open>deserializeJson\<close>, whose result is not looked at. The
  text is the C string in the first \<open>n\<close> bytes of the buffer. It is parsed in place; what the parser writes into the buffer
  is not followed, since the strings are read at once and the theorems hold for any buffer at the start of a round.
\<close>

definition relay_pool :: pool where
  "relay_pool = new_pool (addPadding 1000)"

definition buffer_text :: "nat \<Rightarrow> mem \<Rightarrow> string" where
  "buffer_text n m = takeWhile (\<lambda>c. c \<noteq> NUL) (map (\<lambda>b. char_of (unat b)) (mem_read m 0 n))"

definition parse_response ::
    "'f float_ops \<Rightarrow> 'f float_format \<Rightarrow> 'f float_numbers \<Rightarrow> nat \<Rightarrow> mem \<Rightarrow> response_doc" where
  "parse_response F W X n m =
    (case deserializeJson_inplace F DEFAULT_NESTING_LIMIT AllowAll (buffer_text n m) relay_pool of
       (err, doc, p) \<Rightarrow> read_document F W X doc)"

section \<open>What the relay writes\<close>

text \<open>A response with an id and connections, each a client id, an address and a port.\<close>

definition connection_value :: "u64 \<times> string \<times> u64 \<Rightarrow> 'f jvariant" where
  "connection_value c = (case c of (cid, addr, port) \<Rightarrow>
     JObject [(''client_id'', JSigned cid), (''addr'', JString addr), (''port'', JUnsigned port)])"

definition response_value :: "u32 \<Rightarrow> (u64 \<times> string \<times> u64) list \<Rightarrow> 'f jvariant" where
  "response_value i cs = JObject [(''id'', JUnsigned (ucast i)), (''connections'', JArray (map connection_value cs))]"

definition text_bytes :: "string \<Rightarrow> byte list" where
  "text_bytes = map of_char"

text \<open>The requests that should reach the callback.\<close>

definition wanted :: "(string \<Rightarrow> u32 option) \<Rightarrow> u32 \<Rightarrow> (u64 \<times> string \<times> u64) list \<Rightarrow> connect_request list" where
  "wanted parseIp i cs = concat (map (\<lambda>(cid, addr, port).
     if 1 \<le> sint cid \<and> 1 \<le> uint port \<and> uint port \<le> 65535 then
       (case parseIp addr of None \<Rightarrow> [] | Some ip \<Rightarrow> [\<lparr>cr_id = i, cr_addr = (ip, ucast port)\<rparr>])
     else []) cs)"

lemma writeUnsigned_clean: "NUL \<notin> set (writeUnsigned m)"
  using writeUnsigned_spec [of m] by (auto simp: list_all_iff is_digit_def)

lemma writeString_clean: "NUL \<notin> set (writeString s)"
proof -
  have "NUL \<notin> set (writeChar c)" for c
    by (auto simp: writeChar_def Let_def BACKSLASH_def)
  then show ?thesis by (auto simp: writeString_def QUOTE_def)
qed

lemma separated_clean: "\<forall>x\<in>set xs. NUL \<notin> set x \<Longrightarrow> NUL \<notin> set (separated xs)"
  by (induction xs rule: separated.induct) auto

lemma serialize_clean: "plain v \<Longrightarrow> NUL \<notin> set (serialize F W v)"
proof (induction v)
  case (JArray vs)
  have "NUL \<notin> set (separated (map (serialize F W) vs))" using JArray by (intro separated_clean) auto
  then show ?case by simp
next
  case (JObject ms)
  have "NUL \<notin> set (separated (map (\<lambda>(k, v). writeString k @ CHR '':'' # serialize F W v) ms))"
    using JObject by (intro separated_clean) (auto simp: writeString_clean)
  then show ?case by simp
qed (simp_all add: writeUnsigned_clean writeString_clean writeSigned_def writeBoolean_def)

section \<open>From the buffer to the document\<close>

lemma byte_back: "char_of (unat (of_char c :: byte)) = c"
proof -
  have "(of_char c :: byte) = word_of_nat (of_char c)" by (rule of_nat_of_char [symmetric])
  then have "unat (of_char c :: byte) = of_char c"
    using nat_of_char_less_256 [of c] by (simp only: unat_of_nat) (simp add: take_bit_nat_eq_self)
  then show ?thesis by simp
qed

lemma text_back: "map (\<lambda>b. char_of (unat b)) (text_bytes t) = t"
  by (simp add: text_bytes_def byte_back comp_def)

lemma buffer_text_written:
  assumes "NUL \<notin> set t" and "length t \<le> n"
  shows "\<exists>rest. buffer_text n (mem_write m 0 (text_bytes t)) = t @ rest"
proof -
  let ?m = "mem_write m 0 (text_bytes t)"
  have l: "length (text_bytes t) = length t" by (simp add: text_bytes_def)
  have "mem_read ?m 0 n = mem_read ?m 0 (length t) @ mem_read ?m (length t) (n - length t)"
    using mem_read_append [of ?m 0 "length t" "n - length t"] assms(2) by simp
  moreover have "mem_read ?m 0 (length t) = text_bytes t" using mem_read_write_same [of m 0 "text_bytes t"] l by simp
  ultimately have "map (\<lambda>b. char_of (unat b)) (mem_read ?m 0 n) =
      t @ map (\<lambda>b. char_of (unat b)) (mem_read ?m (length t) (n - length t))"
    by (simp add: text_back)
  then show ?thesis using assms(1) by (auto simp: buffer_text_def takeWhile_append)
qed

lemma connection_size [simp]:
  "depth (connection_value c) = 1" "need (\<lambda>_. 0) (connection_value c) = 96" "plain (connection_value c)"
  by (cases c; simp add: connection_value_def SLOT_SIZE_def)+

lemma response_depth: "depth (response_value i cs) \<le> Suc 9"
  by (simp add: response_value_def fold_max_le)

lemma response_need: "need (\<lambda>_. 0) (response_value i cs) = 64 + 128 * length cs"
  by (simp add: response_value_def SLOT_SIZE_def comp_def sum_list_triv)

lemma response_plain: "plain (response_value i cs)"
  by (simp add: response_value_def)

lemma object_parsed:
  "v = JObject ms \<Longrightarrow> plain v \<Longrightarrow> depth v \<le> Suc 9 \<Longrightarrow> need (\<lambda>_. 0) v \<le> p_end p \<Longrightarrow>
   \<exists>q. deserializeJson_inplace F DEFAULT_NESTING_LIMIT AllowAll (serialize F W v @ rest) p = (Ok, canonical v, q)"
  using in_place.object_document_read [of ms 9 "\<lparr>j_in = serialize F W v @ rest, j_found = False,
    j_mem = \<lparr>m_pool = clear_pool p, m_text = [], m_write = 0\<rparr>\<rparr>" F W rest]
  by (auto simp: deserializeJson_inplace_def DEFAULT_NESTING_LIMIT_def simp del: parse_json_def plain.simps depth.simps need.simps
      serialize.simps canonical.simps)

lemma response_parsed:
  assumes "length cs \<le> 7"
  shows "\<exists>q. deserializeJson_inplace F DEFAULT_NESTING_LIMIT AllowAll (serialize F W (response_value i cs) @ rest) relay_pool =
    (Ok, canonical (response_value i cs), q)"
proof (rule object_parsed)
  show "response_value i cs = JObject [(''id'', JUnsigned (ucast i)), (''connections'', JArray (map connection_value cs))]"
    by (simp add: response_value_def)
  show "need (\<lambda>_. 0) (response_value i cs) \<le> p_end relay_pool"
    using assms by (simp add: response_need relay_pool_def new_pool_def addPadding_def)
qed (rule response_plain response_depth)+

text \<open>What the fetcher reads of a connection: the port is 0 when it does not fit into an \<open>int\<close>.\<close>

definition converted :: "u64 \<times> string \<times> u64 \<Rightarrow> connection" where
  "converted c = (case c of (cid, addr, port) \<Rightarrow>
     \<lparr>c_client_id = sint cid, c_addr = addr, c_port = (if fits type_int (uint port) then uint port else 0)\<rparr>)"

lemma getMember_here [simp]:
  "getMember k ((l, v) # ms) = (if cstr k = l then Some v else getMember k ms)" "getMember k [] = None"
  by (simp_all add: getMember_def)

lemma cstr_names [simp]:
  "cstr ''client_id'' = ''client_id''" "cstr ''addr'' = ''addr''" "cstr ''port'' = ''port''"
  "cstr ''id'' = ''id''" "cstr ''connections'' = ''connections''"
  by (simp_all add: cstr_def)

lemma read_connection_back: "read_connection F W X (canonical (connection_value c)) = converted c"
proof -
  obtain cid addr port where c: "c = (cid, addr, port)" by (metis prod_cases3)
  have "asIntegral F X type_long (canonical_int cid) = sint cid"
  proof -
    have "asIntegral F X type_long (canonical_int cid) = number_as X type_long (canonical_int cid)"
      by (simp add: canonical_int_def)
    then show ?thesis using integral_conversion [of type_long X cid] sint_ge [of cid] sint_lt [of cid]
      by (simp add: type_long_def fits_def lowest_def highest_def)
  qed
  moreover have "asIntegral F X type_int (JUnsigned port) = (if fits type_int (uint port) then uint port else 0)"
    using convert_unsigned_exact [of type_int port] by (simp add: type_int_def)
  ultimately show ?thesis
    by (simp add: c connection_value_def read_connection_def converted_def as_std_string_def)
qed

lemma read_document_back:
  "read_document F W X (canonical (response_value i cs)) = \<lparr>doc_id = Some i, doc_connections = Some (map converted cs)\<rparr>"
proof -
  have "uint (ucast i :: u64) = uint i" by (simp add: uint_up_ucast is_up)
  then have "asIntegral F X type_unsigned (JUnsigned (ucast i)) = uint i"
    using convert_unsigned_exact [of type_unsigned "ucast i"] unsigned_less [of i, where 'a = int]
    by (simp add: type_unsigned_def fits_def lowest_def highest_def)
  moreover have "map (\<lambda>j. read_connection F W X
      (if j < length cs then map (\<lambda>c. canonical (connection_value c)) cs ! j else JNull)) [0..<length cs] = map converted cs"
    by (rule nth_equalityI) (simp_all add: read_connection_back)
  ultimately show ?thesis
    by (simp add: read_document_def response_value_def comp_def)
qed

lemma requests_wanted: "collect_requests pip i (map converted cs) = wanted pip i cs"
proof (induction cs)
  case (Cons c cs)
  obtain cid addr port where c: "c = (cid, addr, port)" by (metis prod_cases3)
  have "word_of_int (uint port) = (ucast port :: u16)" by simp
  then show ?case using Cons
    by (auto simp: c wanted_def converted_def fits_def type_int_def lowest_def highest_def split: option.split)
qed (simp add: wanted_def)

section \<open>A response reaches the callback\<close>

text \<open>
  C25. From the relay's text to the callback: a round of the fetcher in which no STUN query is due and that is answered
  with status 200 and, in one piece, the JSON text of a response with an id and at most seven connections takes over
  the id and hands exactly the valid connections to its callback, in order and in one call, or makes no call if there are none. Valid are the
  connections with a client id of at least 1, a port from 1 to 65535 and an address that the parser of addresses
  accepts. The text must fit into the response buffer; whatever an earlier response left behind it does not matter.
\<close>

theorem relay_requests_delivered:
  assumes "f_shouldRun f" and "a_now a - f_lastUpdate f < STUN_INTERVAL" and "a_http a = Some 200"
    and "t = serialize F W (response_value i cs)" and "a_chunks a = [text_bytes t]" and "length cs \<le> 7"
    and "length t \<le> rb_alloc r" and "length t \<le> rb_len r" and "length t \<le> n"
  shows "\<exists>f' r'. fetch_round ips pip (parse_response F W X n) ok a (f, r) = Inr (f', r') \<and> f_id f' = i \<and>
    f_requests f' = f_requests f @ (if wanted pip i cs = [] then [] else [wanted pip i cs])"
proof -
  let ?r = "r\<lparr>rb_ind := 0, rb_buf := mem_write (rb_buf r) 0 (text_bytes t)\<rparr>"
  have l: "length (text_bytes t) = length t" by (simp add: text_bytes_def)
  have chunks: "read_chunks ok (a_chunks a) (r\<lparr>rb_ind := 0\<rparr>) = Inr ?r"
    using assms(7,8) l by (simp add: assms(5) reader_def Let_def)
  have clean: "NUL \<notin> set t" unfolding assms(4) by (rule serialize_clean [OF response_plain])
  obtain rest where "buffer_text n (mem_write (rb_buf r) 0 (text_bytes t)) = t @ rest"
    using buffer_text_written [OF clean assms(9), of "rb_buf r"] by auto
  then have doc: "parse_response F W X n (mem_write (rb_buf r) 0 (text_bytes t)) = \<lparr>doc_id = Some i, doc_connections = Some (map converted cs)\<rparr>"
    using response_parsed [OF assms(6), of F W i rest] assms(4) by (auto simp: parse_response_def read_document_back)
  show ?thesis
    using assms(1-3) by (auto simp: fetch_round_def chunks doc apply_response_def updateURL_def requests_wanted Let_def)
qed


text \<open>A response with two connections, one of which has a port that is out of range.\<close>

definition relay_connections :: "(u64 \<times> string \<times> u64) list" where
  "relay_connections = [(4, ''x'', 80), (5, ''x'', 70000)]"

definition relay_answer :: "string \<Rightarrow> answers" where
  "relay_answer t = \<lparr>a_now = 0, a_stun = None, a_stun_done = 0, a_http = Some 200, a_chunks = [text_bytes t]\<rparr>"

lemma relay_text:
  "serialize unit_floats unit_format (response_value 9 relay_connections) =
   ''{\"id\":9,\"connections\":[{\"client_id\":4,\"addr\":\"x\",\"port\":80},{\"client_id\":5,\"addr\":\"x\",\"port\":70000}]}''"
  by code_simp

theorem relay_requests_delivered_witness:
  "\<exists>f r. fetch_round (\<lambda>_. []) (\<lambda>_. Some 7) (parse_response unit_floats unit_format no_floats 1000) True
     (relay_answer (serialize unit_floats unit_format (response_value 9 relay_connections)))
     (demo_fetcher, new_response 1000 (\<lambda>_. 255)) = Inr (f, r) \<and>
   f_requests f = [[\<lparr>cr_id = 9, cr_addr = (7, 80)\<rparr>]]"
proof -
  let ?t = "serialize unit_floats unit_format (response_value 9 relay_connections)"
  have "length ?t \<le> 1000" unfolding relay_text by simp
  moreover have "wanted (\<lambda>_. Some 7) 9 relay_connections = [\<lparr>cr_id = 9, cr_addr = (7, 80)\<rparr>]"
    by (simp add: wanted_def relay_connections_def)
  ultimately show ?thesis
    using relay_requests_delivered [of demo_fetcher "relay_answer ?t" ?t unit_floats unit_format 9 relay_connections
        "new_response 1000 (\<lambda>_. 255)" 1000 "\<lambda>_. []" "\<lambda>_. Some 7" no_floats True]
    by (auto simp: relay_answer_def demo_fetcher_def new_fetcher_def start_fetcher_def validateServerName_def
        STUN_INTERVAL_def new_response_def relay_connections_def)
qed

section \<open>How many requests a response can carry\<close>

lemma slots_members: "length ms \<le> slots (JObject ms)"
  by (induction ms) auto

lemma missing_converts:
  "asIntegral F X T JNull = 0" "as_std_string F W JNull = ''null''"
  by (simp_all add: as_std_string_def)

lemma member_present: "variant_member k v \<noteq> JNull \<Longrightarrow> cstr k = k \<Longrightarrow> \<exists>ms. v = JObject ms \<and> k \<in> fst ` set ms"
  by (cases "(k, v)" rule: variant_member.cases) (force simp: getMember_def dest!: map_of_SomeD split: option.splits)+

text \<open>A connection that passes the checks takes four slots: its own and those of its three members.\<close>

lemma valid_connection_slots:
  assumes "1 \<le> c_client_id (read_connection F W X v)" and "1 \<le> c_port (read_connection F W X v)"
    and "pip (c_addr (read_connection F W X v)) \<noteq> None" and "pip ''null'' = None"
  shows "3 \<le> slots v"
proof -
  have p: "variant_member ''client_id'' v \<noteq> JNull" "variant_member ''addr'' v \<noteq> JNull" "variant_member ''port'' v \<noteq> JNull"
    using assms by (auto simp: read_connection_def missing_converts)
  then obtain ms where v: "v = JObject ms" and "{''client_id'', ''addr'', ''port''} \<subseteq> fst ` set ms"
    using member_present [OF p(1)] member_present [OF p(2)] member_present [OF p(3)] by auto
  then have "card {''client_id'', ''addr'', ''port''} \<le> card (fst ` set ms)" by (intro card_mono) simp_all
  also have "\<dots> \<le> length ms" using card_image_le [of "set ms" fst] card_length [of ms] by simp
  finally show ?thesis using slots_members [of ms] v by simp
qed

lemma collected_slots:
  assumes "pip ''null'' = None"
  shows "4 * length (collect_requests pip i (map (read_connection F W X) vs)) \<le> slots (JArray vs)"
proof (induction vs)
  case (Cons v vs)
  then show ?case using valid_connection_slots [of F W X v pip] assms
    by (auto split: option.split)
qed simp

lemma no_connections: "collect_requests pip i (map (\<lambda>_. read_connection F W X JNull) is) = []"
  by (induction "is") (simp_all add: read_connection_def missing_converts)

lemma elements_of_array: "map (\<lambda>j. variant_element j (JArray vs)) [0..<length vs] = vs"
  by (rule nth_equalityI) simp_all

lemma connections_slots:
  assumes "pip ''null'' = None"
  shows "4 * length (collect_requests pip i
    (map (\<lambda>j. read_connection F W X (variant_element j conns)) [0..<variant_size conns])) \<le> slots conns"
proof (cases conns)
  case (JArray vs)
  have "map (\<lambda>j. read_connection F W X (variant_element j conns)) [0..<variant_size conns] = map (read_connection F W X) vs"
    using arg_cong [OF elements_of_array [of vs], of "map (read_connection F W X)"] by (simp add: JArray comp_def)
  then show ?thesis using collected_slots [of pip i F W X vs] assms JArray by simp
qed (simp_all add: no_connections)

lemma document_slots:
  assumes "doc_connections (read_document F W X doc) = Some cs" and "pip ''null'' = None"
  shows "4 * length (collect_requests pip i cs) + 1 \<le> slots doc"
proof -
  have "has_member ''connections'' doc" using assms(1) by (auto simp: read_document_def split: if_splits)
  then obtain ms c where doc: "doc = JObject ms" and c: "(''connections'', c) \<in> set ms" "variant_member ''connections'' doc = c"
  proof (cases doc)
    case (JObject ms)
    then obtain c where "map_of ms ''connections'' = Some c"
      using \<open>has_member ''connections'' doc\<close> by (auto simp: getMember_def)
    then show thesis using that [OF JObject] JObject map_of_SomeD by (fastforce simp: getMember_def)
  qed auto
  have "1 + slots c \<le> slots doc"
    using c(1) member_le_sum_list [of "1 + slots c" "map (\<lambda>(k, v). 1 + slots v) ms"] by (force simp: doc)
  then show ?thesis
    using assms connections_slots [of pip i F W X c] c(2) by (auto simp: read_document_def Let_def split: if_splits)
qed

lemma response_capacity:
  assumes "doc_connections (parse_response F W X n m) = Some cs" and "pip ''null'' = None"
  shows "length (collect_requests pip i cs) \<le> 7"
proof -
  obtain e doc p where d: "deserializeJson_inplace F DEFAULT_NESTING_LIMIT AllowAll (buffer_text n m) relay_pool = (e, doc, p)"
    by (metis prod_cases3)
  have "SLOT_SIZE * slots doc \<le> 1000"
    using json_document_fits(2) [of F DEFAULT_NESTING_LIMIT AllowAll "buffer_text n m" relay_pool] d
    by (simp add: relay_pool_def new_pool_def addPadding_def)
  then have "slots doc \<le> 31" by (simp add: SLOT_SIZE_def)
  moreover have "doc_connections (read_document F W X doc) = Some cs" using assms(1) d by (simp add: parse_response_def)
  ultimately show ?thesis using document_slots [of F W X doc cs pip i] assms(2) by simp
qed

text \<open>
  C26. A response carries at most seven requests: whatever the relay sends, in whatever pieces, a round of the fetcher
  makes at most one call of its callback, with at most seven connections, as long as the parser of addresses does not
  accept the text null. The document of 1000 bytes has 31 slots, every request takes four of them, and the
  connections behind the last slot are dropped without an error, since the result of the parser is not looked at.
\<close>

theorem relay_capacity:
  assumes "fetch_round ips pip (parse_response F W X n) ok a (f, r) = Inr (f', r')" and "pip ''null'' = None"
  shows "\<exists>calls. f_requests f' = f_requests f @ calls \<and> length calls \<le> 1 \<and> (\<forall>rs\<in>set calls. length rs \<le> 7)"
proof -
  have failed: "f_requests (fetch_failed g) = f_requests g" for g
    by (simp add: fetch_failed_def stop_fetcher_def)
  have addr: "f_requests (snd (updateAddress ips a g)) = f_requests g" for g
    by (simp add: updateAddress_def updateURL_def Let_def split: option.split)
  have applied: "\<exists>calls. f_requests (apply_response ips pip (parse_response F W X n m) g) = f_requests g @ calls \<and>
      length calls \<le> 1 \<and> (\<forall>rs\<in>set calls. length rs \<le> 7)" for g m
    using response_capacity [of F W X n m _ pip] assms(2)
    by (auto simp: apply_response_def updateURL_def Let_def split: option.splits)
  show ?thesis
    using assms(1) applied [of _ f] applied [of _ "snd (updateAddress ips a f)"] unfolding fetch_round_def Let_def
    by (auto simp: case_prod_unfold failed addr split: if_splits sum.splits)
qed

theorem relay_capacity_witness:
  "\<exists>calls. f_requests (fst (projr (fetch_round (\<lambda>_. []) (\<lambda>s. if s = ''x'' then Some 7 else None)
       (parse_response unit_floats unit_format no_floats 1000) True
       (relay_answer (serialize unit_floats unit_format (response_value 9 relay_connections))) (demo_fetcher, new_response 1000 (\<lambda>_. 255))))) = calls \<and>
   length calls \<le> 1 \<and> (\<forall>rs\<in>set calls. length rs \<le> 7)"
proof -
  obtain f r where "fetch_round (\<lambda>_. []) (\<lambda>s. if s = ''x'' then Some 7 else None)
       (parse_response unit_floats unit_format no_floats 1000) True
       (relay_answer (serialize unit_floats unit_format (response_value 9 relay_connections))) (demo_fetcher, new_response 1000 (\<lambda>_. 255)) = Inr (f, r)"
    by (auto simp: relay_answer_def demo_fetcher_def new_fetcher_def start_fetcher_def validateServerName_def
        STUN_INTERVAL_def new_response_def fetch_round_def Let_def text_bytes_def reader_def relay_text)
  then show ?thesis
    using relay_capacity [of "\<lambda>_. []" "\<lambda>s. if s = ''x'' then Some 7 else None" unit_floats unit_format no_floats 1000 True
        "relay_answer (serialize unit_floats unit_format (response_value 9 relay_connections))" demo_fetcher "new_response 1000 (\<lambda>_. 255)" f r]
    by (simp add: demo_fetcher_def new_fetcher_def start_fetcher_def validateServerName_def)
qed

end
