(* ===== verification/JsonDocument.thy ===== *)
theory JsonDocument
  imports JsonRound JsonCapacity
begin

text \<open>
  Documents: a root value with the pool it lives in (\<open>JsonDocument.hpp\<close>, \<open>BasicJsonDocument.hpp\<close>), the copying of values
  between them, and the reclaiming of memory. A value is the tree of its slots; whether its
  strings belong to the pool or are only linked is a flag of the copy, the same for all strings of the source.
\<close>

section \<open>Copying a value\<close>

text \<open>
  \<open>CollectionData::copyFrom\<close>, over the functions that copy the elements: a slot is taken first, and stays in the
  collection when its value cannot be copied. A member whose key cannot be saved is taken out again; its slot is lost.
\<close>

fun copy_elements ::
    "(pool \<Rightarrow> bool \<times> 'f jvariant \<times> pool) list \<Rightarrow> pool \<Rightarrow> bool \<times> 'f jvariant list \<times> pool" where
  "copy_elements [] p = (True, [], p)"
| "copy_elements (f # fs) p = (case allocVariant p of (ok, p) \<Rightarrow> if \<not> ok then (False, [], p) else
     case f p of (ok, v, p) \<Rightarrow> if \<not> ok then (False, [v], p) else
     case copy_elements fs p of (ok, vs, p) \<Rightarrow> (ok, v # vs, p))"

definition store_key :: "bool \<Rightarrow> string \<Rightarrow> pool \<Rightarrow> bool \<times> pool" where
  "store_key copied k p = (if copied then case saveString k p of (i, p) \<Rightarrow> (i \<noteq> None, p) else (True, p))"

fun copy_members ::
    "bool \<Rightarrow> (string \<times> (pool \<Rightarrow> bool \<times> 'f jvariant \<times> pool)) list \<Rightarrow> pool \<Rightarrow>
     bool \<times> (string \<times> 'f jvariant) list \<times> pool" where
  "copy_members copied [] p = (True, [], p)"
| "copy_members copied ((k, f) # fs) p = (case allocVariant p of (ok, p) \<Rightarrow> if \<not> ok then (False, [], p) else
     case store_key copied (cstr k) p of (ok, p) \<Rightarrow> if \<not> ok then (False, [], p) else
     case f p of (ok, v, p) \<Rightarrow> if \<not> ok then (False, [(cstr k, v)], p) else
     case copy_members copied fs p of (ok, ms, p) \<Rightarrow> (ok, (cstr k, v) # ms, p))"

text \<open>\<open>storeString\<close> with a copy of the text: a text that cannot be saved leaves null behind.\<close>

definition store_text :: "'f jvariant \<Rightarrow> string \<Rightarrow> pool \<Rightarrow> bool \<times> 'f jvariant \<times> pool" where
  "store_text v s p = (case saveString s p of (Some i, p) \<Rightarrow> (True, v, p) | (None, p) \<Rightarrow> (False, JNull, p))"

definition setString :: "string \<Rightarrow> pool \<Rightarrow> bool \<times> 'f jvariant \<times> pool" where
  "setString s = store_text (JString s) s"

definition storeOwnedRaw :: "string \<Rightarrow> pool \<Rightarrow> bool \<times> 'f jvariant \<times> pool" where
  "storeOwnedRaw s = store_text (JRaw s) s"

fun copyFrom :: "bool \<Rightarrow> 'f jvariant \<Rightarrow> pool \<Rightarrow> bool \<times> 'f jvariant \<times> pool" where
  "copyFrom copied (JArray vs) p = (case copy_elements (map (copyFrom copied) vs) p of (ok, ws, p) \<Rightarrow> (ok, JArray ws, p))"
| "copyFrom copied (JObject ms) p =
     (case copy_members copied (map (\<lambda>(k, v). (k, copyFrom copied v)) ms) p of (ok, ns, p) \<Rightarrow> (ok, JObject ns, p))"
| "copyFrom copied (JString s) p = (if copied then setString s p else (True, JString s, p))"
| "copyFrom copied (JRaw s) p = (if copied then storeOwnedRaw s p else (True, JRaw s, p))"
| "copyFrom copied v p = (True, v, p)"

section \<open>Documents\<close>

record 'f document =
  d_data :: "'f jvariant"
  d_pool :: pool

text \<open>\<open>allocPool\<close>: when the allocator has no memory the pool has no capacity.\<close>

definition allocPool :: "bool \<Rightarrow> nat \<Rightarrow> pool" where
  "allocPool ok n = new_pool (if ok then addPadding n else 0)"

definition new_document :: "bool \<Rightarrow> nat \<Rightarrow> 'f document" where
  "new_document ok n = \<lparr>d_data = JNull, d_pool = allocPool ok n\<rparr>"

definition clear_document :: "'f document \<Rightarrow> 'f document" where
  "clear_document d = \<lparr>d_data = JNull, d_pool = clear_pool (d_pool d)\<rparr>"

text \<open>What a \<open>set\<close> returns: not whether the copy succeeded but whether the pool has never overflowed.\<close>

definition set_result :: "pool \<Rightarrow> bool" where
  "set_result p = (\<not> p_overflowed p)"

text \<open>\<open>set\<close>: the document is cleared and the value copied into its root.\<close>

definition set_document :: "bool \<Rightarrow> 'f jvariant \<Rightarrow> 'f document \<Rightarrow> bool \<times> 'f document" where
  "set_document copied v d = (case copyFrom copied v (d_pool (clear_document d)) of
     (ok, w, p) \<Rightarrow> (set_result p, \<lparr>d_data = w, d_pool = p\<rparr>))"

definition capacity :: "'f document \<Rightarrow> nat" where
  "capacity d = p_end (d_pool d)"

definition memory_usage :: "'f document \<Rightarrow> nat" where
  "memory_usage d = pool_size (d_pool d)"

definition reallocPool :: "bool \<Rightarrow> nat \<Rightarrow> 'f document \<Rightarrow> 'f document" where
  "reallocPool ok n d = (let capa = addPadding n in
     if capa = capacity d then d else d\<lparr>d_pool := allocPool ok (addPadding n)\<rparr>)"

text \<open>\<open>copyAssignFrom\<close> on named documents, since the source may be the document itself.\<close>

definition copyAssignFrom :: "bool \<Rightarrow> bool \<Rightarrow> 'n \<Rightarrow> 'n \<Rightarrow> ('n \<Rightarrow> 'f document) \<Rightarrow> 'n \<Rightarrow> 'f document" where
  "copyAssignFrom ok copied dst src D =
    (let D = D(dst := reallocPool ok (capacity (D src)) (D dst));
         D = D(dst := clear_document (D dst));
         (done, v, p) = copyFrom copied (d_data (D src)) (d_pool (D dst))
     in D(dst := \<lparr>d_data = v, d_pool = p\<rparr>))"

text \<open>\<open>garbageCollect\<close>: the temporary is constructed without a pool and assigned to, then moved here.\<close>

definition garbageCollect :: "bool \<Rightarrow> bool \<Rightarrow> 'f document \<Rightarrow> bool \<times> 'f document" where
  "garbageCollect ok copied d =
    (let tmp = reallocPool ok (capacity d) \<lparr>d_data = JNull, d_pool = new_pool 0\<rparr>;
         tmp = snd (set_document copied (d_data d) tmp)
     in if capacity tmp = 0 then (False, d) else (True, tmp))"

text \<open>\<open>shrinkToFit\<close>, where the smaller block is granted: the pointers move with it, the tree stays.\<close>

definition shrinkToFit :: "'f document \<Rightarrow> 'f document" where
  "shrinkToFit d = d\<lparr>d_pool := snd (squash (d_pool d))\<rparr>"

text \<open>The root as an array or an object: null becomes one of them first.\<close>

definition root_array :: "'f jvariant \<Rightarrow> 'f jvariant list option" where
  "root_array v = (case v of JNull \<Rightarrow> Some [] | JArray vs \<Rightarrow> Some vs | _ \<Rightarrow> None)"

definition root_object :: "'f jvariant \<Rightarrow> (string \<times> 'f jvariant) list option" where
  "root_object v = (case v of JNull \<Rightarrow> Some [] | JObject ms \<Rightarrow> Some ms | _ \<Rightarrow> None)"

text \<open>
  \<open>add(value)\<close>: a new element, then the value copied into it. Where there is no element to copy to, nothing
  happens, and the result is again that of the pool.
\<close>

definition add_value :: "bool \<Rightarrow> 'f jvariant \<Rightarrow> 'f document \<Rightarrow> bool \<times> 'f document" where
  "add_value copied v d =
    (let d = (case root_array (d_data d) of None \<Rightarrow> d | Some vs \<Rightarrow>
       case allocVariant (d_pool d) of (ok, p) \<Rightarrow> if \<not> ok then \<lparr>d_data = JArray vs, d_pool = p\<rparr> else
       case copyFrom copied v p of (ok, w, p) \<Rightarrow> \<lparr>d_data = JArray (vs @ [w]), d_pool = p\<rparr>)
     in (set_result (d_pool d), d))"

text \<open>\<open>doc[key] = value\<close>: the member is looked up, or added with its key, then the value copied into it.\<close>

definition set_member :: "bool \<Rightarrow> string \<Rightarrow> 'f jvariant \<Rightarrow> 'f document \<Rightarrow> bool \<times> 'f document" where
  "set_member copied k v d =
    (let d = (case root_object (d_data d) of None \<Rightarrow> d | Some ms \<Rightarrow>
       case getMember k ms of
         Some old \<Rightarrow> (case copyFrom copied v (d_pool d) of
           (ok, w, p) \<Rightarrow> \<lparr>d_data = JObject (setMember (cstr k) w ms), d_pool = p\<rparr>)
       | None \<Rightarrow> (case allocVariant (d_pool d) of (ok, p) \<Rightarrow> if \<not> ok then \<lparr>d_data = JObject ms, d_pool = p\<rparr> else
           case store_key copied (cstr k) p of (ok, p) \<Rightarrow> if \<not> ok then \<lparr>d_data = JObject ms, d_pool = p\<rparr> else
           case copyFrom copied v p of (ok, w, p) \<Rightarrow> \<lparr>d_data = JObject (ms @ [(cstr k, w)]), d_pool = p\<rparr>))
     in (set_result (d_pool d), d))"

text \<open>Removing does not release memory.\<close>

definition remove_index :: "nat \<Rightarrow> 'f document \<Rightarrow> 'f document" where
  "remove_index i d = (case d_data d of JArray vs \<Rightarrow> d\<lparr>d_data := JArray (take i vs @ drop (Suc i) vs)\<rparr> | _ \<Rightarrow> d)"

fun remove_first :: "string \<Rightarrow> (string \<times> 'f jvariant) list \<Rightarrow> (string \<times> 'f jvariant) list" where
  "remove_first k [] = []"
| "remove_first k ((l, v) # ms) = (if l = k then ms else (l, v) # remove_first k ms)"

definition remove_key :: "string \<Rightarrow> 'f document \<Rightarrow> 'f document" where
  "remove_key k d = (case d_data d of JObject ms \<Rightarrow> d\<lparr>d_data := JObject (remove_first (cstr k) ms)\<rparr> | _ \<Rightarrow> d)"

end
