(* ===== verification/JsonDocument_Props.thy ===== *)
theory JsonDocument_Props
  imports JsonDocument
begin

text \<open>
  What a document holds after any operations on it, and that reclaiming its memory never loses anything. The texts in
  the pool are a list without repetitions, since a text that is saved is looked up first.
\<close>

section \<open>The texts of a pool\<close>

definition pool_text :: "string list \<Rightarrow> string" where
  "pool_text ds = concat (map (\<lambda>s. s @ [NUL]) ds)"

definition text_size :: "string list \<Rightarrow> nat" where
  "text_size ds = sum_list (map (\<lambda>s. Suc (length s)) ds)"

lemma pool_text_simps [simp]:
  "pool_text [] = []" "pool_text (d # ds) = d @ NUL # pool_text ds" "pool_text (ds @ es) = pool_text ds @ pool_text es"
  by (simp_all add: pool_text_def)

lemma text_size_simps [simp]:
  "text_size [] = 0" "text_size (d # ds) = Suc (length d) + text_size ds" "text_size (ds @ es) = text_size ds + text_size es"
  by (simp_all add: text_size_def)

lemma length_pool_text [simp]: "length (pool_text ds) = text_size ds"
  by (induction ds) simp_all

lemma text_size_member: "s \<in> set ds \<Longrightarrow> length s < text_size ds"
  by (induction ds) auto

lemma findString_clean:
  assumes "NUL \<notin> set s" and "\<forall>d\<in>set ds. NUL \<notin> set d"
  shows "findString s (pool_text ds) \<noteq> None \<longleftrightarrow> s \<in> set ds"
  using assms(2)
proof (induction ds)
  case Nil
  then show ?case by (simp add: findString.simps)
next
  case (Cons d ds)
  let ?z = "d @ NUL # pool_text ds"
  have d: "NUL \<notin> set d" using Cons.prems by simp
  have here: "?z ! length s = NUL \<and> take (length s) ?z = s \<longleftrightarrow> d = s" if "length s < length ?z"
  proof
    assume a: "?z ! length s = NUL \<and> take (length s) ?z = s"
    have "?z = take (length s) ?z @ ?z ! length s # drop (Suc (length s)) ?z"
      using that by (rule id_take_nth_drop)
    then have "takeWhile (\<lambda>c. c \<noteq> NUL) ?z = takeWhile (\<lambda>c. c \<noteq> NUL) (s @ NUL # drop (Suc (length s)) ?z)"
      using a by metis
    then show "d = s" using d assms(1) by (auto simp: takeWhile_append split: if_splits)
  qed (simp add: nth_append)
  have rest: "tl (dropWhile (\<lambda>c. c \<noteq> NUL) ?z) = pool_text ds"
    using d by (simp add: dropWhile_append)
  show ?case
  proof (cases "length s < length ?z")
    case True
    then show ?thesis using here rest Cons by (subst findString.simps) auto
  next
    case False
    then have "s \<notin> set (d # ds)" using text_size_member [of s "d # ds"] by auto
    then show ?thesis using False by (subst findString.simps) auto
  qed
qed

text \<open>What saving texts adds.\<close>

fun extended :: "string list \<Rightarrow> string list \<Rightarrow> string list" where
  "extended ds [] = ds"
| "extended ds (s # ss) = extended (if s \<in> set ds then ds else ds @ [s]) ss"

lemma extended_append: "extended ds (ss @ ts) = extended (extended ds ss) ts"
  by (induction ss arbitrary: ds) simp_all

lemma extended_set [simp]: "set (extended ds ss) = set ds \<union> set ss"
  by (induction ss arbitrary: ds) auto

lemma extended_distinct: "distinct ds \<Longrightarrow> distinct (extended ds ss)"
  by (induction ss arbitrary: ds) auto

lemma extended_size: "text_size ds \<le> text_size (extended ds ss)"
proof (induction ss arbitrary: ds)
  case (Cons s ss)
  have "text_size ds \<le> text_size (if s \<in> set ds then ds else ds @ [s])" by simp
  then show ?case using Cons.IH order_trans by (metis extended.simps(2))
qed simp

lemma text_size_subset:
  assumes "distinct ds" and "set ds \<subseteq> set es"
  shows "text_size ds \<le> text_size es"
proof -
  have "text_size ds = (\<Sum>s\<in>set ds. Suc (length s))"
    using assms(1) by (simp add: text_size_def sum_list_distinct_conv_sum_set)
  also have "\<dots> \<le> (\<Sum>s\<in>set es. Suc (length s))" using assms(2) by (intro sum_mono2) auto
  also have "\<dots> \<le> text_size es" by (induction es) (auto simp: sum.insert_if)
  finally show ?thesis .
qed

section \<open>Copying\<close>

fun strings :: "'f jvariant \<Rightarrow> string list" where
  "strings (JString s) = [s]"
| "strings (JRaw s) = [s]"
| "strings (JArray vs) = concat (map strings vs)"
| "strings (JObject ms) = concat (map (\<lambda>(k, v). k # strings v) ms)"
| "strings _ = []"

definition clean :: "'f jvariant \<Rightarrow> bool" where
  "clean v = (\<forall>s\<in>set (strings v). NUL \<notin> set s)"

definition stored :: "string list \<Rightarrow> pool \<Rightarrow> bool" where
  "stored ds p = (p_text p = pool_text ds \<and> distinct ds \<and> (\<forall>d\<in>set ds. NUL \<notin> set d) \<and>
     text_size ds \<le> p_right p \<and> p_right p \<le> p_end p)"

text \<open>
  The outcome of a step that should save the texts \<open>xs\<close> and take \<open>n\<close> slots: it succeeds if there is room for them, and even
  if it failed, what it built (the texts \<open>ws\<close> and \<open>m\<close> slots) is in the pool.
\<close>

definition outcome ::
    "string list \<Rightarrow> pool \<Rightarrow> string list \<Rightarrow> nat \<Rightarrow> bool \<Rightarrow> string list \<Rightarrow> nat \<Rightarrow> string list \<Rightarrow> pool \<Rightarrow> bool" where
  "outcome ds p xs n ok ws m es q =
    (stored es q \<and> set ds \<subseteq> set es \<and> set ws \<subseteq> set es \<and> p_end q = p_end p \<and>
     SLOT_SIZE * m + p_right q \<le> p_right p \<and> (p_overflowed q \<longleftrightarrow> p_overflowed p \<or> \<not> ok) \<and>
     (ok \<longrightarrow> es = extended ds xs \<and> p_right q + SLOT_SIZE * n = p_right p) \<and>
     (text_size (extended ds xs) + SLOT_SIZE * n \<le> p_right p \<longrightarrow> ok))"

lemma outcome_stored: "outcome ds p xs n ok ws m es q \<Longrightarrow> stored es q"
  by (simp add: outcome_def)

lemma outcome_nothing: "stored ds p \<Longrightarrow> outcome ds p [] 0 True [] 0 ds p"
  by (simp add: outcome_def)

lemma outcome_then:
  assumes "outcome ds p xs n True ws m es q" and "outcome es q ys k ok us l gs r"
  shows "outcome ds p (xs @ ys) (n + k) ok (ws @ us) (m + l) gs r"
proof -
  have "set ws \<subseteq> set gs" using assms unfolding outcome_def by blast
  then show ?thesis using assms by (auto simp: outcome_def extended_append algebra_simps)
qed

lemma outcome_stop:
  assumes "outcome ds p xs n False ws m es q"
  shows "outcome ds p (xs @ ys) (n + k) False ws m es q"
proof -
  have "\<not> text_size (extended ds xs) + SLOT_SIZE * n \<le> p_right p" using assms by (auto simp: outcome_def)
  then have "\<not> text_size (extended ds (xs @ ys)) + SLOT_SIZE * (n + k) \<le> p_right p"
    using extended_size [of "extended ds xs" ys] by (simp add: extended_append algebra_simps)
  then show ?thesis using assms by (simp add: outcome_def)
qed

lemma outcome_alloc:
  assumes "stored ds p" and "allocVariant p = (ok, q)"
  shows "outcome ds p [] 1 ok [] (if ok then 1 else 0) ds q"
  using assms by (auto simp: outcome_def stored_def allocVariant_def canAlloc_def markAsOverflowed_def split: if_splits)

lemma outcome_save:
  assumes "stored ds p" and "NUL \<notin> set s" and "saveString s p = (i, q)"
  shows "outcome ds p [s] 0 (i \<noteq> None) (if i = None then [] else [s]) 0 (if i = None then ds else extended ds [s]) q"
  using assms findString_clean [OF assms(2), of ds]
  by (cases "findString s (pool_text ds)")
    (auto simp: outcome_def stored_def saveString_def canAlloc_def markAsOverflowed_def split: if_splits)

lemma outcome_less:
  assumes "outcome ds p xs n ok ws m es q" and "l \<le> m"
  shows "outcome ds p xs n ok ws l es q"
proof -
  have "SLOT_SIZE * l + p_right q \<le> p_right p"
    using mult_le_mono2 [OF assms(2), of SLOT_SIZE] assms(1) unfolding outcome_def by linarith
  then show ?thesis using assms(1) by (simp add: outcome_def)
qed

text \<open>Taking a slot and saving the key of a member in it.\<close>

lemma outcome_key:
  assumes "stored ds p" and "NUL \<notin> set k" and "allocVariant p = (True, p1)" and "saveString k p1 = (i, p2)"
  shows "outcome ds p [k] 1 (i \<noteq> None) (if i = None then [] else [k]) 1 (if i = None then ds else extended ds [k]) p2"
proof -
  have a: "outcome ds p [] 1 True [] 1 ds p1" using outcome_alloc [OF assms(1,3)] by simp
  show ?thesis using outcome_then [OF a outcome_save [OF outcome_stored [OF a] assms(2,4)]] by simp
qed

lemma outcome_no_slot:
  assumes "stored ds p" and "allocVariant p = (False, p1)"
  shows "outcome ds p xs (Suc n) False [] 0 ds p1"
  using outcome_stop [of ds p "[]" 1 "[]" 0 ds p1 xs n] outcome_alloc [OF assms] by simp

text \<open>A function that copies a value.\<close>

definition copies :: "(pool \<Rightarrow> bool \<times> 'a \<times> pool) \<Rightarrow> ('a \<Rightarrow> string list) \<Rightarrow> ('a \<Rightarrow> nat) \<Rightarrow> 'a \<Rightarrow> bool" where
  "copies f texts cnt v = (\<forall>p ds ok w q. stored ds p \<longrightarrow> f p = (ok, w, q) \<longrightarrow>
     (ok \<longrightarrow> w = v) \<and> (\<exists>es. outcome ds p (texts v) (cnt v) ok (texts w) (cnt w) es q))"

lemma copiesI:
  "(\<And>p ds ok w q. stored ds p \<Longrightarrow> f p = (ok, w, q) \<Longrightarrow>
     (ok \<longrightarrow> w = v) \<and> (\<exists>es. outcome ds p (texts v) (cnt v) ok (texts w) (cnt w) es q)) \<Longrightarrow> copies f texts cnt v"
  by (simp add: copies_def)

lemma copiesD:
  assumes "copies f texts cnt v" and "stored ds p" and "f p = (ok, w, q)"
  obtains es where "outcome ds p (texts v) (cnt v) ok (texts w) (cnt w) es q" and "ok \<Longrightarrow> w = v"
  using assms unfolding copies_def by blast

lemma copies_flat: "texts v = [] \<Longrightarrow> cnt v = 0 \<Longrightarrow> copies (\<lambda>p. (True, v, p)) texts cnt v"
  by (auto intro!: copiesI exI outcome_nothing)

lemma copies_text:
  assumes "strings v = [s]" and "slots v = 0" and "NUL \<notin> set s"
  shows "copies (store_text v s) strings slots v"
proof (rule copiesI)
  fix p ds ok w q
  assume p: "stored ds p" and r: "store_text v s p = (ok, w, q)"
  obtain i p' where s: "saveString s p = (i, p')" by (metis surj_pair)
  show "(ok \<longrightarrow> w = v) \<and> (\<exists>es. outcome ds p (strings v) (slots v) ok (strings w) (slots w) es q)"
    using outcome_save [OF p assms(3) s] r assms(1,2) by (cases i) (auto simp: store_text_def s)
qed

definition list_texts :: "'f jvariant list \<Rightarrow> string list" where
  "list_texts vs = concat (map strings vs)"

definition list_slots :: "'f jvariant list \<Rightarrow> nat" where
  "list_slots vs = sum_list (map (\<lambda>v. Suc (slots v)) vs)"

definition member_texts :: "(string \<times> 'f jvariant) list \<Rightarrow> string list" where
  "member_texts ms = concat (map (\<lambda>(k, v). k # strings v) ms)"

definition member_slots :: "(string \<times> 'f jvariant) list \<Rightarrow> nat" where
  "member_slots ms = sum_list (map (\<lambda>(k, v). Suc (slots v)) ms)"

lemma counts_simps [simp]:
  "list_texts [] = []" "list_texts (v # vs) = strings v @ list_texts vs"
  "list_slots [] = 0" "list_slots (v # vs) = Suc (slots v + list_slots vs)"
  "member_texts [] = []" "member_texts ((k, v) # ms) = k # strings v @ member_texts ms"
  "member_slots [] = 0" "member_slots ((k, v) # ms) = Suc (slots v + member_slots ms)"
  by (simp_all add: list_texts_def list_slots_def member_texts_def member_slots_def)

lemma copies_elements:
  assumes "list_all2 (\<lambda>f v. copies f strings slots v) fs vs"
  shows "copies (copy_elements fs) list_texts list_slots vs"
  using assms
proof (induction fs vs rule: list_all2_induct)
  case Nil
  then show ?case by (auto intro!: copiesI exI outcome_nothing)
next
  case (Cons f fs v vs)
  show ?case
  proof (rule copiesI)
    fix p ds ok ws q
    assume p: "stored ds p" and r: "copy_elements (f # fs) p = (ok, ws, q)"
    obtain o1 p1 where 1: "allocVariant p = (o1, p1)" by (metis surj_pair)
    obtain o2 w p2 where 2: "f p1 = (o2, w, p2)" by (metis prod_cases3)
    obtain o3 us p3 where 3: "copy_elements fs p2 = (o3, us, p3)" by (metis prod_cases3)
    note a = outcome_alloc [OF p 1]
    obtain es where b: "outcome ds p1 (strings v) (slots v) o2 (strings w) (slots w) es p2" "o2 \<Longrightarrow> w = v"
      using copiesD [OF Cons.hyps(1) outcome_stored [OF a] 2] by blast
    obtain gs where c: "outcome es p2 (list_texts vs) (list_slots vs) o3 (list_texts us) (list_slots us) gs p3" "o3 \<Longrightarrow> us = vs"
      using copiesD [OF Cons.IH outcome_stored [OF b(1)] 3] by blast
    show "(ok \<longrightarrow> ws = v # vs) \<and> (\<exists>es. outcome ds p (list_texts (v # vs)) (list_slots (v # vs)) ok
        (list_texts ws) (list_slots ws) es q)"
    proof (cases o1)
      case False
      then show ?thesis using r 1 outcome_no_slot [OF p, of p1] by auto
    next
      case o1: True
      then have a1: "outcome ds p [] 1 True [] 1 ds p1" using a by simp
      note ab = outcome_then [OF a1 b(1), simplified]
      show ?thesis
      proof (cases o2)
        case False
        then have "outcome ds p (list_texts (v # vs)) (list_slots (v # vs)) False (list_texts [w]) (list_slots [w]) es p2"
          using outcome_stop [of ds p "strings v" "Suc (slots v)" "strings w" "Suc (slots w)" es p2] ab by simp
        then show ?thesis using r 1 2 o1 False by auto
      next
        case True
        have "outcome ds p (list_texts (v # vs)) (list_slots (v # vs)) o3 (list_texts (w # us)) (list_slots (w # us)) gs p3"
          using outcome_then [OF ab [unfolded eqTrueI [OF True]] c(1)] by simp
        then show ?thesis using r 1 2 3 o1 True c(2) b(2) by auto
      qed
    qed
  qed
qed

lemma copies_members:
  assumes "list_all2 (\<lambda>(k, f) (l, v). k = l \<and> NUL \<notin> set k \<and> copies f strings slots v) fs ms"
  shows "copies (copy_members True fs) member_texts member_slots ms"
  using assms
proof (induction fs ms rule: list_all2_induct)
  case Nil
  then show ?case by (auto intro!: copiesI exI outcome_nothing)
next
  case (Cons x fs y ms)
  obtain k f v where xy: "x = (k, f)" "y = (k, v)" and k: "NUL \<notin> set k" and f: "copies f strings slots v"
    using Cons.hyps(1) by auto
  have ck: "cstr k = k" using k by (auto simp: cstr_def takeWhile_eq_all_conv)
  show ?case unfolding xy
  proof (rule copiesI)
    fix p ds ok ns q
    assume p: "stored ds p" and r: "copy_members True ((k, f) # fs) p = (ok, ns, q)"
    obtain o1 p1 where 1: "allocVariant p = (o1, p1)" by (metis surj_pair)
    obtain i p2 where 2: "saveString k p1 = (i, p2)" by (metis surj_pair)
    obtain o3 w p3 where 3: "f p2 = (o3, w, p3)" by (metis prod_cases3)
    obtain o4 us p4 where 4: "copy_members True fs p3 = (o4, us, p4)" by (metis prod_cases3)
    note a = outcome_alloc [OF p 1]
    note s = outcome_save [OF outcome_stored [OF a] k 2]
    obtain es where b: "outcome (if i = None then ds else extended ds [k]) p2 (strings v) (slots v) o3 (strings w) (slots w) es p3" "o3 \<Longrightarrow> w = v"
      using copiesD [OF f outcome_stored [OF s] 3] by blast
    obtain gs where c: "outcome es p3 (member_texts ms) (member_slots ms) o4 (member_texts us) (member_slots us) gs p4" "o4 \<Longrightarrow> us = ms"
      using copiesD [OF Cons.IH outcome_stored [OF b(1)] 4] by blast
    show "(ok \<longrightarrow> ns = (k, v) # ms) \<and> (\<exists>es. outcome ds p (member_texts ((k, v) # ms)) (member_slots ((k, v) # ms)) ok
        (member_texts ns) (member_slots ns) es q)"
    proof (cases o1)
      case False
      then show ?thesis using r 1 outcome_no_slot [OF p, of p1] by auto
    next
      case o1: True
      note as = outcome_key [OF p k 1 [unfolded eqTrueI [OF o1]] 2]
      show ?thesis
      proof (cases i)
        case None
        then have "outcome ds p (member_texts ((k, v) # ms)) (member_slots ((k, v) # ms)) False [] 1 ds p2"
          using outcome_stop [of ds p "[k]" 1 "[]" 1 ds p2] as by simp
        then have "outcome ds p (member_texts ((k, v) # ms)) (member_slots ((k, v) # ms)) False (member_texts []) (member_slots []) ds p2"
          using outcome_less [of ds p _ _ False "[]" 1 ds p2 0] by simp
        then show ?thesis using r 1 2 o1 None by (auto simp: store_key_def ck)
      next
        case (Some j)
        then have s1: "outcome ds p [k] 1 True [k] 1 (extended ds [k]) p2" using as by simp
        have b1: "outcome (extended ds [k]) p2 (strings v) (slots v) o3 (strings w) (slots w) es p3" using b(1) Some by simp
        note sb = outcome_then [OF s1 b1, simplified]
        show ?thesis
        proof (cases o3)
          case False
          then have "outcome ds p (member_texts ((k, v) # ms)) (member_slots ((k, v) # ms)) False
              (member_texts [(k, w)]) (member_slots [(k, w)]) es p3"
            using outcome_stop [of ds p "k # strings v" "Suc (slots v)" "k # strings w" "Suc (slots w)" es p3] sb by simp
          then show ?thesis using r 1 2 3 o1 Some False by (auto simp: store_key_def ck)
        next
          case True
          have "outcome ds p (member_texts ((k, v) # ms)) (member_slots ((k, v) # ms)) o4
              (member_texts ((k, w) # us)) (member_slots ((k, w) # us)) gs p4"
            using outcome_then [OF sb [unfolded eqTrueI [OF True]] c(1)] by simp
          then show ?thesis using r 1 2 3 4 o1 Some True c(2) b(2) by (auto simp: store_key_def ck)
        qed
      qed
    qed
  qed
qed

lemma slots_collections: "slots (JArray vs) = list_slots vs" "slots (JObject ms) = member_slots ms"
  by (simp_all add: list_slots_def member_slots_def)

lemma strings_collections: "strings (JArray vs) = list_texts vs" "strings (JObject ms) = member_texts ms"
  by (simp_all add: list_texts_def member_texts_def)

lemma clean_simps [simp]:
  "clean (JArray vs) = (\<forall>v\<in>set vs. clean v)"
  "clean (JObject ms) = (\<forall>m\<in>set ms. NUL \<notin> set (fst m) \<and> clean (snd m))"
  "clean JNull" "clean (JBool b)" "clean (JSigned n)" "clean (JUnsigned m)" "clean (JFloat x)"
  "clean (JString s) = (NUL \<notin> set s)" "clean (JRaw s) = (NUL \<notin> set s)"
  by (auto simp: clean_def)

lemma copies_value: "clean v \<Longrightarrow> copies (copyFrom True v) strings slots v"
proof (induction v)
  case (JArray vs)
  then have "list_all2 (\<lambda>f v. copies f strings slots v) (map (copyFrom True) vs) vs"
    by (auto simp: list.rel_map intro!: list.rel_refl_strong)
  note all = copies_elements [OF this]
  show ?case
  proof (rule copiesI)
    fix p ds ok w q
    assume p: "stored ds p" and r: "copyFrom True (JArray vs) p = (ok, w, q)"
    obtain ws where ws: "copy_elements (map (copyFrom True) vs) p = (ok, ws, q)" "w = JArray ws"
      using r by (auto split: prod.splits)
    show "(ok \<longrightarrow> w = JArray vs) \<and> (\<exists>es. outcome ds p (strings (JArray vs)) (slots (JArray vs)) ok (strings w) (slots w) es q)"
      using copiesD [OF all p ws(1)] unfolding ws(2) slots_collections strings_collections by blast
  qed
next
  case (JObject ms)
  then have "list_all2 (\<lambda>(k, f) (l, v). k = l \<and> NUL \<notin> set k \<and> copies f strings slots v)
      (map (\<lambda>(k, v). (k, copyFrom True v)) ms) ms"
    by (auto simp: list.rel_map case_prod_unfold intro!: list.rel_refl_strong)
  note all = copies_members [OF this]
  show ?case
  proof (rule copiesI)
    fix p ds ok w q
    assume p: "stored ds p" and r: "copyFrom True (JObject ms) p = (ok, w, q)"
    obtain ws where ws: "copy_members True (map (\<lambda>(k, v). (k, copyFrom True v)) ms) p = (ok, ws, q)" "w = JObject ws"
      using r by (auto split: prod.splits)
    show "(ok \<longrightarrow> w = JObject ms) \<and> (\<exists>es. outcome ds p (strings (JObject ms)) (slots (JObject ms)) ok (strings w) (slots w) es q)"
      using copiesD [OF all p ws(1)] unfolding ws(2) slots_collections strings_collections by blast
  qed
next
  case (JString s)
  then show ?case using copies_text [of "JString s" s] by (simp add: copies_def setString_def)
next
  case (JRaw s)
  then show ?case using copies_text [of "JRaw s" s] by (simp add: copies_def storeOwnedRaw_def)
qed (auto intro!: copiesI exI outcome_nothing)

section \<open>Documents\<close>

text \<open>
  What always holds of a document: its pool is a list of different texts, those of its values among them, and the
  slots of its values were taken from the pool.
\<close>

definition document_ok :: "'f document \<Rightarrow> bool" where
  "document_ok d = (\<exists>ds. stored ds (d_pool d) \<and> set (strings (d_data d)) \<subseteq> set ds \<and>
     p_right (d_pool d) + SLOT_SIZE * slots (d_data d) \<le> p_end (d_pool d))"

datatype 'f document_op =
    Clear | SetRoot "'f jvariant" | Add "'f jvariant" | SetMember string "'f jvariant"
  | RemoveIndex nat | RemoveKey string | Shrink | CollectGarbage bool

fun document_step :: "'f document \<Rightarrow> 'f document_op \<Rightarrow> 'f document" where
  "document_step d Clear = clear_document d"
| "document_step d (SetRoot v) = snd (set_document True v d)"
| "document_step d (Add v) = snd (add_value True v d)"
| "document_step d (SetMember k v) = snd (set_member True k v d)"
| "document_step d (RemoveIndex i) = remove_index i d"
| "document_step d (RemoveKey k) = remove_key k d"
| "document_step d Shrink = shrinkToFit d"
| "document_step d (CollectGarbage ok) = snd (garbageCollect ok True d)"

fun op_clean :: "'f document_op \<Rightarrow> bool" where
  "op_clean (SetRoot v) = clean v"
| "op_clean (Add v) = clean v"
| "op_clean (SetMember k v) = clean v"
| "op_clean _ = True"

lemma document_okI:
  "stored ds (d_pool d) \<Longrightarrow> set (strings (d_data d)) \<subseteq> set ds \<Longrightarrow>
   p_right (d_pool d) + SLOT_SIZE * slots (d_data d) \<le> p_end (d_pool d) \<Longrightarrow> document_ok d"
  by (auto simp: document_ok_def)

lemma stored_clear: "stored [] (clear_pool p)"
  by (simp add: stored_def)

lemma clear_ok: "document_ok (clear_document d)"
  by (rule document_okI [of "[]"]) (simp_all add: clear_document_def stored_clear)

lemma new_ok: "document_ok (new_document ok n)"
  by (rule document_okI [of "[]"]) (simp_all add: new_document_def allocPool_def new_pool_def stored_def)

text \<open>What was built in a pool that already holds something.\<close>

lemma copied_ok:
  assumes "stored ds p" and "clean v" and "copyFrom True v p = (ok, w, q)"
  obtains es where "stored es q" "set ds \<subseteq> set es" "set (strings w) \<subseteq> set es" "p_end q = p_end p"
    "SLOT_SIZE * slots w + p_right q \<le> p_right p" "p_overflowed q \<longleftrightarrow> p_overflowed p \<or> \<not> ok"
proof -
  obtain es where "outcome ds p (strings v) (slots v) ok (strings w) (slots w) es q"
    using copiesD [OF copies_value [OF assms(2)] assms(1,3)] by metis
  then show thesis using that [of es] by (simp add: outcome_def)
qed

lemma set_ok:
  assumes "clean v"
  shows "document_ok (snd (set_document True v d))"
proof -
  obtain ok w q where r: "copyFrom True v (d_pool (clear_document d)) = (ok, w, q)" by (metis prod_cases3)
  have c: "stored [] (d_pool (clear_document d))" by (simp add: clear_document_def stored_clear)
  obtain es where "stored es q" "set (strings w) \<subseteq> set es" "p_end q = p_end (d_pool d)"
      "SLOT_SIZE * slots w + p_right q \<le> p_end (d_pool d)"
    using copied_ok [OF c assms r] by (auto simp: clear_document_def)
  then show ?thesis by (intro document_okI [of es]) (simp_all add: set_document_def r)
qed

lemma add_ok:
  assumes "document_ok d" and "clean v"
  shows "document_ok (snd (add_value True v d))"
proof (cases "root_array (d_data d)")
  case None
  then show ?thesis using assms(1) by (simp add: add_value_def)
next
  case (Some vs)
  obtain ds where d: "stored ds (d_pool d)" "set (list_texts vs) \<subseteq> set ds"
      "p_right (d_pool d) + SLOT_SIZE * list_slots vs \<le> p_end (d_pool d)"
    using assms(1) Some by (auto simp: document_ok_def root_array_def list_texts_def list_slots_def split: jvariant.splits)
  obtain ok p where a: "allocVariant (d_pool d) = (ok, p)" by (metis surj_pair)
  have p: "stored ds p" "p_end p = p_end (d_pool d)"
      "p_right p + SLOT_SIZE * (if ok then 1 else 0) = p_right (d_pool d)"
    using outcome_alloc [OF d(1) a] a by (auto simp: outcome_def allocVariant_def markAsOverflowed_def canAlloc_def split: if_splits)
  obtain ok2 w q where c: "copyFrom True v p = (ok2, w, q)" by (metis prod_cases3)
  obtain es where e: "stored es q" "set ds \<subseteq> set es" "set (strings w) \<subseteq> set es" "p_end q = p_end p"
      "SLOT_SIZE * slots w + p_right q \<le> p_right p"
    using copied_ok [OF p(1) assms(2) c] by metis
  have app: "list_texts (vs @ [w]) = list_texts vs @ strings w" "list_slots (vs @ [w]) = list_slots vs + Suc (slots w)"
    by (simp_all add: list_texts_def list_slots_def)
  show ?thesis
  proof (cases ok)
    case True
    then show ?thesis using d p e Some a c
      by (intro document_okI [of es])
        (auto simp: add_value_def slots_collections strings_collections app algebra_simps simp del: slots.simps strings.simps)
  next
    case False
    then show ?thesis using d p Some a
      by (intro document_okI [of ds])
        (auto simp: add_value_def slots_collections strings_collections simp del: slots.simps strings.simps)
  qed
qed

lemma setMember_texts: "set (member_texts (setMember k v ms)) \<subseteq> set (member_texts ms) \<union> set (strings v)"
  by (induction k v ms rule: setMember.induct) (auto split: if_splits)

lemma remove_first_texts: "set (member_texts (remove_first k ms)) \<subseteq> set (member_texts ms)"
  by (induction k ms rule: remove_first.induct) auto

lemma remove_first_slots: "member_slots (remove_first k ms) \<le> member_slots ms"
  by (induction k ms rule: remove_first.induct) auto

lemma setMember_slots: "member_slots (setMember k v ms) \<le> member_slots ms + slots v"
  by (induction k v ms rule: setMember.induct) (auto split: if_splits)

lemma cstr_no_NUL: "NUL \<notin> set (cstr k)"
  by (auto simp: cstr_def dest: set_takeWhileD)

lemma member_ok:
  assumes "document_ok d" and "clean v"
  shows "document_ok (snd (set_member True k v d))"
proof (cases "root_object (d_data d)")
  case None
  then show ?thesis using assms(1) by (simp add: set_member_def)
next
  case (Some ms)
  obtain ds where d: "stored ds (d_pool d)" "set (member_texts ms) \<subseteq> set ds"
      "p_right (d_pool d) + SLOT_SIZE * member_slots ms \<le> p_end (d_pool d)"
    using assms(1) Some by (auto simp: document_ok_def root_object_def member_texts_def member_slots_def split: jvariant.splits)
  note sets = slots_collections strings_collections
  show ?thesis
  proof (cases "getMember k ms")
    case (Some old)
    obtain ok w q where c: "copyFrom True v (d_pool d) = (ok, w, q)" by (metis prod_cases3)
    obtain es where e: "stored es q" "set ds \<subseteq> set es" "set (strings w) \<subseteq> set es" "p_end q = p_end (d_pool d)"
        "SLOT_SIZE * slots w + p_right q \<le> p_right (d_pool d)"
      using copied_ok [OF d(1) assms(2) c] by metis
    have "SLOT_SIZE * member_slots (setMember (cstr k) w ms) \<le> SLOT_SIZE * member_slots ms + SLOT_SIZE * slots w"
      using mult_le_mono2 [OF setMember_slots [of "cstr k" w ms], of SLOT_SIZE] by (simp add: distrib_left)
    then have "p_right q + SLOT_SIZE * member_slots (setMember (cstr k) w ms) \<le> p_end q" using e d(3) by linarith
    moreover have "set (member_texts (setMember (cstr k) w ms)) \<subseteq> set es" using setMember_texts [of "cstr k" w ms] d(2) e by blast
    ultimately show ?thesis using \<open>root_object (d_data d) = Some ms\<close> Some c e(1)
      by (intro document_okI [of es]) (simp_all add: set_member_def sets del: slots.simps strings.simps)
  next
    case None
    obtain o1 p where a: "allocVariant (d_pool d) = (o1, p)" by (metis surj_pair)
    have p: "stored ds p" "p_end p = p_end (d_pool d)" "p_right p + SLOT_SIZE * (if o1 then 1 else 0) = p_right (d_pool d)"
      using outcome_alloc [OF d(1) a] a by (auto simp: outcome_def allocVariant_def markAsOverflowed_def canAlloc_def split: if_splits)
    obtain i p2 where s: "saveString (cstr k) p = (i, p2)" by (metis surj_pair)
    define es where "es = (if i = None then ds else extended ds [cstr k])"
    have p2: "stored es p2" "p_end p2 = p_end p" "p_right p2 \<le> p_right p" "set ds \<subseteq> set es" "i \<noteq> None \<longrightarrow> cstr k \<in> set es"
      using outcome_save [OF p(1) cstr_no_NUL s] by (auto simp: outcome_def es_def)
    obtain ok w q where c: "copyFrom True v p2 = (ok, w, q)" by (metis prod_cases3)
    obtain gs where e: "stored gs q" "set es \<subseteq> set gs" "set (strings w) \<subseteq> set gs" "p_end q = p_end p2"
        "SLOT_SIZE * slots w + p_right q \<le> p_right p2"
      using copied_ok [OF p2(1) assms(2) c] by metis
    have app: "member_texts (ms @ [(cstr k, w)]) = member_texts ms @ cstr k # strings w"
        "member_slots (ms @ [(cstr k, w)]) = member_slots ms + Suc (slots w)"
      by (simp_all add: member_texts_def member_slots_def)
    consider "\<not> o1" | "o1" "i = None" | j where "o1" "i = Some j" by blast
    then show ?thesis
    proof cases
      case 1
      then show ?thesis using d p Some None a
        by (intro document_okI [of ds]) (simp_all add: set_member_def sets del: slots.simps strings.simps)
    next
      case 2
      then show ?thesis using d p p2 Some None a s
        by (intro document_okI [of es]) (auto simp: set_member_def store_key_def sets simp del: slots.simps strings.simps)
    next
      case 3
      then show ?thesis using d p p2 e Some None a s c
        by (intro document_okI [of gs])
          (auto simp: set_member_def store_key_def sets app algebra_simps simp del: slots.simps strings.simps)
    qed
  qed
qed

lemma remove_ok:
  assumes "document_ok d"
  shows "document_ok (remove_index i d)" "document_ok (remove_key k d)"
proof -
  obtain ds where d: "stored ds (d_pool d)" "set (strings (d_data d)) \<subseteq> set ds"
      "p_right (d_pool d) + SLOT_SIZE * slots (d_data d) \<le> p_end (d_pool d)"
    using assms by (auto simp: document_ok_def)
  have less: "document_ok (d\<lparr>d_data := v\<rparr>)" if "set (strings v) \<subseteq> set (strings (d_data d))" "slots v \<le> slots (d_data d)" for v
  proof -
    have "p_right (d_pool d) + SLOT_SIZE * slots v \<le> p_end (d_pool d)"
      using d(3) mult_le_mono2 [OF that(2), of SLOT_SIZE] by linarith
    then show ?thesis using d that(1) by (intro document_okI [of ds]) auto
  qed
  have cut: "set (list_texts (take i vs @ drop (Suc i) vs)) \<subseteq> set (list_texts vs)"
      "list_slots (take i vs @ drop (Suc i) vs) \<le> list_slots vs" for vs :: "'a jvariant list"
  proof -
    show "set (list_texts (take i vs @ drop (Suc i) vs)) \<subseteq> set (list_texts vs)"
      by (auto simp: list_texts_def dest: in_set_takeD in_set_dropD)
    have "list_slots vs = list_slots (take i vs) + list_slots (drop i vs)"
      by (simp add: list_slots_def flip: sum_list_append map_append)
    moreover have "list_slots (drop (Suc i) vs) \<le> list_slots (drop i vs)"
      by (cases "i < length vs") (simp_all add: Cons_nth_drop_Suc [symmetric])
    moreover have "list_slots (take i vs @ drop (Suc i) vs) = list_slots (take i vs) + list_slots (drop (Suc i) vs)"
      by (simp add: list_slots_def)
    ultimately show "list_slots (take i vs @ drop (Suc i) vs) \<le> list_slots vs" by (metis add_le_cancel_left)
  qed
  show "document_ok (remove_index i d)"
  proof (cases "d_data d")
    case (JArray vs)
    show ?thesis using less [of "JArray (take i vs @ drop (Suc i) vs)"] cut [of vs] JArray
      by (simp add: remove_index_def slots_collections strings_collections del: slots.simps strings.simps)
  qed (simp_all add: remove_index_def assms)
  show "document_ok (remove_key k d)"
  proof (cases "d_data d")
    case (JObject ms)
    show ?thesis using less [of "JObject (remove_first (cstr k) ms)"] JObject
        remove_first_texts [of "cstr k" ms] remove_first_slots [of "cstr k" ms]
      by (simp add: remove_key_def slots_collections strings_collections del: slots.simps strings.simps)
  qed (simp_all add: remove_key_def assms)
qed

lemma addPadding_le: "n \<le> addPadding n"
  by (simp add: addPadding_def)

lemma addPadding_twice [simp]: "addPadding (addPadding n) = addPadding n"
  by (simp add: addPadding_def)


lemma shrink_ok:
  assumes "document_ok d"
  shows "document_ok (shrinkToFit d)"
proof -
  obtain ds where d: "stored ds (d_pool d)" "set (strings (d_data d)) \<subseteq> set ds"
      "p_right (d_pool d) + SLOT_SIZE * slots (d_data d) \<le> p_end (d_pool d)"
    using assms by (auto simp: document_ok_def)
  then show ?thesis using addPadding_le [of "text_size ds"]
    by (intro document_okI [of ds]) (auto simp: shrinkToFit_def squash_def stored_def Let_def)
qed

section \<open>Reclaiming memory\<close>

text \<open>The least memory a value takes: its different texts, once each, and its slots.\<close>

definition least_memory :: "'f jvariant \<Rightarrow> nat" where
  "least_memory v = text_size (extended [] (strings v)) + SLOT_SIZE * slots v"

lemma set_exact:
  assumes "clean v" and "least_memory v \<le> capacity d"
  shows "\<exists>q. set_document True v d = (True, \<lparr>d_data = v, d_pool = q\<rparr>) \<and> pool_size q = least_memory v \<and> p_end q = capacity d"
proof -
  obtain ok w q where r: "copyFrom True v (d_pool (clear_document d)) = (ok, w, q)" by (metis prod_cases3)
  have c: "stored [] (d_pool (clear_document d))" by (simp add: clear_document_def stored_clear)
  obtain es where e: "outcome [] (d_pool (clear_document d)) (strings v) (slots v) ok (strings w) (slots w) es q" "ok \<Longrightarrow> w = v"
    using copiesD [OF copies_value [OF assms(1)] c r] by metis
  have ok using e(1) assms(2) by (simp add: outcome_def least_memory_def clear_document_def capacity_def)
  then show ?thesis using e r
    by (auto simp: set_document_def set_result_def outcome_def stored_def clear_document_def capacity_def pool_size_def least_memory_def)
qed

lemma document_ok_fits:
  assumes "document_ok d"
  shows "clean (d_data d)" "least_memory (d_data d) \<le> memory_usage d" "memory_usage d \<le> capacity d"
proof -
  obtain ds where d: "stored ds (d_pool d)" "set (strings (d_data d)) \<subseteq> set ds"
      "p_right (d_pool d) + SLOT_SIZE * slots (d_data d) \<le> p_end (d_pool d)"
    using assms by (auto simp: document_ok_def)
  have "text_size (extended [] (strings (d_data d))) \<le> text_size ds"
    using d(2) by (intro text_size_subset extended_distinct) simp_all
  then show "least_memory (d_data d) \<le> memory_usage d" "memory_usage d \<le> capacity d"
    using d(1,3) by (auto simp: least_memory_def memory_usage_def pool_size_def capacity_def stored_def)
  show "clean (d_data d)" using d(1,2) by (auto simp: clean_def stored_def)
qed

lemma garbage_collected:
  assumes "document_ok d"
  obtains e where "garbageCollect ok True d = (ok \<and> capacity d \<noteq> 0, e)" "document_ok e" "d_data e = d_data d"
    "memory_usage e = (if ok \<and> capacity d \<noteq> 0 then least_memory (d_data d) else memory_usage d)"
proof -
  note fits = document_ok_fits [OF assms]
  let ?t = "reallocPool ok (capacity d) \<lparr>d_data = JNull, d_pool = new_pool 0\<rparr> :: 'a document"
  have cap: "capacity ?t = (if ok then addPadding (capacity d) else 0)"
    by (auto simp: reallocPool_def capacity_def allocPool_def new_pool_def Let_def)
  have same: "capacity (snd (set_document True v t)) = capacity t" if "clean v" for v :: "'a jvariant" and t
  proof -
    obtain o1 w q where r: "copyFrom True v (d_pool (clear_document t)) = (o1, w, q)" by (metis prod_cases3)
    have c: "stored [] (d_pool (clear_document t))" by (simp add: clear_document_def stored_clear)
    show ?thesis using copied_ok [OF c that r] r by (auto simp: set_document_def capacity_def clear_document_def)
  qed
  have zero: "addPadding (capacity d) = 0 \<longleftrightarrow> capacity d = 0"
    using addPadding_le [of "capacity d"] by (auto simp: addPadding_def)
  show thesis
  proof (cases "ok \<and> capacity d \<noteq> 0")
    case False
    then have "garbageCollect ok True d = (False, d)"
      using same [OF fits(1), of ?t] cap zero by (auto simp: garbageCollect_def Let_def)
    then show thesis using that assms False by auto
  next
    case True
    then have "least_memory (d_data d) \<le> capacity ?t" using cap fits addPadding_le [of "capacity d"] by simp
    then obtain q where q: "set_document True (d_data d) ?t = (True, \<lparr>d_data = d_data d, d_pool = q\<rparr>)"
        "pool_size q = least_memory (d_data d)" "p_end q = capacity ?t"
      using set_exact [OF fits(1)] by blast
    have "garbageCollect ok True d = (True, \<lparr>d_data = d_data d, d_pool = q\<rparr>)"
      using q(1,3) True cap zero by (simp add: garbageCollect_def Let_def capacity_def)
    moreover have "document_ok \<lparr>d_data = d_data d, d_pool = q\<rparr>"
      using set_ok [OF fits(1), of ?t] q(1) by simp
    ultimately show thesis using that True q(2) by (auto simp: memory_usage_def)
  qed
qed

lemma collect_ok: "document_ok d \<Longrightarrow> document_ok (snd (garbageCollect ok True d))"
  by (rule garbage_collected [of d ok]) auto

interpretation documents: step_invariant document_step "\<lambda>_ op. op_clean op" document_ok
proof
  show "document_ok (document_step d op)" if "document_ok d" "op_clean op" for d :: "'a document" and op
    using that clear_ok set_ok add_ok member_ok remove_ok shrink_ok
    by (cases op) (simp_all add: collect_ok)
qed

text \<open>
  C39. Reclaiming memory never loses anything. After any sequence of operations on a document whose texts are copied and
  free of NUL (values set, added, replaced and removed, with or without room for them, the pool shrunk or collected
  before), garbage
  collection succeeds whenever the allocator does and the document has a pool; the root is the same tree, and the
  memory is the least the tree takes: every slot and every different text once. It is never more than before.
\<close>

theorem garbage_collection_lossless:
  fixes ops :: "'f document_op list"
  assumes "\<forall>op\<in>set ops. op_clean op" and "d = run_steps document_step (new_document ok0 n) ops"
  shows "\<exists>e. garbageCollect ok True d = (ok \<and> capacity d \<noteq> 0, e) \<and> d_data e = d_data d \<and>
    memory_usage e \<le> memory_usage d \<and> (ok \<and> capacity d \<noteq> 0 \<longrightarrow> memory_usage e = least_memory (d_data d))"
proof -
  have "run_ok document_step (\<lambda>_ op. op_clean op) d0 ops" for d0 :: "'f document"
    using assms(1) by (induction ops arbitrary: d0) auto
  then have d: "document_ok d" unfolding assms(2) by (rule documents.run_keeps [OF new_ok])
  show ?thesis
    using document_ok_fits(2) [OF d] by (rule_tac garbage_collected [OF d, of ok]) auto
qed

text \<open>Two values of which one is removed again: what is left takes one slot and one text.\<close>

definition edits :: "unit document_op list" where
  "edits = [Add (JString ''ab''), Add (JArray [JString ''c'', JString ''ab'']), RemoveIndex 1]"

theorem garbage_collection_lossless_witness:
  "\<exists>e. garbageCollect True True (run_steps document_step (new_document True 200) edits) = (True, e) \<and>
     d_data e = JArray [JString ''ab''] \<and> memory_usage e = 35 \<and>
     memory_usage (run_steps document_step (new_document True 200) edits) = 133"
proof -
  have d: "d_data (run_steps document_step (new_document True 200) edits) = JArray [JString ''ab'']"
      "capacity (run_steps document_step (new_document True 200) edits) = 200"
      "memory_usage (run_steps document_step (new_document True 200) edits) = 133"
    by code_simp+
  have "least_memory (JArray [JString ''ab''] :: unit jvariant) = 35" by code_simp
  then show ?thesis
    using garbage_collection_lossless [OF _ refl, of edits True True 200] d by (auto simp: edits_def)
qed

text \<open>
  The texts must be free of NUL. A text with a NUL hides another one in the pool: here \<open>y\<close> is found behind the NUL of the text
  of \<open>b\<close> and shared with it. The copy meets \<open>a\<close> first and has to store \<open>y\<close> for itself, so that the pool, large enough before,
  is too small: collecting garbage reports success and turns the other member into null.
\<close>

definition hidden_text :: "unit document_op list" where
  "hidden_text = [SetMember ''a'' (JUnsigned 0), SetMember ''b'' (JString [CHR ''x'', NUL, CHR ''y'']), SetMember ''a'' (JString ''y'')]"

lemma hidden_text_lost:
  "d_data (run_steps document_step (new_document True 72) hidden_text) =
     JObject [(''a'', JString ''y''), (''b'', JString [CHR ''x'', NUL, CHR ''y''])] \<and>
   (case garbageCollect True True (run_steps document_step (new_document True 72) hidden_text) of
      (ok, e) \<Rightarrow> ok \<and> d_data e = JObject [(''a'', JString ''y''), (''b'', JNull)])"
  by code_simp

section \<open>Assignment\<close>

text \<open>
  C40. Assigning one document to another copies it: when the pool can be allocated, and the texts of the source are copied
  and free of NUL and lie in its pool, as they do after any operations with such texts, the destination holds the same
  tree afterwards, whatever it held before, and the source and every other document are as they were. Assigning a document
  to itself empties it, since it is cleared before it is read.
\<close>

theorem assignment_copies:
  assumes "document_ok (D src)"
  shows "if dst = src then d_data (copyAssignFrom True True dst src D dst) = JNull \<and>
      memory_usage (copyAssignFrom True True dst src D dst) = 0
    else d_data (copyAssignFrom True True dst src D dst) = d_data (D src) \<and>
      (\<forall>i. i \<noteq> dst \<longrightarrow> copyAssignFrom True True dst src D i = D i)"
proof (cases "dst = src")
  case True
  then show ?thesis
    by (simp add: copyAssignFrom_def clear_document_def Let_def memory_usage_def pool_size_def)
next
  case False
  note fits = document_ok_fits [OF assms]
  let ?d = "reallocPool True (capacity (D src)) (D dst)"
  have "capacity ?d = addPadding (capacity (D src))"
    by (auto simp: reallocPool_def capacity_def allocPool_def new_pool_def Let_def)
  then have "least_memory (d_data (D src)) \<le> capacity ?d"
    using fits addPadding_le [of "capacity (D src)"] by simp
  then obtain q where "set_document True (d_data (D src)) ?d = (True, \<lparr>d_data = d_data (D src), d_pool = q\<rparr>)"
    using set_exact [OF fits(1)] by blast
  then show ?thesis using False
    by (auto simp: copyAssignFrom_def set_document_def Let_def split: prod.splits)
qed

theorem assignment_copies_witness:
  "d_data (copyAssignFrom True True (1 :: nat) 1 (\<lambda>_. run_steps document_step (new_document True 200) edits) 1) = JNull \<and>
   d_data (copyAssignFrom True True (0 :: nat) 1 (\<lambda>_. run_steps document_step (new_document True 200) edits) 0) =
     JArray [JString ''ab'']"
proof -
  let ?D = "\<lambda>_ :: nat. run_steps document_step (new_document True 200) edits"
  have "d_data (?D 1) = JArray [JString ''ab'']" by code_simp
  moreover have "document_ok (?D 1)"
    by (rule documents.run_keeps [OF new_ok]) (simp add: edits_def)
  ultimately show ?thesis
    using assignment_copies [of ?D 1 1] assignment_copies [of ?D 1 0] by simp
qed

text \<open>An addition to a document that is not an array does nothing and is reported as a success.\<close>

lemma add_reports_success:
  "root_array (d_data d) = None \<Longrightarrow> \<not> p_overflowed (d_pool d) \<Longrightarrow> add_value copied v d = (True, d)"
  by (simp add: add_value_def set_result_def)

end
