(* ===== verification/Spec2Isabelle.thy ===== *)
theory Spec2Isabelle
  imports
    SessionV1_Limits HandlerV1
    SessionV2_Run HandlerV2_Props
    Constants TcpRaw Stun ConnectionFetcher
    JsonProps JsonSlots_Refine JsonMsgPack_Props JsonVariant_Props
    RelayDocument JsonDocument_Props
begin

text \<open>
  TunServer is the server side of a VPN that runs without privileges. Clients send their IP packets through a tunnel;
  the server terminates each TCP connection of a client itself, as a TCP endpoint written in C++, and relays the bytes to
  the application server over an ordinary socket. Around this core are a client of a relay server, which announces the
  server's public address and learns which clients want to connect, a STUN client that finds this address, and the JSON
  library in which the relay's answers are parsed. File names below are relative to \<open>src/src/\<close>, those of the JSON library
  to \<open>src/external/ArduinoJson/src/ArduinoJson/\<close>.

  \<^bold>\<open>How the parts fit together.\<close>
  The repository holds two generations of the core. The first is a session
  (\<open>session/TCPSession.h\<close>, \<open>.cpp\<close>) and a handler with two threads (\<open>handler/Handler.h\<close>, \<open>.cpp\<close>): one thread takes packets
  from the tunnel and offers each to every session (upstream), the other waits for the sockets of the
  servers and lets the sessions read and flush (downstream). The second is a session (\<open>sessions2/TCPSession.h\<close>) and a
  handler for one client (\<open>handler/ClientHandler.h\<close>, \<open>.cpp\<close>), whose single loop admits new tunnels, serves the tunnels,
  serves the sessions and checks all of them at intervals. The relay client (\<open>connection/ConnectionFetcher.h\<close>, \<open>.cpp\<close>)
  uses the address that \<open>stun/Stun.cpp\<close> finds, polls the relay over HTTP, parses the response as JSON and hands the
  requests to a callback. \<open>TCPRaw.c\<close> is a TCP client that builds its packets by hand, \<open>Constants.h\<close> the
  vocabulary of the tunnel protocol.

  \<^bold>\<open>Shared theories.\<close>
  \<^item> \<open>TunPrelude\<close>: the widths of the integers, memory as a function from offsets to bytes, sequence numbers, and the
    locale \<open>step_invariant\<close> (a property that every step keeps is kept by every run).
  \<^item> \<open>TunBytes\<close>: words as bytes and network order, on a little-endian machine.
  \<^item> \<open>NetWorld\<close>: the world of the sessions. It is a log of events; a socket, the clock or the generator answers with an
    arbitrary function of the log, so a theorem holds for every behaviour of the outside. An access outside a buffer
    is an event as well (\<open>Fault\<close>), and \<open>fault_free\<close> says that there was none.
  \<^item> \<open>TcpPacket\<close>: the packet classes as a record of methods, and the laws of these methods.

  \<^bold>\<open>The first session\<close> (\<open>SessionV1\<close>: the record \<open>session1\<close> has the fields of the class, each member function is one definition
  over the session, the caller's packet object, which the code reuses for its answers, and the world).
  \<^item> \<open>SessionV1_Up\<close> follows the bytes of the client: \<open>pendingUp\<close> abstracts the receive buffer to the bytes not yet sent, and
    a segment appends exactly its payload to the accepted and pending bytes.
  \<^item> \<open>SessionV1_Down\<close> and \<open>SessionV1_Server\<close> follow the bytes of the server: the send loop refines \<open>split_stream\<close>, which cuts a
    byte stream into segments; a silent client is given up.
  \<^item> \<open>SessionV1_Machine\<close> has the transitions between the states as an inductive relation, and the handshake;
    \<open>SessionV1_Run\<close> the invariants of whole runs, by three interpretations of \<open>step_invariant\<close>.
  \<^item> \<open>SessionV1_Limits\<close> shows that the bounds of these theorems are needed: what a partial send and a wrap of the sequence
    numbers do. \<open>SessionV1_Demo\<close> holds the packets and sockets of the witnesses.

  \<^bold>\<open>Its handler\<close> (\<open>HandlerV1\<close>): a round of each loop over the list of sessions, with the locale \<open>session_operation\<close> for what a
  loop keeps if the operation it calls does; and the control of the two threads, an inductive step relation
  over the mutex, the flags and the threads.

  \<^bold>\<open>The second session\<close> (\<open>SessionV2\<close>): as the first one, with the laws of its packets and buffer in \<open>SessionV2_Laws\<close>,
  the client's half in \<open>SessionV2_Client\<close>, the server's in \<open>SessionV2_Server\<close>, and the invariant of all calls in
  \<open>SessionV2_Run\<close>.

  \<^bold>\<open>Its handler\<close> (\<open>HandlerV2\<close>): the lists of tunnels and sessions with their counts, and a round phase by phase. \<open>None\<close> is a
  round that steps past the end of a list or does not return. \<open>HandlerV2_Inv\<close> has the counts that every phase keeps,
  \<open>HandlerV2_Props\<close> the dispatch of packets and the two ways in which the counts go wrong.

  \<^bold>\<open>The tools\<close>: \<open>TcpRaw\<close> (packets built byte by byte are accepted by their receiver), \<open>Stun\<close> (the scan for the address and
  its bounds), \<open>ConnectionFetcher\<close> (retries, the response buffer, the checks of requests), \<open>Constants\<close>.

  \<^bold>\<open>The JSON library\<close>, in two layers.
  A variant is first the tree its slots represent (\<open>JsonData\<close>, with the memory pool,
  the two storages of strings and the filter).
  \<^item> \<open>JsonText\<close>, \<open>JsonParse\<close>, \<open>JsonPrint\<close> are \<open>Json/\<close> and \<open>Numbers/parseNumber.hpp\<close>: the parser with its skipping twin and
    the serializers. \<open>JsonMsgPack\<close> is \<open>MsgPack/\<close>.
  \<^item> The locale \<open>parser_frame\<close> (\<open>JsonFrame\<close>) states of which steps a parser is made; three interpretations in
    \<open>JsonSafe\<close> give that the input only shrinks, that the pool keeps its strings and slots apart and that in-place parsing
    never overtakes its input, and one in \<open>JsonCapacity\<close> that slots are never given back. \<open>JsonMsgPack_Frame\<close> uses the first three for the MessagePack reader.
  \<^item> The locale \<open>string_memory\<close> (\<open>JsonRound\<close>) states what reading back needs of the storage; interpreted on both storages, it
    gives the round trips of \<open>JsonProps\<close> and, with \<open>JsonMsgPack_Round\<close>, of \<open>JsonMsgPack_Props\<close>.
  \<^item> \<open>JsonVariant\<close> is what a program does with a document: lookups, conversions (\<open>Variant/\<close>, \<open>Numbers/\<close>) and comparison;
    \<open>JsonVariant_Props\<close> shows that comparing decides a meaning that is defined without it (finite maps for objects).
  \<^item> \<open>JsonSlots\<close> is the second layer: \<open>Collection/\<close> and \<open>Variant/SlotFunctions.hpp\<close> on slots linked by offsets. In
    \<open>JsonSlots_Refine\<close> the locale \<open>refinement\<close>, interpreted on these operations, shows that every sequence of them does to the
    chain what it does to the list that the first layer uses.
  \<^item> \<open>JsonCapacity\<close> bounds what a parsed document can hold by the slots of its pool.
  \<^item> \<open>JsonDocument\<close> is \<open>Document/\<close>: a root with its pool, deep copies, assignment, \<open>shrinkToFit\<close> and \<open>garbageCollect\<close>.
    \<open>JsonDocument_Props\<close> interprets \<open>step_invariant\<close> on its operations: the pool is a list of different texts and of slots that
    covers the tree, so that collecting garbage after any operations needs no more memory than there was. This holds for
    texts free of NUL; \<open>hidden_text_lost\<close> shows a text with a NUL for which collecting garbage loses a member.

  \<^bold>\<open>The composition\<close> (\<open>RelayDocument\<close>): the document of the relay client, from the text that the relay writes through the
  response buffer, the in-place parser and the conversions to the requests of the callback, and how many of them one
  response can carry at most.

  \<^bold>\<open>Termination and guards.\<close>
  Loops of the code are recursion on the data where that is structural. The send loops are
  \<open>partial_function (option)\<close> and \<open>None\<close> means that they do not return; that they return is a conjunct of the
  theorems, or refuted where they do not. The recursion of the parsers is over the nesting limit, as in the code. Their
  inner loops continue only if the input became shorter; the lemmas of \<open>JsonSafe\<close> show that it always does, so the
  guard ends no loop. The walks over linked slots are partial functions again, and total on well-formed chains.

  \<^bold>\<open>Parameters.\<close>
  Packets, sockets, tunnels, \<open>SmartBuffer\<close> and \<open>DisposableTunnel\<close> come from submodules, \<open>select\<close>, curl, the
  resolver and the clock from the system: they are arguments of the definitions. Laws are stated only where
  a theorem needs them (\<open>header_laws\<close>, \<open>payload_laws1\<close>, \<open>send_laws1\<close>, \<open>recv_laws1\<close>, \<open>session_laws1\<close>, \<open>packet2_laws\<close>,
  \<open>buffer_laws\<close>, \<open>net2_laws\<close>), and every such theorem has a
  witness with concrete functions. IEEE arithmetic is a parameter of the JSON theories.

  \<^bold>\<open>Not modelled.\<close>
  The \<open>main\<close> functions and manual tests (\<open>handler/Main.cpp\<close>, \<open>handler/HandlerTest.cpp\<close>,
  \<open>handler/TestClientHandler.cpp\<close>, \<open>Test.cpp\<close>, \<open>Test2.cpp\<close>, \<open>CurlTest.cpp\<close>, \<open>GCCTest.cpp\<close>, \<open>Listener.c\<close>, \<open>connection/Client.cpp\<close>,
  \<open>stun/StunLib.cpp\<close>, the \<open>main\<close> of \<open>TCPRaw.c\<close> and of \<open>stun/Stun.cpp\<close>): they wire the parts to live sockets and print. The
  resolver call of \<open>stun/Stun.cpp\<close>. Of the JSON library: reading from and writing to streams, the proxy
  classes that only forward to the operations modelled here, custom allocators and moves of documents, and the bits of
  floating-point numbers. Of the first session: the destructor. Logging is compiled out.
\<close>

end
